(* ===== verification/Prelude.thy ===== *)
theory Prelude
  imports Main "HOL-Library.Word"
begin

text \<open>
  Shared ground of the development: the machine-integer types of the C++ sources, exceptions
  as values, byte images of integers (\<open>memcpy\<close> of a trivially copyable value), in-place
  writes into a byte buffer, and the power-of-two round-up that both allocators use.

  Conventions. Unsigned integers that the code adds, multiplies or compares at their width are
  words (\<open>u8\<close>, \<open>u32\<close>, \<open>u64\<close>), so wrap-around is that of the machine. Signed counters and
  slot ids (\<open>int32_t\<close>) are \<open>int\<close> or \<open>nat\<close>: signed overflow is undefined in C++, so the claims
  speak of runs with fewer than \<open>2 ^ 31\<close> tasks. A read outside an array is the error value
  \<open>UndefinedBehaviour\<close>.
\<close>

unbundle bit_operations_syntax

type_synonym u8 = "8 word"
type_synonym u32 = "32 word"
type_synonym u64 = "64 word"
type_synonym bytes = "u8 list"

datatype exn =
    LogicError string
  | RuntimeError string
  | InvalidArgument string
  | OutOfRange string
  | UndefinedBehaviour

text \<open>A fallible operation on a state keeps the state it had reached when it raised.\<close>

type_synonym ('s, 'a) outcome = "(exn + 'a) \<times> 's"

text \<open>Calling a function for its effect.\<close>

definition discard :: "('s, 'a) outcome \<Rightarrow> ('s, unit) outcome" where
  "discard r = (map_sum id (\<lambda>_. ()) (fst r), snd r)"

lemma discard_simps [simp]:
  "snd (discard r) = snd r" "discard (Inl e, s) = (Inl e, s)" "discard (Inr x, s) = (Inr (), s)"
  by (simp_all add: discard_def)

named_theorems word_to_nat \<open>moving word arithmetic to nat\<close>
named_theorems byte_simps \<open>lengths and reads of byte images and buffer writes\<close>

lemma nth_list_update_if: "xs[i := x] ! j = (if i = j \<and> i < length xs then x else xs ! j)"
  by (cases "i < length xs") (auto simp: nth_list_update list_update_beyond)

text \<open>A range-for loop whose body may throw: the exception leaves the loop with the state reached.\<close>

fun for_each :: "('x \<Rightarrow> 's \<Rightarrow> ('s, unit) outcome) \<Rightarrow> 'x list \<Rightarrow> 's \<Rightarrow> ('s, unit) outcome" where
  "for_each f [] s = (Inr (), s)"
| "for_each f (x # xs) s =
     (case f x s of (Inl e, s') \<Rightarrow> (Inl e, s') | (Inr _, s') \<Rightarrow> for_each f xs s')"

text \<open>
  The loop rule: \<open>I xs\<close> holds of the state before the iterations for \<open>xs\<close>; no iteration throws.
\<close>

lemma for_each_rule:
  assumes "\<And>x xs s. I (x # xs) s \<Longrightarrow> \<exists>s'. f x s = (Inr (), s') \<and> I xs s'" and "I xs s"
  shows "\<exists>s'. for_each f xs s = (Inr (), s') \<and> I [] s'"
  using assms(2)
proof (induction xs arbitrary: s)
  case (Cons x xs)
  then obtain s' where "f x s = (Inr (), s')" "I xs s'"
    using assms(1) by blast
  then show ?case
    using Cons.IH by simp
qed simp

text \<open>\<open>std::to_string\<close> and C strings: the bytes before the first NUL.\<close>

function nat_to_string :: "nat \<Rightarrow> string" where
  "nat_to_string n =
     (let d = [char_of (48 + n mod 10)] in if n < 10 then d else nat_to_string (n div 10) @ d)"
  by pat_completeness auto
termination
  by (relation "measure id") auto

declare nat_to_string.simps [simp del]

definition int_to_string :: "int \<Rightarrow> string" where
  "int_to_string i = (if i < 0 then CHR ''-'' # nat_to_string (nat (- i)) else nat_to_string (nat i))"

definition string_of_bytes :: "bytes \<Rightarrow> string" where
  "string_of_bytes bs = map (\<lambda>b. char_of (unat b)) bs"

definition bytes_of_string :: "string \<Rightarrow> bytes" where
  "bytes_of_string s = map (\<lambda>c. of_nat (of_char c)) s"

definition c_str :: "bytes \<Rightarrow> bytes" where
  "c_str bs = takeWhile (\<lambda>b. b \<noteq> 0) bs"

subsection \<open>Little-endian byte images\<close>

fun le_bytes :: "nat \<Rightarrow> nat \<Rightarrow> bytes" where
  "le_bytes 0 v = []"
| "le_bytes (Suc n) v = of_nat v # le_bytes n (v div 256)"

fun le_val :: "bytes \<Rightarrow> nat" where
  "le_val [] = 0"
| "le_val (b # bs) = unat b + 256 * le_val bs"

lemma length_le_bytes [simp, byte_simps]: "length (le_bytes n v) = n"
  by (induction n v rule: le_bytes.induct) auto

lemma le_val_le_bytes: "le_val (le_bytes n v) = v mod 256 ^ n"
proof (induction n v rule: le_bytes.induct)
  case (2 n v)
  have "unat (of_nat v :: u8) = v mod 256"
    by (simp add: unat_of_nat)
  then show ?case
    using 2 by (simp add: mod_mult2_eq)
qed simp

lemma le_val_bound: "le_val bs < 256 ^ length bs"
proof (induction bs)
  case (Cons b bs)
  have "unat b < 256"
    using unsigned_less [of b, where ?'a = nat] by simp
  moreover have "Suc (le_val bs) \<le> 256 ^ length bs"
    using Cons.IH by simp
  then have "256 * Suc (le_val bs) \<le> 256 * 256 ^ length bs"
    by (rule mult_le_mono2)
  ultimately show ?case by simp
qed simp

lemma le_bytes_le_val: "le_bytes (length bs) (le_val bs) = bs"
proof (induction bs)
  case (Cons b bs)
  have "unat b < 256"
    using unsigned_less [of b, where ?'a = nat] by simp
  then have "(unat b + 256 * le_val bs) div 256 = le_val bs"
    by simp
  moreover have "unat (of_nat (unat b + 256 * le_val bs) :: u8) = unat b"
    using \<open>unat b < 256\<close> by (simp only: unat_of_nat) simp
  then have "(of_nat (unat b + 256 * le_val bs) :: u8) = b"
    by (simp only: word_unat_eq_iff)
  ultimately show ?case
    using Cons.IH by simp
qed simp

text \<open>The object representation of an unsigned value of \<open>n\<close> bytes, and the value it reads as.\<close>

definition put32 :: "u32 \<Rightarrow> bytes" where
  "put32 w = le_bytes 4 (unat w)"

definition put64 :: "u64 \<Rightarrow> bytes" where
  "put64 w = le_bytes 8 (unat w)"

definition get32 :: "bytes \<Rightarrow> u32" where
  "get32 bs = of_nat (le_val (take 4 bs))"

definition get64 :: "bytes \<Rightarrow> u64" where
  "get64 bs = of_nat (le_val (take 8 bs))"

lemma length_put32 [simp, byte_simps]: "length (put32 w) = 4"
  by (simp add: put32_def)

lemma length_put64 [simp, byte_simps]: "length (put64 w) = 8"
  by (simp add: put64_def)

lemma get32_put32 [simp, byte_simps]: "get32 (put32 w @ xs) = w"
proof -
  have "unat w < 256 ^ 4"
    using unsigned_less [of w, where ?'a = nat] by simp
  then show ?thesis
    by (simp add: get32_def put32_def le_val_le_bytes)
qed

lemma get64_put64 [simp, byte_simps]: "get64 (put64 w @ xs) = w"
proof -
  have "unat w < 256 ^ 8"
    using unsigned_less [of w, where ?'a = nat] by simp
  then show ?thesis
    by (simp add: get64_def put64_def le_val_le_bytes)
qed

lemmas get32_put32_nil [simp, byte_simps] = get32_put32 [where xs = "[]", simplified]
lemmas get64_put64_nil [simp, byte_simps] = get64_put64 [where xs = "[]", simplified]

lemma put64_get64 [byte_simps]: "length bs = 8 \<Longrightarrow> put64 (get64 bs) = bs"
proof -
  assume len: "length bs = 8"
  have "le_val bs < 2 ^ 64"
    using le_val_bound [of bs] len by simp
  then have "unat (of_nat (le_val bs) :: u64) = le_val bs"
    by (simp add: unat_of_nat)
  then show ?thesis
    using len le_bytes_le_val [of bs] by (simp add: put64_def get64_def)
qed

text \<open>\<open>static_cast\<close> between \<open>int32_t\<close> and its bit pattern.\<close>

definition i32 :: "int \<Rightarrow> u32" where
  "i32 i = of_int i"

definition of_i32 :: "u32 \<Rightarrow> int" where
  "of_i32 w = sint w"

lemma of_i32_i32: "- (2 ^ 31) \<le> i \<Longrightarrow> i < 2 ^ 31 \<Longrightarrow> of_i32 (i32 i) = i"
  by (simp add: of_i32_def i32_def signed_of_int signed_take_bit_int_eq_self)

subsection \<open>Writing into a buffer\<close>

text \<open>\<open>memcpy(buf + off, src, n)\<close>: outside the buffer the write is undefined.\<close>

definition mem_write :: "nat \<Rightarrow> bytes \<Rightarrow> bytes \<Rightarrow> bytes option" where
  "mem_write off src buf =
     (if off + length src \<le> length buf
      then Some (take off buf @ src @ drop (off + length src) buf) else None)"

definition mem_read :: "nat \<Rightarrow> nat \<Rightarrow> bytes \<Rightarrow> bytes option" where
  "mem_read off n buf = (if off + n \<le> length buf then Some (take n (drop off buf)) else None)"

lemma mem_write_length: "mem_write off src buf = Some buf' \<Longrightarrow> length buf' = length buf"
  by (auto simp: mem_write_def split: if_splits)

lemma mem_write_drop:
  assumes "mem_write off src buf = Some buf'"
  shows "drop off buf' = src @ drop (off + length src) buf"
  using assms by (auto simp: mem_write_def split: if_splits)

lemma mem_read_write_same:
  assumes "mem_write off src buf = Some buf'"
  shows "mem_read off (length src) buf' = Some src"
  using assms by (auto simp: mem_write_def mem_read_def split: if_splits)

lemma mem_read_write_before:
  assumes "mem_write off src buf = Some buf'" and "p + n \<le> off"
  shows "mem_read p n buf' = mem_read p n buf"
  using assms
  by (auto simp: mem_write_def mem_read_def drop_take take_append min_def split: if_splits)

lemma mem_read_write_after:
  assumes "mem_write off src buf = Some buf'" and "off + length src \<le> p"
  shows "mem_read p n buf' = mem_read p n buf"
  using assms
  by (auto simp: mem_write_def mem_read_def split: if_splits)

subsection \<open>Rounding up to a power of two\<close>

text \<open>\<open>align_up\<close> of \<open>ring.h\<close>: the sum wraps at 64 bits.\<close>

definition align_up :: "u64 \<Rightarrow> u64 \<Rightarrow> u64" where
  "align_up v align = (v + align - 1) AND NOT (align - 1)"

lemma and_not_mask_eq: "(w :: 'a::len word) AND NOT (mask n) = push_bit n (drop_bit n w)"
  by (rule bit_word_eqI) (auto simp: bit_simps)

lemma unat_and_not_mask [word_to_nat]:
  "unat ((w :: 'a::len word) AND NOT (mask n)) = unat w div 2 ^ n * 2 ^ n"
proof -
  have "unat w div 2 ^ n * 2 ^ n < 2 ^ LENGTH('a)"
    by (rule le_less_trans [OF div_times_less_eq_dividend]) (rule unsigned_less)
  moreover have "unat (drop_bit n w) = unat w div 2 ^ n"
    unfolding unat_drop_bit_eq by (rule drop_bit_eq_div)
  ultimately have "take_bit LENGTH('a) (push_bit n (unat (drop_bit n w))) = unat w div 2 ^ n * 2 ^ n"
    by (simp only: push_bit_eq_mult take_bit_nat_eq_self)
  then show ?thesis
    by (simp only: and_not_mask_eq unsigned_push_bit_eq)
qed

text \<open>
  The two regimes of the 1024-byte round-up: the least multiple of 1024 that holds the request,
  or \<open>0\<close> when the sum passes \<open>2 ^ 64\<close>.
\<close>

lemma align_up_1024_mask: "align_up v 1024 = (v + 1023) AND NOT (mask 10)"
  by (simp add: align_up_def mask_eq_exp_minus_1 algebra_simps)

lemma unat_align_up_1024 [word_to_nat]:
  assumes "unat v + 1023 < 2 ^ 64"
  shows "unat (align_up v 1024) = (unat v + 1023) div 1024 * 1024"
proof -
  have "unat (v + 1023) = unat v + 1023"
    using assms by (simp add: unat_word_ariths)
  then show ?thesis
    by (simp add: align_up_1024_mask unat_and_not_mask)
qed

lemma align_up_1024_wrap:
  assumes "2 ^ 64 \<le> unat v + 1023"
  shows "align_up v 1024 = 0"
proof -
  have "unat v < 2 ^ 64"
    using unsigned_less [of v, where ?'a = nat] by simp
  then have "unat (v + 1023) = unat v + 1023 - 2 ^ 64"
    using assms by (simp add: unat_word_ariths mod_if)
  then have "unat (v + 1023) < 1024"
    using \<open>unat v < 2 ^ 64\<close> by simp
  then have "unat (align_up v 1024) = 0"
    by (simp add: align_up_1024_mask unat_and_not_mask)
  then show ?thesis
    by (simp add: unat_eq_0)
qed

lemma align_up_1024_ge:
  assumes "unat v + 1023 < 2 ^ 64"
  shows "unat v \<le> unat (align_up v 1024)" and "1024 dvd unat (align_up v 1024)"
    and "unat (align_up v 1024) < unat v + 1024"
  using assms by (simp_all add: unat_align_up_1024)

end
