(* ===== verification/TaskInterface.thy ===== *)
theory TaskInterface
  imports Prelude "HOL-Library.Monad_Syntax"
begin

text \<open>
  The task interface of \<open>src/src/common/task_interface\<close>: element types and their sizes
  (\<open>data_type.h\<close>), tensor descriptors and argument tags (\<open>tensor_arg.h\<close>), the argument builder,
  its wire format and the chip-side storage (\<open>task_args.h\<close>), and the per-task configuration
  (\<open>call_config.h\<close>). A field of enum type holds the enum's underlying byte, as the object in
  memory does; the enumerators are the datatype \<open>DataType\<close>.
\<close>

subsection \<open>Element types (data_type.h)\<close>

datatype DataType =
    FLOAT32 | FLOAT16 | INT32 | INT16 | INT8 | UINT8 | BFLOAT16 | INT64 | UINT64 | UINT16 | UINT32
  | DATA_TYPE_NUM

fun dtype_code :: "DataType \<Rightarrow> u8" where
  "dtype_code FLOAT32 = 0"
| "dtype_code FLOAT16 = 1"
| "dtype_code INT32 = 2"
| "dtype_code INT16 = 3"
| "dtype_code INT8 = 4"
| "dtype_code UINT8 = 5"
| "dtype_code BFLOAT16 = 6"
| "dtype_code INT64 = 7"
| "dtype_code UINT64 = 8"
| "dtype_code UINT16 = 9"
| "dtype_code UINT32 = 10"
| "dtype_code DATA_TYPE_NUM = 11"

definition data_type_size :: "u64 list" where
  "data_type_size = [4, 2, 4, 2, 1, 1, 2, 8, 8, 2, 4]"

text \<open>The table is indexed with the byte as it is: past its end the read is undefined.\<close>

definition get_element_size :: "u8 \<Rightarrow> exn + u64" where
  "get_element_size dtype =
     (if unat dtype < length data_type_size then Inr (data_type_size ! unat dtype)
      else Inl UndefinedBehaviour)"

definition get_dtype_name :: "u8 \<Rightarrow> string" where
  "get_dtype_name dtype =
     (if dtype = dtype_code FLOAT32 then ''FLOAT32''
      else if dtype = dtype_code FLOAT16 then ''FLOAT16''
      else if dtype = dtype_code INT32 then ''INT32''
      else if dtype = dtype_code INT16 then ''INT16''
      else if dtype = dtype_code INT8 then ''INT8''
      else if dtype = dtype_code UINT8 then ''UINT8''
      else if dtype = dtype_code BFLOAT16 then ''BFLOAT16''
      else if dtype = dtype_code INT64 then ''INT64''
      else if dtype = dtype_code UINT64 then ''UINT64''
      else if dtype = dtype_code UINT16 then ''UINT16''
      else if dtype = dtype_code UINT32 then ''UINT32''
      else ''UNKNOWN'')"

text \<open>
  Packing a trivially copyable value of at most eight bytes into a \<open>uint64_t\<close> through a union:
  the value is given by its object representation.
\<close>

definition to_u64 :: "bytes \<Rightarrow> u64" where
  "to_u64 v = get64 (v @ replicate (8 - length v) 0)"

definition from_u64 :: "nat \<Rightarrow> u64 \<Rightarrow> bytes" where
  "from_u64 n bits = take n (put64 bits)"

subsection \<open>Tensor descriptors and tags (tensor_arg.h)\<close>

record ContinuousTensor =
  ct_data :: u64
  ct_shapes :: "u32 list"
  ct_ndims :: u32
  ct_dtype :: u8
  ct_child_memory :: u8
  ct_tail_pad :: bytes

definition CONTINUOUS_TENSOR_MAX_DIMS :: nat where
  "CONTINUOUS_TENSOR_MAX_DIMS = 5"

definition wf_tensor :: "ContinuousTensor \<Rightarrow> bool" where
  "wf_tensor t \<longleftrightarrow> length (ct_shapes t) = CONTINUOUS_TENSOR_MAX_DIMS \<and> length (ct_tail_pad t) = 6"

definition nbytes :: "ContinuousTensor \<Rightarrow> exn + u64" where
  "nbytes t =
     (if length (ct_shapes t) < unat (ct_ndims t) then Inl UndefinedBehaviour
      else case get_element_size (ct_dtype t) of
          Inl e \<Rightarrow> Inl e
        | Inr es \<Rightarrow> Inr (fold (\<lambda>d total. total * ucast d) (take (unat (ct_ndims t)) (ct_shapes t)) 1 * es))"

definition is_child_memory :: "ContinuousTensor \<Rightarrow> bool" where
  "is_child_memory t \<longleftrightarrow> ct_child_memory t \<noteq> 0"

datatype TensorArgType = INPUT | OUTPUT | INOUT | OUTPUT_EXISTING | NO_DEP

text \<open>The 40-byte object representation: fields in declaration order, then tail padding.\<close>

definition tensor_bytes :: "ContinuousTensor \<Rightarrow> bytes" where
  "tensor_bytes t = put64 (ct_data t) @ concat (map put32 (ct_shapes t)) @ put32 (ct_ndims t)
     @ [ct_dtype t, ct_child_memory t] @ ct_tail_pad t"

definition tensor_of_bytes :: "bytes \<Rightarrow> ContinuousTensor" where
  "tensor_of_bytes bs =
     \<lparr>ct_data = get64 bs,
      ct_shapes = map (\<lambda>i. get32 (drop (8 + 4 * i) bs)) [0, 1, 2, 3, 4],
      ct_ndims = get32 (drop 28 bs),
      ct_dtype = bs ! 32,
      ct_child_memory = bs ! 33,
      ct_tail_pad = take 6 (drop 34 bs)\<rparr>"

subsection \<open>The argument builder (task_args.h)\<close>

record TaskArgs =
  ta_tensors :: "ContinuousTensor list"
  ta_scalars :: "u64 list"
  ta_tags :: "TensorArgType list"

definition empty_args :: TaskArgs where
  "empty_args = \<lparr>ta_tensors = [], ta_scalars = [], ta_tags = []\<rparr>"

definition add_tensor_tagged :: "ContinuousTensor \<Rightarrow> TensorArgType \<Rightarrow> TaskArgs \<Rightarrow> exn + TaskArgs" where
  "add_tensor_tagged t tag a =
     (if ta_scalars a \<noteq> [] then Inl (LogicError ''TaskArgs: cannot add tensor after scalar'')
      else Inr (a\<lparr>ta_tensors := ta_tensors a @ [t], ta_tags := ta_tags a @ [tag]\<rparr>))"

text \<open>The untagged overload pushes the value-initialised tag, \<open>INPUT\<close>.\<close>

definition add_tensor :: "ContinuousTensor \<Rightarrow> TaskArgs \<Rightarrow> exn + TaskArgs" where
  "add_tensor t a =
     (if ta_scalars a \<noteq> [] then Inl (LogicError ''TaskArgs: cannot add tensor after scalar'')
      else Inr (a\<lparr>ta_tensors := ta_tensors a @ [t], ta_tags := ta_tags a @ [INPUT]\<rparr>))"

definition add_scalar :: "u64 \<Rightarrow> TaskArgs \<Rightarrow> TaskArgs" where
  "add_scalar s a = a\<lparr>ta_scalars := ta_scalars a @ [s]\<rparr>"

definition clear_args :: "TaskArgs \<Rightarrow> TaskArgs" where
  "clear_args a = a\<lparr>ta_tensors := [], ta_scalars := [], ta_tags := []\<rparr>"

definition tensor_count :: "TaskArgs \<Rightarrow> nat" where
  "tensor_count a = length (ta_tensors a)"

definition scalar_count :: "TaskArgs \<Rightarrow> nat" where
  "scalar_count a = length (ta_scalars a)"

definition wf_args :: "TaskArgs \<Rightarrow> bool" where
  "wf_args a \<longleftrightarrow> length (ta_tags a) = length (ta_tensors a) \<and> list_all wf_tensor (ta_tensors a)"

subsection \<open>Views and the wire format\<close>

record TaskArgsView =
  v_tensor_count :: int
  v_scalar_count :: int
  v_tensors :: "ContinuousTensor list"
  v_scalars :: "u64 list"

definition make_view :: "TaskArgs \<Rightarrow> TaskArgsView" where
  "make_view a = \<lparr>v_tensor_count = int (tensor_count a), v_scalar_count = int (scalar_count a),
     v_tensors = ta_tensors a, v_scalars = ta_scalars a\<rparr>"

definition TASK_ARGS_BLOB_HEADER_SIZE :: nat where
  "TASK_ARGS_BLOB_HEADER_SIZE = 8"

definition task_args_blob_size :: "TaskArgs \<Rightarrow> nat" where
  "task_args_blob_size a = TASK_ARGS_BLOB_HEADER_SIZE + tensor_count a * 40 + scalar_count a * 8"

definition write_blob :: "bytes \<Rightarrow> TaskArgs \<Rightarrow> bytes option" where
  "write_blob dst a = do {
     d1 \<leftarrow> mem_write 0 (put32 (of_nat (tensor_count a))) dst;
     d2 \<leftarrow> mem_write 4 (put32 (of_nat (scalar_count a))) d1;
     d3 \<leftarrow> (if tensor_count a > 0
            then mem_write TASK_ARGS_BLOB_HEADER_SIZE (concat (map tensor_bytes (ta_tensors a))) d2
            else Some d2);
     (if scalar_count a > 0
      then mem_write (TASK_ARGS_BLOB_HEADER_SIZE + tensor_count a * 40)
             (concat (map put64 (ta_scalars a))) d3
      else Some d3)
   }"

text \<open>
  The reader takes the counts from the header, rejects negative counts and counts that reach past
  \<open>capacity\<close>, and returns a view into the blob (here: the objects those bytes are).
\<close>

definition read_blob :: "bytes \<Rightarrow> nat \<Rightarrow> exn + TaskArgsView" where
  "read_blob src capacity =
     (if capacity < TASK_ARGS_BLOB_HEADER_SIZE
      then Inl (RuntimeError ''read_blob: capacity < header size'')
      else let T = of_i32 (get32 src); S = of_i32 (get32 (drop 4 src))
        in if T < 0 \<or> S < 0 then Inl (RuntimeError ''read_blob: negative counts'')
           else if TASK_ARGS_BLOB_HEADER_SIZE + nat T * 40 + nat S * 8 > capacity
           then Inl (RuntimeError ''read_blob: header reports more bytes than capacity'')
           else Inr \<lparr>v_tensor_count = T, v_scalar_count = S,
                v_tensors = map (\<lambda>i. tensor_of_bytes (drop (8 + 40 * i) src)) [0..<nat T],
                v_scalars = map (\<lambda>i. get64 (drop (8 + nat T * 40 + 8 * i) src)) [0..<nat S]\<rparr>)"

subsection \<open>Fixed-size chip storage\<close>

definition CHIP_MAX_TENSOR_ARGS :: nat where
  "CHIP_MAX_TENSOR_ARGS = 128"

definition CHIP_MAX_SCALAR_ARGS :: nat where
  "CHIP_MAX_SCALAR_ARGS = 128"

record ChipStorageTaskArgs =
  cs_tensors :: "ContinuousTensor list"
  cs_scalars :: "u64 list"
  cs_tensor_count :: nat
  cs_scalar_count :: nat

definition wf_storage :: "ChipStorageTaskArgs \<Rightarrow> bool" where
  "wf_storage c \<longleftrightarrow> length (cs_tensors c) = CHIP_MAX_TENSOR_ARGS
     \<and> length (cs_scalars c) = CHIP_MAX_SCALAR_ARGS
     \<and> cs_tensor_count c \<le> CHIP_MAX_TENSOR_ARGS \<and> cs_scalar_count c \<le> CHIP_MAX_SCALAR_ARGS"

definition chip_add_tensor :: "ContinuousTensor \<Rightarrow> ChipStorageTaskArgs \<Rightarrow> exn + ChipStorageTaskArgs" where
  "chip_add_tensor t c =
     (if cs_scalar_count c > 0 then Inl (LogicError ''TaskArgs: cannot add tensor after scalar'')
      else if cs_tensor_count c \<ge> CHIP_MAX_TENSOR_ARGS
      then Inl (OutOfRange ''TaskArgs: tensor capacity exceeded'')
      else Inr (c\<lparr>cs_tensors := (cs_tensors c)[cs_tensor_count c := t],
                  cs_tensor_count := cs_tensor_count c + 1\<rparr>))"

definition chip_add_scalar :: "u64 \<Rightarrow> ChipStorageTaskArgs \<Rightarrow> exn + ChipStorageTaskArgs" where
  "chip_add_scalar s c =
     (if cs_scalar_count c \<ge> CHIP_MAX_SCALAR_ARGS
      then Inl (OutOfRange ''TaskArgs: scalar capacity exceeded'')
      else Inr (c\<lparr>cs_scalars := (cs_scalars c)[cs_scalar_count c := s],
                  cs_scalar_count := cs_scalar_count c + 1\<rparr>))"

definition chip_clear :: "ChipStorageTaskArgs \<Rightarrow> ChipStorageTaskArgs" where
  "chip_clear c = c\<lparr>cs_tensor_count := 0, cs_scalar_count := 0\<rparr>"

text \<open>\<open>out\<close> is the uninitialised object the function declares; the copies overwrite a prefix.\<close>

definition view_to_chip_storage ::
    "ChipStorageTaskArgs \<Rightarrow> TaskArgsView \<Rightarrow> exn + ChipStorageTaskArgs" where
  "view_to_chip_storage out view =
     (if nat (v_tensor_count view) > CHIP_MAX_TENSOR_ARGS
      then Inl (OutOfRange ''view_to_chip_storage: tensor_count exceeds CHIP_MAX_TENSOR_ARGS'')
      else if nat (v_scalar_count view) > CHIP_MAX_SCALAR_ARGS
      then Inl (OutOfRange ''view_to_chip_storage: scalar_count exceeds CHIP_MAX_SCALAR_ARGS'')
      else let T = nat (v_tensor_count view); S = nat (v_scalar_count view)
        in Inr \<lparr>cs_tensors = take T (v_tensors view) @ drop T (cs_tensors out),
                cs_scalars = take S (v_scalars view) @ drop S (cs_scalars out),
                cs_tensor_count = T, cs_scalar_count = S\<rparr>)"

subsection \<open>Per-task configuration (call_config.h)\<close>

record CallConfig =
  block_dim :: u32
  aicpu_thread_num :: u32
  enable_l2_swimlane :: u32
  enable_dump_tensor :: u32
  enable_pmu :: u32
  enable_dep_gen :: u32
  output_prefix :: bytes

definition default_config :: CallConfig where
  "default_config = \<lparr>block_dim = 24, aicpu_thread_num = 3, enable_l2_swimlane = 0,
     enable_dump_tensor = 0, enable_pmu = 0, enable_dep_gen = 0, output_prefix = replicate 1024 0\<rparr>"

definition wf_config :: "CallConfig \<Rightarrow> bool" where
  "wf_config c \<longleftrightarrow> length (output_prefix c) = 1024"

definition diagnostics_any :: "CallConfig \<Rightarrow> bool" where
  "diagnostics_any c \<longleftrightarrow> enable_l2_swimlane c \<noteq> 0 \<or> enable_dump_tensor c \<noteq> 0
     \<or> enable_pmu c \<noteq> 0 \<or> enable_dep_gen c \<noteq> 0"

definition output_prefix_set :: "CallConfig \<Rightarrow> bool" where
  "output_prefix_set c \<longleftrightarrow> output_prefix c ! 0 \<noteq> 0"

definition validate :: "CallConfig \<Rightarrow> exn + unit" where
  "validate c =
     (if diagnostics_any c \<and> \<not> output_prefix_set c
      then Inl (InvalidArgument ''CallConfig: output_prefix must be set'') else Inr ())"

definition config_bytes :: "CallConfig \<Rightarrow> bytes" where
  "config_bytes c = put32 (block_dim c) @ put32 (aicpu_thread_num c) @ put32 (enable_l2_swimlane c)
     @ put32 (enable_dump_tensor c) @ put32 (enable_pmu c) @ put32 (enable_dep_gen c)
     @ output_prefix c"

definition config_of_bytes :: "bytes \<Rightarrow> CallConfig" where
  "config_of_bytes bs =
     \<lparr>block_dim = get32 bs, aicpu_thread_num = get32 (drop 4 bs),
      enable_l2_swimlane = get32 (drop 8 bs), enable_dump_tensor = get32 (drop 12 bs),
      enable_pmu = get32 (drop 16 bs), enable_dep_gen = get32 (drop 20 bs),
      output_prefix = take 1024 (drop 24 bs)\<rparr>"


subsection \<open>Sizes and object images\<close>

lemma length_concat_const:
  "(\<And>x. x \<in> set xs \<Longrightarrow> length (f x) = k) \<Longrightarrow> length (concat (map f xs)) = k * length xs"
  by (induction xs) auto

lemma drop_concat_const:
  assumes "\<And>x. x \<in> set xs \<Longrightarrow> length (f x) = k" and "i < length xs"
  shows "drop (k * i) (concat (map f xs) @ ys) = f (xs ! i) @ concat (map f (drop (Suc i) xs)) @ ys"
  using assms
proof (induction xs arbitrary: i)
  case (Cons x xs)
  show ?case
  proof (cases i)
    case 0
    then show ?thesis by simp
  next
    case (Suc j)
    have "length (f x) = k"
      using Cons.prems(1) by simp
    moreover have "drop (k * j) (concat (map f xs) @ ys)
        = f (xs ! j) @ concat (map f (drop (Suc j) xs)) @ ys"
      using Cons.prems Suc by (intro Cons.IH) auto
    ultimately show ?thesis
      using Suc by simp
  qed
qed simp

lemma length_tensor_bytes [byte_simps]:
  "wf_tensor t \<Longrightarrow> length (tensor_bytes t) = 40"
  by (simp add: tensor_bytes_def wf_tensor_def CONTINUOUS_TENSOR_MAX_DIMS_def
      length_concat_const [where k = 4])

lemma tensor_of_tensor_bytes [byte_simps]:
  assumes "wf_tensor t"
  shows "tensor_of_bytes (tensor_bytes t @ xs) = t"
proof -
  obtain a b c d e where sh: "ct_shapes t = [a, b, c, d, e]"
    using assms by (auto simp: wf_tensor_def CONTINUOUS_TENSOR_MAX_DIMS_def numeral_eq_Suc
        length_Suc_conv)
  have pad: "length (ct_tail_pad t) = 6"
    using assms by (simp add: wf_tensor_def)
  have "tensor_bytes t @ xs = put64 (ct_data t) @ put32 a @ put32 b @ put32 c @ put32 d @ put32 e
      @ put32 (ct_ndims t) @ ct_dtype t # ct_child_memory t # ct_tail_pad t @ xs"
    by (simp add: tensor_bytes_def sh)
  then have "tensor_of_bytes (tensor_bytes t @ xs) = \<lparr>ct_data = ct_data t, ct_shapes = [a, b, c, d, e],
      ct_ndims = ct_ndims t, ct_dtype = ct_dtype t, ct_child_memory = ct_child_memory t,
      ct_tail_pad = ct_tail_pad t\<rparr>"
    using pad by (simp add: tensor_of_bytes_def nth_append)
  then show ?thesis
    by (simp add: sh [symmetric])
qed

lemma config_of_config_bytes:
  assumes "wf_config c"
  shows "config_of_bytes (config_bytes c @ xs) = c"
  using assms by (simp add: config_of_bytes_def config_bytes_def wf_config_def)

lemma length_config_bytes [byte_simps]: "wf_config c \<Longrightarrow> length (config_bytes c) = 1048"
  by (simp add: config_bytes_def wf_config_def)

subsection \<open>The wire format round trip\<close>

text \<open>What \<open>write_blob\<close> leaves in the buffer.\<close>

lemma write_blob_layout:
  assumes wf: "wf_args a" and wr: "write_blob dst a = Some d"
  shows "d = put32 (of_nat (tensor_count a)) @ put32 (of_nat (scalar_count a))
      @ concat (map tensor_bytes (ta_tensors a)) @ concat (map put64 (ta_scalars a))
      @ drop (task_args_blob_size a) dst"
    and "task_args_blob_size a \<le> length dst"
proof -
  let ?tb = "concat (map tensor_bytes (ta_tensors a))"
  let ?sb = "concat (map put64 (ta_scalars a))"
  have lt: "length ?tb = 40 * tensor_count a"
    using wf by (auto simp: wf_args_def list_all_iff tensor_count_def byte_simps
        intro!: length_concat_const)
  have ls: "length ?sb = 8 * scalar_count a"
    by (simp add: scalar_count_def length_concat_const [where k = 8])
  have sz: "task_args_blob_size a = 8 + length ?tb + length ?sb"
    by (simp add: task_args_blob_size_def TASK_ARGS_BLOB_HEADER_SIZE_def lt ls)
  obtain d1 d2 d3 where
    d1: "mem_write 0 (put32 (of_nat (tensor_count a))) dst = Some d1" and
    d2: "mem_write 4 (put32 (of_nat (scalar_count a))) d1 = Some d2" and
    d3: "(if tensor_count a > 0 then mem_write 8 ?tb d2 else Some d2) = Some d3" and
    d4: "(if scalar_count a > 0 then mem_write (8 + tensor_count a * 40) ?sb d3 else Some d3) = Some d"
    using wr [unfolded write_blob_def TASK_ARGS_BLOB_HEADER_SIZE_def]
    by (auto simp: bind_eq_Some_conv)
  have len: "8 \<le> length dst"
    using d1 d2 by (auto simp: mem_write_def split: if_splits)
  have e2: "d2 = put32 (of_nat (tensor_count a)) @ put32 (of_nat (scalar_count a)) @ drop 8 dst"
    using d1 d2 by (auto simp: mem_write_def split: if_splits)
  have e3: "d3 = put32 (of_nat (tensor_count a)) @ put32 (of_nat (scalar_count a)) @ ?tb
      @ drop (8 + length ?tb) dst" "8 + length ?tb \<le> length dst"
    using d3 e2 lt len by (auto simp: mem_write_def add.commute split: if_splits)
  show "d = put32 (of_nat (tensor_count a)) @ put32 (of_nat (scalar_count a)) @ ?tb @ ?sb
      @ drop (task_args_blob_size a) dst"
    using d4 e3 lt ls sz by (auto simp: mem_write_def add.commute split: if_splits)
  show "task_args_blob_size a \<le> length dst"
    using d4 e3 lt ls sz by (auto simp: mem_write_def split: if_splits)
qed

lemma write_blob_length: "write_blob dst a = Some d \<Longrightarrow> length d = length dst"
  unfolding write_blob_def
  by (auto simp: bind_eq_Some_conv dest!: mem_write_length split: if_splits)

lemma write_blob_defined:
  assumes wf: "wf_args a" and len: "task_args_blob_size a \<le> length dst"
  shows "\<exists>d. write_blob dst a = Some d"
proof -
  have "length (concat (map tensor_bytes (ta_tensors a))) = 40 * tensor_count a"
    using wf by (auto simp: wf_args_def list_all_iff tensor_count_def byte_simps
        intro!: length_concat_const)
  moreover have "length (concat (map put64 (ta_scalars a))) = 8 * scalar_count a"
    by (simp add: scalar_count_def length_concat_const [where k = 8])
  ultimately show ?thesis
    using len by (auto simp: write_blob_def mem_write_def task_args_blob_size_def
        TASK_ARGS_BLOB_HEADER_SIZE_def)
qed

lemma of_i32_of_nat: "n < 2 ^ 31 \<Longrightarrow> of_i32 (of_nat n) = int n"
  using of_i32_i32 [of "int n"] by (simp add: i32_def)

lemma read_blob_layout:
  assumes wf: "wf_args a"
    and T: "tensor_count a < 2 ^ 31" and S: "scalar_count a < 2 ^ 31"
    and cap: "task_args_blob_size a \<le> capacity"
  shows "read_blob (put32 (of_nat (tensor_count a)) @ put32 (of_nat (scalar_count a))
      @ concat (map tensor_bytes (ta_tensors a)) @ concat (map put64 (ta_scalars a)) @ rest) capacity
    = Inr (make_view a)"
proof -
  let ?tb = "concat (map tensor_bytes (ta_tensors a))"
  let ?sb = "concat (map put64 (ta_scalars a))"
  let ?d = "put32 (of_nat (tensor_count a)) @ put32 (of_nat (scalar_count a)) @ ?tb @ ?sb @ rest"
  have wt: "length (tensor_bytes t) = 40" "wf_tensor t" if "t \<in> set (ta_tensors a)" for t
    using wf that by (auto simp: wf_args_def list_all_iff byte_simps)
  have lt: "length ?tb = 40 * tensor_count a"
    using wt by (simp add: tensor_count_def length_concat_const [where k = 40])
  have tens: "tensor_of_bytes (drop (8 + 40 * i) ?d) = ta_tensors a ! i" if "i < tensor_count a" for i
  proof -
    have "drop (40 * i) (?tb @ ?sb @ rest) = tensor_bytes (ta_tensors a ! i)
        @ concat (map tensor_bytes (drop (Suc i) (ta_tensors a))) @ ?sb @ rest"
      using wt that by (intro drop_concat_const) (auto simp: tensor_count_def)
    then have "drop (8 + 40 * i) ?d = tensor_bytes (ta_tensors a ! i)
        @ concat (map tensor_bytes (drop (Suc i) (ta_tensors a))) @ ?sb @ rest"
      by simp
    then show ?thesis
      using wt that by (simp add: byte_simps tensor_count_def)
  qed
  have scal: "get64 (drop (8 + tensor_count a * 40 + 8 * i) ?d) = ta_scalars a ! i"
    if "i < scalar_count a" for i
  proof -
    have "drop (8 * i) (?sb @ rest) = put64 (ta_scalars a ! i)
        @ concat (map put64 (drop (Suc i) (ta_scalars a))) @ rest"
      using that by (intro drop_concat_const) (auto simp: scalar_count_def)
    then have "drop (8 + tensor_count a * 40 + 8 * i) ?d = put64 (ta_scalars a ! i)
        @ concat (map put64 (drop (Suc i) (ta_scalars a))) @ rest"
      by (simp add: lt)
    then show ?thesis by simp
  qed
  have hdr: "get32 (drop 4 ?d) = of_nat (scalar_count a)" "get32 ?d = of_nat (tensor_count a)"
    by simp_all
  have "map (\<lambda>i. tensor_of_bytes (drop (8 + 40 * i) ?d)) [0..<tensor_count a]
      = map ((!) (ta_tensors a)) [0..<tensor_count a]"
    by (rule map_cong [OF refl], rule tens) simp
  then have "map (\<lambda>i. tensor_of_bytes (drop (8 + 40 * i) ?d)) [0..<tensor_count a] = ta_tensors a"
    by (simp only: tensor_count_def map_nth)
  moreover have "map (\<lambda>i. get64 (drop (8 + tensor_count a * 40 + 8 * i) ?d)) [0..<scalar_count a]
      = map ((!) (ta_scalars a)) [0..<scalar_count a]"
    by (rule map_cong [OF refl], rule scal) simp
  then have "map (\<lambda>i. get64 (drop (8 + tensor_count a * 40 + 8 * i) ?d)) [0..<scalar_count a]
      = ta_scalars a"
    by (simp only: scalar_count_def map_nth)
  ultimately show ?thesis
    using cap
    by (simp only: read_blob_def Let_def hdr of_i32_of_nat [OF T] of_i32_of_nat [OF S] nat_int
        make_view_def task_args_blob_size_def TASK_ARGS_BLOB_HEADER_SIZE_def) simp
qed


subsection \<open>Locality of the reader\<close>

lemma get32_take: "4 \<le> n \<Longrightarrow> get32 (take n bs) = get32 bs"
  by (simp add: get32_def min_def)

lemma get64_take: "8 \<le> n \<Longrightarrow> get64 (take n bs) = get64 bs"
  by (simp add: get64_def min_def)

lemma tensor_of_bytes_take: "40 \<le> n \<Longrightarrow> tensor_of_bytes (take n bs) = tensor_of_bytes bs"
  by (simp add: tensor_of_bytes_def drop_take get32_take get64_take min_def)

lemma read_blob_take:
  "read_blob (take capacity src) capacity = read_blob src capacity"
proof (cases "8 \<le> capacity")
  case True
  let ?T = "of_i32 (get32 src)" and ?S = "of_i32 (get32 (drop 4 src))"
  have hdr: "get32 (take capacity src) = get32 src"
      "get32 (drop 4 (take capacity src)) = get32 (drop 4 src)"
    using True by (simp_all add: get32_take drop_take)
  show ?thesis
  proof (cases "0 \<le> ?T \<and> 0 \<le> ?S \<and> 8 + nat ?T * 40 + nat ?S * 8 \<le> capacity")
    case fits: True
    have "map (\<lambda>i. tensor_of_bytes (drop (8 + 40 * i) (take capacity src))) [0..<nat ?T]
        = map (\<lambda>i. tensor_of_bytes (drop (8 + 40 * i) src)) [0..<nat ?T]"
      using fits by (intro map_cong) (auto simp: drop_take intro!: tensor_of_bytes_take)
    moreover have "map (\<lambda>i. get64 (drop (8 + nat ?T * 40 + 8 * i) (take capacity src))) [0..<nat ?S]
        = map (\<lambda>i. get64 (drop (8 + nat ?T * 40 + 8 * i) src)) [0..<nat ?S]"
      using fits by (intro map_cong) (auto simp: drop_take intro!: get64_take)
    ultimately show ?thesis
      by (simp only: read_blob_def hdr Let_def)
  next
    case False
    then show ?thesis
      by (auto simp: read_blob_def hdr Let_def TASK_ARGS_BLOB_HEADER_SIZE_def)
  qed
qed (simp add: read_blob_def TASK_ARGS_BLOB_HEADER_SIZE_def)

subsection \<open>Properties\<close>

text \<open>
  C17: the mailbox wire format loses nothing but the tags. Writing well-formed arguments into any
  buffer with room for them succeeds, and reading the buffer back with a capacity that covers the
  blob returns exactly the counts, tensors and scalars written.
\<close>

theorem blob_roundtrip:
  assumes "wf_args a" and "tensor_count a < 2 ^ 31" and "scalar_count a < 2 ^ 31"
    and "task_args_blob_size a \<le> length dst" and "task_args_blob_size a \<le> capacity"
  shows "\<exists>d. write_blob dst a = Some d \<and> length d = length dst
    \<and> read_blob d capacity = Inr (make_view a)"
proof -
  obtain d where d: "write_blob dst a = Some d"
    using write_blob_defined assms by blast
  note lay = write_blob_layout [OF assms(1) d]
  have "read_blob d capacity = Inr (make_view a)"
    unfolding lay(1) using assms by (intro read_blob_layout)
  moreover have "length d = length dst"
    using d by (rule write_blob_length)
  ultimately show ?thesis
    using d by blast
qed

definition sample_tensor :: ContinuousTensor where
  "sample_tensor = \<lparr>ct_data = 4096, ct_shapes = [2, 3, 0, 0, 0], ct_ndims = 2,
     ct_dtype = dtype_code FLOAT32, ct_child_memory = 0, ct_tail_pad = replicate 6 0\<rparr>"

definition sample_args :: TaskArgs where
  "sample_args = \<lparr>ta_tensors = [sample_tensor], ta_scalars = [7], ta_tags = [INPUT]\<rparr>"

lemmas sample_defs = sample_args_def sample_tensor_def wf_args_def wf_tensor_def tensor_count_def
  scalar_count_def task_args_blob_size_def CONTINUOUS_TENSOR_MAX_DIMS_def
  TASK_ARGS_BLOB_HEADER_SIZE_def

theorem blob_roundtrip_witness:
  "\<exists>d. write_blob (replicate 64 0) sample_args = Some d
     \<and> read_blob d 64 = Inr (make_view sample_args)"
proof -
  have "wf_args sample_args" "tensor_count sample_args < 2 ^ 31" "scalar_count sample_args < 2 ^ 31"
    "task_args_blob_size sample_args \<le> length (replicate 64 (0 :: u8))"
    "task_args_blob_size sample_args \<le> 64"
    by (simp_all add: sample_defs)
  from blob_roundtrip [OF this] show ?thesis by blast
qed

text \<open>
  C25: the reader never looks past its capacity, whatever the header claims. Two buffers that
  agree on the first \<open>capacity\<close> bytes decode to the same result, and a view that is returned
  describes at most \<open>capacity\<close> bytes.
\<close>

theorem read_blob_within_capacity:
  assumes "take capacity src = take capacity src'"
  shows "read_blob src capacity = read_blob src' capacity
    \<and> (\<forall>v. read_blob src capacity = Inr v \<longrightarrow>
         8 + 40 * length (v_tensors v) + 8 * length (v_scalars v) \<le> capacity
         \<and> v_tensor_count v = int (length (v_tensors v))
         \<and> v_scalar_count v = int (length (v_scalars v)))"
proof -
  have "read_blob src capacity = read_blob src' capacity"
    using read_blob_take [of capacity src] read_blob_take [of capacity src'] assms by simp
  moreover have "8 + 40 * length (v_tensors v) + 8 * length (v_scalars v) \<le> capacity
      \<and> v_tensor_count v = int (length (v_tensors v)) \<and> v_scalar_count v = int (length (v_scalars v))"
    if "read_blob src capacity = Inr v" for v
    using that by (auto simp: read_blob_def Let_def TASK_ARGS_BLOB_HEADER_SIZE_def split: if_splits)
  ultimately show ?thesis by blast
qed

theorem read_blob_within_capacity_witness:
  "take 8 (replicate 8 0 @ [1 :: u8]) = take 8 (replicate 8 0 @ [2])
   \<and> read_blob (replicate 8 0 @ [1]) 8 = read_blob (replicate 8 0 @ [2]) 8"
  using read_blob_within_capacity [of 8 "replicate 8 0 @ [1]" "replicate 8 0 @ [2]"] by simp


definition sample_storage :: ChipStorageTaskArgs where
  "sample_storage = \<lparr>cs_tensors = replicate 128 sample_tensor, cs_scalars = replicate 128 0,
     cs_tensor_count = 0, cs_scalar_count = 0\<rparr>"




end
