(* ===== verification/HierTypes.thy ===== *)
theory HierTypes
  imports TaskInterface
begin

text \<open>
  The scheduling types of the hierarchical runtime (\<open>src/src/common/hierarchical/types.h\<close>,
  \<open>types.cpp\<close>), the scope stack (\<open>scope.h\<close>, \<open>scope.cpp\<close>) and the host tensor map
  (\<open>tensormap.h\<close>, \<open>tensormap.cpp\<close>). Slot ids are \<open>int\<close> because \<open>INVALID_SLOT\<close> is \<open>-1\<close>.
  The interfaces the engine relies on, a FIFO queue and a producer map, are locales interpreted
  here on \<open>ReadyQueue\<close> and \<open>TensorMap\<close>.
\<close>

type_synonym TaskSlot = int

definition INVALID_SLOT :: TaskSlot where
  "INVALID_SLOT = -1"

definition MAX_SCOPE_DEPTH :: nat where
  "MAX_SCOPE_DEPTH = 64"

definition MAX_RING_DEPTH :: nat where
  "MAX_RING_DEPTH = 4"

record TensorKey =
  tk_ptr :: u64
  tk_worker :: int

datatype WorkerType = NEXT_LEVEL | SUB

datatype TaskState = FREE | PENDING | READY | RUNNING | COMPLETED | CONSUMED

record TaskSlotState =
  ts_state :: TaskState
  fanin_count :: int
  fanin_released :: int
  fanout_consumers :: "TaskSlot list"
  fanout_total :: int
  fanout_released :: int
  output_keys :: "TensorKey list"
  affinities :: "int list"
  fanin_producers :: "TaskSlot list"
  worker_type :: WorkerType
  callable_id :: int
  ts_config :: CallConfig
  task_args :: TaskArgs
  task_args_list :: "TaskArgs list"
  is_group :: bool
  ring_idx :: nat
  ring_slot_idx :: nat
  sub_complete_count :: int

text \<open>The default-constructed slot, with the two fields \<open>Ring::alloc\<close> stamps.\<close>

definition new_slot_state :: "nat \<Rightarrow> nat \<Rightarrow> TaskSlotState" where
  "new_slot_state ri rsi =
     \<lparr>ts_state = FREE, fanin_count = 0, fanin_released = 0, fanout_consumers = [], fanout_total = 0,
      fanout_released = 0, output_keys = [], affinities = [], fanin_producers = [],
      worker_type = NEXT_LEVEL, callable_id = -1, ts_config = default_config, task_args = empty_args,
      task_args_list = [], is_group = False, ring_idx = ri, ring_slot_idx = rsi,
      sub_complete_count = 0\<rparr>"

text \<open>\<open>TaskSlotState::reset\<close> leaves \<open>ring_idx\<close> and \<open>ring_slot_idx\<close> alone.\<close>

definition slot_reset :: "TaskSlotState \<Rightarrow> TaskSlotState" where
  "slot_reset s = s\<lparr>ts_state := FREE, fanin_count := 0, fanin_released := 0, fanout_consumers := [],
     fanout_total := 0, fanout_released := 0, output_keys := [], fanin_producers := [],
     worker_type := NEXT_LEVEL, callable_id := -1, ts_config := default_config,
     task_args := clear_args (task_args s), task_args_list := [], is_group := False,
     affinities := [], sub_complete_count := 0\<rparr>"

definition get_affinity :: "TaskSlotState \<Rightarrow> nat \<Rightarrow> exn + int" where
  "get_affinity s i =
     (if affinities s = [] then Inr (-1)
      else if i < length (affinities s) then Inr (affinities s ! i) else Inl UndefinedBehaviour)"

definition group_size :: "TaskSlotState \<Rightarrow> nat" where
  "group_size s = (if is_group s then length (task_args_list s) else 1)"

definition args_view :: "TaskSlotState \<Rightarrow> nat \<Rightarrow> exn + TaskArgsView" where
  "args_view s i =
     (if is_group s
      then (if i < length (task_args_list s) then Inr (make_view (task_args_list s ! i))
            else Inl UndefinedBehaviour)
      else Inr (make_view (task_args s)))"

lemma slot_reset_new: "slot_reset (new_slot_state ri rsi) = new_slot_state ri rsi"
  by (simp add: slot_reset_def new_slot_state_def clear_args_def empty_args_def)

subsection \<open>ReadyQueue\<close>

record ReadyQueue =
  rq_q :: "TaskSlot list"
  rq_shutdown :: bool

definition rq_push :: "TaskSlot \<Rightarrow> ReadyQueue \<Rightarrow> ReadyQueue" where
  "rq_push slot q = q\<lparr>rq_q := rq_q q @ [slot]\<rparr>"

definition try_pop :: "ReadyQueue \<Rightarrow> (TaskSlot \<times> ReadyQueue) option" where
  "try_pop q = (case rq_q q of [] \<Rightarrow> None | s # ss \<Rightarrow> Some (s, q\<lparr>rq_q := ss\<rparr>))"

text \<open>\<open>wait_pop\<close>: \<open>None\<close> while the condition variable blocks the caller.\<close>

definition wait_pop :: "ReadyQueue \<Rightarrow> (TaskSlot option \<times> ReadyQueue) option" where
  "wait_pop q =
     (if rq_q q = [] \<and> \<not> rq_shutdown q then None
      else case rq_q q of [] \<Rightarrow> Some (None, q) | s # ss \<Rightarrow> Some (Some s, q\<lparr>rq_q := ss\<rparr>))"

definition rq_shutdown_op :: "ReadyQueue \<Rightarrow> ReadyQueue" where
  "rq_shutdown_op q = q\<lparr>rq_shutdown := True\<rparr>"

locale fifo_queue =
  fixes contents :: "'q \<Rightarrow> 'a list"
    and push :: "'a \<Rightarrow> 'q \<Rightarrow> 'q"
    and pop :: "'q \<Rightarrow> ('a \<times> 'q) option"
  assumes push_contents: "contents (push x q) = contents q @ [x]"
    and pop_empty: "contents q = [] \<Longrightarrow> pop q = None"
    and pop_head: "contents q = x # xs \<Longrightarrow> \<exists>q'. pop q = Some (x, q') \<and> contents q' = xs"
begin

lemma pop_Some_iff: "(\<exists>q'. pop q = Some (x, q')) \<longleftrightarrow> (\<exists>xs. contents q = x # xs)"
proof (cases "contents q")
  case Nil
  then show ?thesis by (simp add: pop_empty)
next
  case (Cons y ys)
  then show ?thesis
    using pop_head [OF Cons] by auto
qed

lemma pop_rest: "pop q = Some (x, q') \<Longrightarrow> contents q = x # contents q'"
  by (cases "contents q") (auto simp: pop_empty dest!: pop_head)

text \<open>Items leave in the order they came: an item pushed last leaves after all earlier ones.\<close>

lemma push_pop_order: "pop (push x q) = Some (y, q') \<Longrightarrow>
    contents q' @ [] = (if contents q = [] then [] else tl (contents q) @ [x])
    \<and> y = (if contents q = [] then x else hd (contents q))"
  by (cases "contents q") (auto simp: push_contents dest!: pop_rest)

end

interpretation rq: fifo_queue rq_q rq_push try_pop
  by unfold_locales (auto simp: rq_push_def try_pop_def)

subsection \<open>Scope\<close>

text \<open>The stack of frames, innermost first; a frame lists its tasks in registration order.\<close>

type_synonym Scope = "TaskSlot list list"

definition scope_depth :: "Scope \<Rightarrow> nat" where
  "scope_depth sc = length sc"

definition current_depth :: "Scope \<Rightarrow> nat" where
  "current_depth sc = (if scope_depth sc > 0 then scope_depth sc - 1 else 0)"

definition scope_begin :: "Scope \<Rightarrow> exn + Scope" where
  "scope_begin sc =
     (if scope_depth sc \<ge> MAX_SCOPE_DEPTH
      then Inl (RuntimeError ''Scope: maximum nesting depth exceeded'') else Inr ([] # sc))"

text \<open>\<open>scope_end\<close>: the frame is popped only after every \<open>release_fn\<close> call returned.\<close>

definition scope_end ::
    "(TaskSlot \<Rightarrow> 's \<Rightarrow> ('s, unit) outcome) \<Rightarrow> Scope \<Rightarrow> 's \<Rightarrow> ('s, Scope) outcome" where
  "scope_end release_fn sc s =
     (case sc of [] \<Rightarrow> (Inl (RuntimeError ''Scope: scope_end without scope_begin''), s)
      | frame # rest \<Rightarrow>
          (case for_each release_fn frame s of
             (Inl e, s') \<Rightarrow> (Inl e, s') | (Inr _, s') \<Rightarrow> (Inr rest, s')))"

definition register_task :: "TaskSlot \<Rightarrow> Scope \<Rightarrow> Scope" where
  "register_task slot sc = (case sc of [] \<Rightarrow> [] | frame # rest \<Rightarrow> (frame @ [slot]) # rest)"

subsection \<open>TensorMap\<close>

type_synonym TensorMap = "TensorKey \<rightharpoonup> TaskSlot"

definition tm_lookup :: "TensorMap \<Rightarrow> TensorKey \<Rightarrow> TaskSlot" where
  "tm_lookup m key = (case m key of None \<Rightarrow> INVALID_SLOT | Some p \<Rightarrow> p)"

definition tm_insert :: "TensorKey \<Rightarrow> TaskSlot \<Rightarrow> TensorMap \<Rightarrow> TensorMap" where
  "tm_insert key producer m = m(key \<mapsto> producer)"

definition erase_task_outputs :: "TensorKey list \<Rightarrow> TensorMap \<Rightarrow> TensorMap" where
  "erase_task_outputs keys m = fold (\<lambda>key m. m(key := None)) keys m"

definition tm_size :: "TensorMap \<Rightarrow> int" where
  "tm_size m = int (card (dom m))"

lemma erase_task_outputs_apply:
  "erase_task_outputs keys m k = (if k \<in> set keys then None else m k)"
proof -
  have "fold (\<lambda>key m. m(key := None)) keys m k = (if k \<in> set keys then None else m k)"
    by (induction keys arbitrary: m) auto
  then show ?thesis
    by (simp add: erase_task_outputs_def)
qed

text \<open>
  What dependency inference needs of a producer map: a lookup after an insert sees the newest
  producer of the key and nothing else changes; erasing keys removes them and nothing else.
\<close>

locale producer_map =
  fixes lookup :: "'m \<Rightarrow> 'k \<Rightarrow> TaskSlot"
    and insert_p :: "'k \<Rightarrow> TaskSlot \<Rightarrow> 'm \<Rightarrow> 'm"
    and erase :: "'k list \<Rightarrow> 'm \<Rightarrow> 'm"
  assumes lookup_insert: "lookup (insert_p k p m) k' = (if k' = k then p else lookup m k')"
    and lookup_erase: "lookup (erase ks m) k' = (if k' \<in> set ks then INVALID_SLOT else lookup m k')"
begin

lemma newest_producer_wins: "lookup (insert_p k p (insert_p k q m)) k = p"
  by (simp add: lookup_insert)

text \<open>
  Erasing the keys of a retired producer also hides the entry of a later producer that reused
  one of them.
\<close>

lemma erase_hides_newer: "k \<in> set ks \<Longrightarrow> lookup (erase ks (insert_p k p m)) k = INVALID_SLOT"
  by (simp add: lookup_erase)

end

interpretation tm: producer_map tm_lookup tm_insert erase_task_outputs
  by unfold_locales (auto simp: tm_lookup_def tm_insert_def erase_task_outputs_apply)

end
