(* ===== verification/SlabRing.thy ===== *)
theory SlabRing
  imports Prelude
begin

text \<open>
  The contract of a bump-allocated ring heap, stated once on natural numbers. Both allocators of
  the repository (\<open>Ring::try_bump_ring_heap_locked\<close> on the host and
  \<open>PTO2TaskAllocator::try_bump_heap\<close> on the device) carve slabs at \<open>top\<close>, wrap to the start of
  the region, and reclaim in FIFO order by moving \<open>tail\<close> to the end of the oldest slab.

  A slab is a pair of start and length. \<open>layout\<close> describes how the live slabs, oldest first, tile
  the region between \<open>tail\<close> and \<open>top\<close>: in one run, or in a run up to the end of the region
  followed by a run from its start. Live slabs of a \<open>layout\<close> never overlap. The locale
  \<open>bump_heap\<close> is the interface the two concrete allocators are shown to provide.
\<close>

type_synonym slab = "nat \<times> nat"

definition slab_end :: "slab \<Rightarrow> nat" where
  "slab_end s = fst s + snd s"

definition slab_bytes :: "slab \<Rightarrow> nat set" where
  "slab_bytes s = {fst s ..< slab_end s}"

fun chain :: "nat \<Rightarrow> slab list \<Rightarrow> nat \<Rightarrow> bool" where
  "chain a [] b \<longleftrightarrow> a = b"
| "chain a (s # ss) b \<longleftrightarrow> fst s = a \<and> chain (slab_end s) ss b"

definition layout :: "nat \<Rightarrow> nat \<Rightarrow> nat \<Rightarrow> slab list \<Rightarrow> bool" where
  "layout sz tail tp live \<longleftrightarrow>
     tail \<le> tp \<and> tp \<le> sz \<and> chain tail live tp
   \<or> tp < tail \<and> tail \<le> sz
     \<and> (\<exists>pre post m. live = pre @ post \<and> post \<noteq> [] \<and> chain tail pre m \<and> m \<le> sz \<and> chain 0 post tp)"

text \<open>The bump itself, on natural numbers: the start of the new slab and the new \<open>top\<close>.\<close>

definition slab_bump :: "nat \<Rightarrow> nat \<Rightarrow> nat \<Rightarrow> nat \<Rightarrow> (nat \<times> nat) option" where
  "slab_bump sz tp tail a =
     (if tail \<le> tp then
        (if a \<le> sz - tp then Some (tp, tp + a)
         else if a < tail then Some (0, a) else None)
      else if a < tail - tp then Some (tp, tp + a) else None)"

subsection \<open>Chains\<close>

lemma chain_append: "chain a (xs @ ys) b \<longleftrightarrow> (\<exists>m. chain a xs m \<and> chain m ys b)"
  by (induction xs arbitrary: a) auto

lemma chain_le: "chain a ss b \<Longrightarrow> a \<le> b"
  by (induction ss arbitrary: a) (force simp: slab_end_def)+

lemma chain_bounds:
  "chain a ss b \<Longrightarrow> s \<in> set ss \<Longrightarrow> a \<le> fst s \<and> slab_end s \<le> b"
  by (induction ss arbitrary: a) (force simp: slab_end_def dest: chain_le)+

lemma chain_ordered:
  "chain a ss b \<Longrightarrow> i < j \<Longrightarrow> j < length ss \<Longrightarrow> slab_end (ss ! i) \<le> fst (ss ! j)"
proof (induction ss arbitrary: a i j)
  case (Cons s ss)
  obtain j' where j: "j = Suc j'"
    using Cons.prems by (cases j) auto
  show ?case
  proof (cases i)
    case 0
    then show ?thesis
      using Cons.prems j by (auto dest!: chain_bounds [of _ _ _ "ss ! j'"])
  next
    case (Suc i')
    then show ?thesis
      using Cons j by auto
  qed
qed simp

subsection \<open>Layouts\<close>

lemma layout_empty: "layout sz k k [] \<longleftrightarrow> k \<le> sz"
  by (auto simp: layout_def)

lemma layout_bounds: "layout sz tail tp live \<Longrightarrow> tail \<le> sz \<and> tp \<le> sz"
  by (auto simp: layout_def)

lemma layout_inside:
  "layout sz tail tp live \<Longrightarrow> s \<in> set live \<Longrightarrow> slab_end s \<le> sz"
  by (auto simp: layout_def dest!: chain_bounds)

lemma slab_end_le_disjoint:
  "slab_end s \<le> fst t \<or> slab_end t \<le> fst s \<Longrightarrow> slab_bytes s \<inter> slab_bytes t = {}"
  by (auto simp: slab_bytes_def)

lemma layout_disjoint:
  assumes lay: "layout sz tail tp live" and ij: "i < j" "j < length live"
  shows "slab_bytes (live ! i) \<inter> slab_bytes (live ! j) = {}"
proof (rule slab_end_le_disjoint)
  from lay consider
    (straight) "chain tail live tp"
  | (wrapped) pre post m where "tp < tail" "live = pre @ post" "chain tail pre m" "chain 0 post tp"
    by (auto simp: layout_def)
  then show "slab_end (live ! i) \<le> fst (live ! j) \<or> slab_end (live ! j) \<le> fst (live ! i)"
  proof cases
    case straight
    then show ?thesis
      using chain_ordered [OF straight ij] by simp
  next
    case wrapped
    consider "j < length pre" | "i < length pre" "length pre \<le> j" | "length pre \<le> i"
      using ij by linarith
    then show ?thesis
    proof cases
      case 1
      then show ?thesis
        using chain_ordered [OF wrapped(3) ij(1)] ij wrapped(2) by (simp add: nth_append)
    next
      case 2
      have "tail \<le> fst (live ! i)"
        using chain_bounds [OF wrapped(3), of "pre ! i"] 2 wrapped(2) by (simp add: nth_append)
      moreover have "slab_end (live ! j) \<le> tp"
        using chain_bounds [OF wrapped(4), of "post ! (j - length pre)"] 2 wrapped(2) ij
        by (simp add: nth_append)
      ultimately show ?thesis
        using wrapped(1) by simp
    next
      case 3
      then show ?thesis
        using chain_ordered [OF wrapped(4), of "i - length pre" "j - length pre"] ij wrapped(2)
        by (simp add: nth_append)
    qed
  qed
qed

lemma layout_bump:
  assumes lay: "layout sz tail tp live" and bump: "slab_bump sz tp tail a = Some (s, tp')"
  shows "layout sz tail tp' (live @ [(s, a)])"
proof -
  from lay consider
    (straight) "tail \<le> tp" "tp \<le> sz" "chain tail live tp"
  | (wrapped) pre post m where "tp < tail" "tail \<le> sz" "live = pre @ post" "post \<noteq> []"
      "chain tail pre m" "m \<le> sz" "chain 0 post tp"
    by (auto simp: layout_def)
  then show ?thesis
  proof cases
    case straight
    show ?thesis
    proof (cases "a \<le> sz - tp")
      case True
      then show ?thesis
        using straight bump by (auto simp: layout_def slab_bump_def chain_append slab_end_def)
    next
      case False
      then have "s = 0" "tp' = a" "a < tail"
        using straight bump by (auto simp: slab_bump_def split: if_splits)
      then show ?thesis
        using straight unfolding layout_def
        by (intro disjI2 conjI exI [of _ live] exI [of _ "[(s, a)]"] exI [of _ tp])
          (auto simp: slab_end_def)
    qed
  next
    case wrapped
    then have new: "s = tp" "tp' = tp + a" "tp' < tail"
      using bump by (auto simp: slab_bump_def split: if_splits)
    have "chain 0 (post @ [(s, a)]) tp'"
      using wrapped new by (auto simp: chain_append slab_end_def)
    then show ?thesis
      using wrapped new unfolding layout_def
      by (intro disjI2 conjI exI [of _ pre] exI [of _ "post @ [(s, a)]"] exI [of _ m]) auto
  qed
qed

lemma layout_zero:
  assumes "layout sz tail tp live"
  shows "layout sz tail tp (live @ [(tp, 0)])"
proof -
  from assms consider
    (straight) "tail \<le> tp" "tp \<le> sz" "chain tail live tp"
  | (wrapped) pre post m where "tp < tail" "tail \<le> sz" "live = pre @ post" "post \<noteq> []"
      "chain tail pre m" "m \<le> sz" "chain 0 post tp"
    by (auto simp: layout_def)
  then show ?thesis
  proof cases
    case straight
    then show ?thesis
      by (auto simp: layout_def chain_append slab_end_def)
  next
    case wrapped
    then have "chain 0 (post @ [(tp, 0)]) tp"
      by (auto simp: chain_append slab_end_def)
    then show ?thesis
      using wrapped unfolding layout_def
      by (intro disjI2 conjI exI [of _ pre] exI [of _ "post @ [(tp, 0)]"] exI [of _ m]) auto
  qed
qed

lemma layout_retire:
  assumes "layout sz tail tp (s # live)"
  shows "layout sz (slab_end s) tp live"
proof -
  from assms consider
    (straight) "tail \<le> tp" "tp \<le> sz" "chain tail (s # live) tp"
  | (wrapped) pre post m where "tp < tail" "tail \<le> sz" "s # live = pre @ post" "post \<noteq> []"
      "chain tail pre m" "m \<le> sz" "chain 0 post tp"
    by (auto simp: layout_def)
  then show ?thesis
  proof cases
    case straight
    then show ?thesis
      by (auto simp: layout_def dest: chain_le)
  next
    case wrapped
    show ?thesis
    proof (cases pre)
      case Nil
      then show ?thesis
        using wrapped by (cases post) (auto simp: layout_def dest: chain_le)
    next
      case (Cons p pre')
      then have "p = s" "live = pre' @ post" "chain (slab_end s) pre' m" "tail \<le> slab_end s"
        using wrapped by (auto simp: slab_end_def)
      then show ?thesis
        using wrapped chain_le [of "slab_end s" pre' m] unfolding layout_def
        by (intro disjI2 conjI exI [of _ pre'] exI [of _ post] exI [of _ m]) auto
    qed
  qed
qed

lemma layout_retire_many:
  "layout sz tail tp (dead @ live) \<Longrightarrow> dead \<noteq> [] \<Longrightarrow> layout sz (slab_end (last dead)) tp live"
proof (induction dead arbitrary: tail)
  case (Cons s dead)
  then show ?case
    using layout_retire [of sz tail tp s "dead @ live"] by (cases "dead = []") auto
qed simp

subsection \<open>When a request fits\<close>

text \<open>An allocator with nothing live refuses a request exactly when both ends are too short.\<close>

lemma slab_bump_idle:
  assumes "k \<le> sz"
  shows "slab_bump sz k k a = None \<longleftrightarrow> sz - k < a \<and> k \<le> a"
  using assms by (auto simp: slab_bump_def)

lemma slab_bump_start: "slab_bump sz tp tail a = Some (s, tp') \<Longrightarrow> tp' = s + a"
  by (auto simp: slab_bump_def split: if_splits)

lemma slab_bump_start_cases: "slab_bump sz tp tail a = Some (s, tp') \<Longrightarrow> s = tp \<or> s = 0"
  by (auto simp: slab_bump_def split: if_splits)

subsection \<open>The interface\<close>

locale bump_heap =
  fixes hsize htop htail :: "'s \<Rightarrow> nat"
    and bump :: "u64 \<Rightarrow> 's \<Rightarrow> (nat \<times> 's) option"
    and retire_to :: "nat \<Rightarrow> 's \<Rightarrow> 's"
  assumes bump_spec: "htop s \<le> hsize s \<Longrightarrow> htail s \<le> hsize s \<Longrightarrow> 0 < a \<Longrightarrow>
      map_option (\<lambda>(p, s'). (p, htop s')) (bump a s) = slab_bump (hsize s) (htop s) (htail s) (unat a)"
    and bump_size: "bump a s = Some (p, s') \<Longrightarrow> hsize s' = hsize s"
    and bump_tail: "bump a s = Some (p, s') \<Longrightarrow> htail s' = htail s"
    and retire_tail: "t \<le> hsize s \<Longrightarrow> htail (retire_to t s) = t"
    and retire_top: "htop (retire_to t s) = htop s"
    and retire_size: "hsize (retire_to t s) = hsize s"
begin

lemma bump_keeps_layout:
  assumes lay: "layout (hsize s) (htail s) (htop s) live" and a: "0 < a" and b: "bump a s = Some (p, s')"
  shows "layout (hsize s') (htail s') (htop s') (live @ [(p, unat a)])"
proof -
  have "slab_bump (hsize s) (htop s) (htail s) (unat a) = Some (p, htop s')"
    using bump_spec [of s a] layout_bounds [OF lay] a b by simp
  then show ?thesis
    using layout_bump [OF lay] bump_size [OF b] bump_tail [OF b] by simp
qed

lemma bump_fresh:
  assumes lay: "layout (hsize s) (htail s) (htop s) live" and a: "0 < a" and b: "bump a s = Some (p, s')"
  shows "p + unat a \<le> hsize s \<and> (\<forall>q \<in> set live. slab_bytes q \<inter> slab_bytes (p, unat a) = {})"
proof -
  note lay' = bump_keeps_layout [OF lay a b]
  have "slab_bytes q \<inter> slab_bytes (p, unat a) = {}" if q: "q \<in> set live" for q
  proof -
    obtain i where "i < length live" "live ! i = q"
      using q by (auto simp: in_set_conv_nth)
    then show ?thesis
      using layout_disjoint [OF lay', of i "length live"] by (simp add: nth_append)
  qed
  moreover have "p + unat a \<le> hsize s"
    using layout_inside [OF lay', of "(p, unat a)"] bump_size [OF b] by (simp add: slab_end_def)
  ultimately show ?thesis by blast
qed

lemma retire_keeps_layout:
  assumes lay: "layout (hsize s) (htail s) (htop s) (dead @ live)" and "dead \<noteq> []"
  shows "layout (hsize s) (htail (retire_to (slab_end (last dead)) s)) (htop s) live"
proof -
  have "slab_end (last dead) \<le> hsize s"
    using layout_inside [OF lay] assms(2) by simp
  then show ?thesis
    using layout_retire_many [OF lay assms(2)] by (simp add: retire_tail)
qed

lemma bump_refused_idle:
  assumes "htop s = k" and "htail s = k" and "k \<le> hsize s" and "0 < a"
  shows "bump a s = None \<longleftrightarrow> hsize s - k < unat a \<and> k \<le> unat a"
proof -
  have "bump a s = None \<longleftrightarrow> slab_bump (hsize s) k k (unat a) = None"
    using bump_spec [of s a] assms by (metis (no_types) option.map_disc_iff)
  then show ?thesis
    using slab_bump_idle [OF assms(3)] by simp
qed

end

end
