(* ===== verification/HierRing.thy ===== *)
theory HierRing
  imports HierTypes SlabRing
begin

text \<open>
  The slot and heap allocator of the host runtime (\<open>src/src/common/hierarchical/ring.h\<close>,
  \<open>ring.cpp\<close>): four shared-memory heap rings selected by scope depth, a global slot list, and
  FIFO reclamation per ring.

  Mutexes disappear: every definition is one critical section or, for \<open>ring_alloc\<close>, the two of
  the source in their order. The condition-variable wait inside \<open>alloc\<close> is explicit: the caller
  passes what other threads did during each wait (\<open>wait_event\<close>), and a call that is still waiting
  when the events run out has no result. Pointers are addresses; \<open>mmap\<close> is a parameter of
  \<open>ring_init\<close>. \<open>hr_released\<close> holds the 0/1 bytes of the source as booleans.
\<close>

definition HEAP_ALIGN :: u64 where
  "HEAP_ALIGN = 1024"

definition ALLOC_TIMEOUT_MS :: u32 where
  "ALLOC_TIMEOUT_MS = 10000"

definition ring_idx_for_scope :: "int \<Rightarrow> nat" where
  "ring_idx_for_scope depth =
     (let d = (if depth < 0 then 0 else depth)
      in if d < int MAX_RING_DEPTH then nat d else MAX_RING_DEPTH - 1)"

record AllocResult =
  ar_slot :: TaskSlot
  ar_heap_ptr :: u64
  ar_heap_end :: u64
  ar_ring_idx :: nat

record HeapRing =
  hr_base :: u64
  hr_size :: u64
  hr_top :: u64
  hr_tail :: u64
  hr_mapped :: bool
  hr_released :: "bool list"
  hr_slot_heap_end :: "u64 list"
  hr_last_alive :: nat

record Ring =
  timeout_ms :: u32
  next_task_id :: nat
  slot_states :: "TaskSlotState list"
  rings :: "HeapRing list"
  ring_shutdown_flag :: bool

definition new_heap_ring :: HeapRing where
  "new_heap_ring = \<lparr>hr_base = 0, hr_size = 0, hr_top = 0, hr_tail = 0, hr_mapped = False,
     hr_released = [], hr_slot_heap_end = [], hr_last_alive = 0\<rparr>"

definition new_ring :: Ring where
  "new_ring = \<lparr>timeout_ms = ALLOC_TIMEOUT_MS, next_task_id = 0, slot_states = [],
     rings = replicate MAX_RING_DEPTH new_heap_ring, ring_shutdown_flag = False\<rparr>"

subsection \<open>init\<close>

definition rewind_ring :: "HeapRing \<Rightarrow> HeapRing" where
  "rewind_ring r = r\<lparr>hr_top := 0, hr_tail := 0, hr_last_alive := 0, hr_released := [],
     hr_slot_heap_end := []\<rparr>"

definition unmap_ring :: "HeapRing \<Rightarrow> HeapRing" where
  "unmap_ring r =
     (if hr_mapped r \<and> hr_base r \<noteq> 0 then r\<lparr>hr_base := 0, hr_size := 0, hr_mapped := False\<rparr> else r)"

function init_rings ::
    "u64 \<Rightarrow> (nat \<Rightarrow> u64 option) \<Rightarrow> nat \<Rightarrow> HeapRing list \<Rightarrow> (HeapRing list, unit) outcome" where
  "init_rings heap_bytes mmap i rs =
     (if i < length rs then
        (let r = rewind_ring (rs ! i)
         in if heap_bytes > 0 then
              (case mmap i of
                 None \<Rightarrow> (Inl (RuntimeError ''Ring: per-ring heap mmap failed''),
                          map unmap_ring (rs[i := r]))
               | Some b \<Rightarrow> init_rings heap_bytes mmap (Suc i)
                   (rs[i := r\<lparr>hr_base := b, hr_size := heap_bytes, hr_mapped := True\<rparr>]))
            else init_rings heap_bytes mmap (Suc i) (rs[i := r\<lparr>hr_base := 0, hr_size := 0\<rparr>]))
      else (Inr (), rs))"
  by pat_completeness auto
termination
  by (relation "measure (\<lambda>(hb, mm, i, rs). length rs - i)") auto

declare init_rings.simps [simp del]

definition ring_init :: "u64 \<Rightarrow> u32 \<Rightarrow> (nat \<Rightarrow> u64 option) \<Rightarrow> Ring \<Rightarrow> (Ring, unit) outcome" where
  "ring_init heap_bytes tmo mmap R =
     (if list_ex hr_mapped (rings R) then (Inl (LogicError ''Ring::init called twice''), R)
      else let R1 = R\<lparr>timeout_ms := (if tmo = 0 then ALLOC_TIMEOUT_MS else tmo),
                      next_task_id := 0, slot_states := [], ring_shutdown_flag := False\<rparr>
        in case init_rings heap_bytes mmap 0 (rings R1) of
             (res, rs) \<Rightarrow> (res, R1\<lparr>rings := rs\<rparr>))"

subsection \<open>Heap bump and FIFO advance\<close>

definition try_bump_ring_heap_locked :: "u64 \<Rightarrow> HeapRing \<Rightarrow> (u64 \<times> u64 \<times> HeapRing) option" where
  "try_bump_ring_heap_locked aligned r =
     (let tp = hr_top r; tl = hr_tail r
      in if tp \<ge> tl then
           (let at_end = hr_size r - tp
            in if at_end \<ge> aligned then
                 Some (hr_base r + tp, tp + aligned, r\<lparr>hr_top := tp + aligned\<rparr>)
               else if tl > aligned then Some (hr_base r, aligned, r\<lparr>hr_top := aligned\<rparr>)
               else None)
         else if tl - tp > aligned then
           Some (hr_base r + tp, tp + aligned, r\<lparr>hr_top := tp + aligned\<rparr>)
         else None)"

function advance_last_alive_locked :: "HeapRing \<Rightarrow> HeapRing" where
  "advance_last_alive_locked r =
     (if hr_last_alive r < length (hr_released r) \<and> hr_released r ! hr_last_alive r
      then advance_last_alive_locked
             (r\<lparr>hr_tail := hr_slot_heap_end r ! hr_last_alive r, hr_last_alive := hr_last_alive r + 1\<rparr>)
      else r)"
  by pat_completeness auto
termination
  by (relation "measure (\<lambda>r. length (hr_released r) - hr_last_alive r)") auto

declare advance_last_alive_locked.simps [simp del]

subsection \<open>release, shutdown, reset and queries\<close>

definition ring_release :: "TaskSlot \<Rightarrow> Ring \<Rightarrow> Ring" where
  "ring_release slot R =
     (if slot < 0 \<or> slot \<ge> int (length (slot_states R)) then R
      else let s = slot_states R ! nat slot; r = rings R ! ring_idx s; k = ring_slot_idx s
        in if k \<ge> length (hr_released r) then R
           else if hr_released r ! k then R
           else R\<lparr>rings := (rings R)[ring_idx s :=
                    advance_last_alive_locked (r\<lparr>hr_released := (hr_released r)[k := True]\<rparr>)]\<rparr>)"

definition ring_slot_state :: "TaskSlot \<Rightarrow> Ring \<Rightarrow> TaskSlotState option" where
  "ring_slot_state slot R =
     (if slot < 0 \<or> slot \<ge> int (length (slot_states R)) then None
      else Some (slot_states R ! nat slot))"

definition reset_to_empty :: "Ring \<Rightarrow> (Ring, unit) outcome" where
  "reset_to_empty R =
     (if list_ex (\<lambda>r. hr_last_alive r \<noteq> length (hr_released r)) (rings R)
      then (Inl (LogicError ''Ring::reset_to_empty: tasks still live on at least one ring''), R)
      else (Inr (), R\<lparr>next_task_id := 0, slot_states := [], rings := map rewind_ring (rings R)\<rparr>))"

definition active_count :: "Ring \<Rightarrow> int" where
  "active_count R = int (next_task_id R) - sum_list (map (\<lambda>r. int (hr_last_alive r)) (rings R))"

definition ring_at :: "int \<Rightarrow> Ring \<Rightarrow> exn + HeapRing" where
  "ring_at i R =
     (if i < 0 \<or> i \<ge> int MAX_RING_DEPTH then Inl (OutOfRange ''Ring: ring_idx out of range'')
      else Inr (rings R ! nat i))"

definition ring_shutdown :: "Ring \<Rightarrow> Ring" where
  "ring_shutdown R = R\<lparr>ring_shutdown_flag := True\<rparr>"

subsection \<open>alloc\<close>

text \<open>
  What happened while the caller slept in \<open>cv.wait_until\<close>: the slots other threads released, in
  order, whether \<open>shutdown\<close> was called, and whether the wait ended by notification or by the
  deadline.
\<close>

datatype wait_event = Woken "TaskSlot list" bool | TimedOut "TaskSlot list" bool

definition env_step :: "TaskSlot list \<Rightarrow> bool \<Rightarrow> Ring \<Rightarrow> Ring" where
  "env_step rs sd R = (let R' = fold ring_release rs R in if sd then ring_shutdown R' else R')"

datatype wait_result = Got u64 u64 | Stopped | Expired | StillBlocked

fun alloc_wait :: "wait_event list \<Rightarrow> nat \<Rightarrow> u64 \<Rightarrow> Ring \<Rightarrow> wait_result \<times> Ring" where
  "alloc_wait evs ri aligned R =
     (if ring_shutdown_flag R then (Stopped, R)
      else if aligned = 0 then (Got 0 (hr_top (rings R ! ri)), R)
      else case try_bump_ring_heap_locked aligned (rings R ! ri) of
          Some (p, e, r') \<Rightarrow> (Got p e, R\<lparr>rings := (rings R)[ri := r']\<rparr>)
        | None \<Rightarrow>
            (case evs of
               [] \<Rightarrow> (StillBlocked, R)
             | Woken rs sd # evs' \<Rightarrow> alloc_wait evs' ri aligned (env_step rs sd R)
             | TimedOut rs sd # evs' \<Rightarrow>
                 (let R' = env_step rs sd R
                  in if ring_shutdown_flag R' then (Stopped, R') else (Expired, R'))))"

declare alloc_wait.simps [simp del]

definition alloc_commit :: "nat \<Rightarrow> u64 \<Rightarrow> u64 \<Rightarrow> Ring \<Rightarrow> AllocResult \<times> Ring" where
  "alloc_commit ri heap_ptr heap_end R =
     (let r = rings R ! ri;
          k = length (hr_released r);
          r' = r\<lparr>hr_released := hr_released r @ [False],
                 hr_slot_heap_end := hr_slot_heap_end r @ [heap_end]\<rparr>;
          task_id = next_task_id R
      in (\<lparr>ar_slot = int task_id, ar_heap_ptr = heap_ptr, ar_heap_end = heap_end, ar_ring_idx = ri\<rparr>,
          R\<lparr>rings := (rings R)[ri := r'], next_task_id := task_id + 1,
            slot_states := slot_states R @ [new_slot_state ri k]\<rparr>))"

definition aligned_request :: "u64 \<Rightarrow> u64" where
  "aligned_request bytes = (if bytes > 0 then align_up bytes HEAP_ALIGN else 0)"

definition ring_alloc ::
    "wait_event list \<Rightarrow> u64 \<Rightarrow> int \<Rightarrow> Ring \<Rightarrow> (exn + AllocResult) option \<times> Ring" where
  "ring_alloc evs bytes depth R =
     (let ri = ring_idx_for_scope depth; r = rings R ! ri
      in if bytes > 0 \<and> hr_size r = 0
         then (Some (Inl (RuntimeError ''Ring: heap disabled (heap_bytes=0) but alloc(bytes>0) requested'')), R)
         else let aligned = aligned_request bytes
           in if aligned > hr_size r
              then (Some (Inl (RuntimeError ''Ring: requested allocation exceeds per-ring heap size'')), R)
              else (case alloc_wait evs ri aligned R of
                      (Stopped, R') \<Rightarrow>
                        (Some (Inr \<lparr>ar_slot = INVALID_SLOT, ar_heap_ptr = 0, ar_heap_end = 0,
                                    ar_ring_idx = ri\<rparr>), R')
                    | (Expired, R') \<Rightarrow>
                        (Some (Inl (RuntimeError ''Ring: per-ring heap exhausted (timed out waiting)'')), R')
                    | (StillBlocked, R') \<Rightarrow> (None, R')
                    | (Got p e, R') \<Rightarrow> (case alloc_commit ri p e R' of (ar, R'') \<Rightarrow> (Some (Inr ar), R''))))"

end
