(* ===== verification/HierRingProps.thy ===== *)
theory HierRingProps
  imports HierRing
begin

text \<open>
  Correctness of the host ring. The ghost list \<open>L\<close> of a heap ring records the slab of every slot
  ever carved from it, in ring order; \<open>hr_inv\<close> ties it to the ring's vectors and cursors and says
  that the slabs at or after the frontier \<open>last_alive\<close> are laid out as \<open>SlabRing.layout\<close>
  demands. \<open>ring_inv\<close> lifts this to the four rings and the global slot list. \<open>ring_step\<close> runs one
  public operation and keeps the ghost lists in step.
\<close>

subsection \<open>The heap bump provides the slab-ring interface\<close>

lemma try_bump_spec:
  assumes "hr_top r \<le> hr_size r" and "hr_tail r \<le> hr_size r"
  shows "map_option (\<lambda>(p, e, r'). (unat e - unat a, unat (hr_top r'))) (try_bump_ring_heap_locked a r)
    = slab_bump (unat (hr_size r)) (unat (hr_top r)) (unat (hr_tail r)) (unat a)"
proof -
  have le: "unat (hr_top r) \<le> unat (hr_size r)" "unat (hr_tail r) \<le> unat (hr_size r)"
    using assms by (simp_all add: word_le_nat_alt)
  have add: "unat (hr_top r + a) = unat (hr_top r) + unat a"
    if "unat (hr_top r) + unat a \<le> unat (hr_size r)"
    using that unsigned_less [of "hr_size r", where ?'a = nat] by (simp add: unat_word_ariths)
  have sub: "unat (hr_size r - hr_top r) = unat (hr_size r) - unat (hr_top r)"
    using assms by (simp add: unat_sub)
  show ?thesis
  proof (cases "hr_tail r \<le> hr_top r")
    case True
    then have t: "unat (hr_tail r) \<le> unat (hr_top r)"
      by (simp add: word_le_nat_alt)
    show ?thesis
      using True t le add sub
      by (auto simp: try_bump_ring_heap_locked_def slab_bump_def Let_def word_le_nat_alt
          word_less_nat_alt)
  next
    case False
    then have t: "unat (hr_top r) < unat (hr_tail r)"
      by (simp add: word_le_nat_alt)
    then have "unat (hr_tail r - hr_top r) = unat (hr_tail r) - unat (hr_top r)"
      by (simp add: unat_sub word_le_nat_alt)
    then show ?thesis
      using False t le add
      by (auto simp: try_bump_ring_heap_locked_def slab_bump_def Let_def word_le_nat_alt
          word_less_nat_alt)
  qed
qed

lemma try_bump_frame:
  assumes "try_bump_ring_heap_locked a r = Some (p, e, r')"
  shows "r' = r\<lparr>hr_top := e\<rparr>"
  using assms by (auto simp: try_bump_ring_heap_locked_def Let_def split: if_splits)

definition ring_bump :: "u64 \<Rightarrow> HeapRing \<Rightarrow> (nat \<times> HeapRing) option" where
  "ring_bump a r = map_option (\<lambda>(p, e, r'). (unat e - unat a, r')) (try_bump_ring_heap_locked a r)"

interpretation host_heap: bump_heap
  "\<lambda>r. unat (hr_size r)" "\<lambda>r. unat (hr_top r)" "\<lambda>r. unat (hr_tail r)" ring_bump
  "\<lambda>t r. r\<lparr>hr_tail := of_nat t\<rparr>"
proof unfold_locales
  fix r :: HeapRing and a :: u64
  assume "unat (hr_top r) \<le> unat (hr_size r)" and "unat (hr_tail r) \<le> unat (hr_size r)"
  then have "map_option (\<lambda>(p, e, r'). (unat e - unat a, unat (hr_top r'))) (try_bump_ring_heap_locked a r)
      = slab_bump (unat (hr_size r)) (unat (hr_top r)) (unat (hr_tail r)) (unat a)"
    by (intro try_bump_spec) (simp_all add: word_le_nat_alt)
  then show "map_option (\<lambda>(p, s'). (p, unat (hr_top s'))) (ring_bump a r)
      = slab_bump (unat (hr_size r)) (unat (hr_top r)) (unat (hr_tail r)) (unat a)"
    by (simp add: ring_bump_def option.map_comp comp_def case_prod_unfold)
next
  fix t :: nat and r :: HeapRing
  assume "t \<le> unat (hr_size r)"
  then show "unat (hr_tail (r\<lparr>hr_tail := of_nat t\<rparr>)) = t"
    using unsigned_less [of "hr_size r", where ?'a = nat] by (simp add: unat_of_nat)
qed (auto simp: ring_bump_def dest!: try_bump_frame)

text \<open>The pointer a bump hands out is the base plus the slab's start.\<close>

lemma try_bump_ptr:
  assumes "try_bump_ring_heap_locked a r = Some (p, e, r')"
  shows "p = hr_base r + (e - a)"
  using assms by (auto simp: try_bump_ring_heap_locked_def Let_def split: if_splits)

subsection \<open>FIFO advance\<close>

lemma advance_simps [simp]:
  "hr_base (advance_last_alive_locked r) = hr_base r"
  "hr_size (advance_last_alive_locked r) = hr_size r"
  "hr_top (advance_last_alive_locked r) = hr_top r"
  "hr_mapped (advance_last_alive_locked r) = hr_mapped r"
  "hr_released (advance_last_alive_locked r) = hr_released r"
  "hr_slot_heap_end (advance_last_alive_locked r) = hr_slot_heap_end r"
  by (induction r rule: advance_last_alive_locked.induct; subst advance_last_alive_locked.simps; simp)+

text \<open>The loop stops after the longest released run that starts at the old frontier.\<close>

lemma advance_frontier:
  "hr_last_alive (advance_last_alive_locked r)
    = hr_last_alive r + length (takeWhile (\<lambda>b. b) (drop (hr_last_alive r) (hr_released r)))"
proof (induction r rule: advance_last_alive_locked.induct)
  case (1 r)
  show ?case
  proof (cases "hr_last_alive r < length (hr_released r) \<and> hr_released r ! hr_last_alive r")
    case True
    then show ?thesis
      using "1.IH" by (subst advance_last_alive_locked.simps) (simp add: Cons_nth_drop_Suc [symmetric])
  next
    case False
    then have "takeWhile (\<lambda>b. b) (drop (hr_last_alive r) (hr_released r)) = []"
      by (cases "hr_last_alive r < length (hr_released r)") (auto simp: Cons_nth_drop_Suc [symmetric])
    then show ?thesis
      using False by (subst advance_last_alive_locked.simps) auto
  qed
qed

lemma advance_tail:
  "hr_tail (advance_last_alive_locked r)
    = (if hr_last_alive (advance_last_alive_locked r) = hr_last_alive r then hr_tail r
       else hr_slot_heap_end r ! (hr_last_alive (advance_last_alive_locked r) - 1))"
proof (induction r rule: advance_last_alive_locked.induct)
  case (1 r)
  let ?r' = "r\<lparr>hr_tail := hr_slot_heap_end r ! hr_last_alive r, hr_last_alive := hr_last_alive r + 1\<rparr>"
  show ?case
  proof (cases "hr_last_alive r < length (hr_released r) \<and> hr_released r ! hr_last_alive r")
    case True
    then have eq: "advance_last_alive_locked r = advance_last_alive_locked ?r'"
      by (subst advance_last_alive_locked.simps) simp
    have "hr_last_alive r < hr_last_alive (advance_last_alive_locked ?r')"
      by (simp add: advance_frontier)
    then show ?thesis
      using "1.IH" [OF True] unfolding eq by (auto split: if_splits)
  next
    case False
    then show ?thesis
      by (subst (1 2) advance_last_alive_locked.simps) auto
  qed
qed


subsection \<open>The invariant of one heap ring\<close>

definition hr_inv :: "HeapRing \<Rightarrow> slab list \<Rightarrow> bool" where
  "hr_inv r L \<longleftrightarrow>
     length (hr_released r) = length L
   \<and> map unat (hr_slot_heap_end r) = map slab_end L
   \<and> hr_last_alive r = length (takeWhile (\<lambda>b. b) (hr_released r))
   \<and> layout (unat (hr_size r)) (unat (hr_tail r)) (unat (hr_top r)) (drop (hr_last_alive r) L)
   \<and> 1024 dvd unat (hr_top r) \<and> (\<forall>s \<in> set L. 1024 dvd fst s)"

lemma hr_invD:
  assumes "hr_inv r L"
  shows "length (hr_released r) = length L"
    and "map unat (hr_slot_heap_end r) = map slab_end L"
    and "hr_last_alive r = length (takeWhile (\<lambda>b. b) (hr_released r))"
    and "layout (unat (hr_size r)) (unat (hr_tail r)) (unat (hr_top r)) (drop (hr_last_alive r) L)"
    and "1024 dvd unat (hr_top r)" and "\<And>s. s \<in> set L \<Longrightarrow> 1024 dvd fst s"
  using assms unfolding hr_inv_def by blast+

lemma hr_inv_frontier_le: "hr_inv r L \<Longrightarrow> hr_last_alive r \<le> length L"
  by (metis hr_inv_def length_takeWhile_le)

lemma hr_inv_rewind: "hr_inv (rewind_ring r) []"
  by (simp add: hr_inv_def rewind_ring_def layout_def)

text \<open>Recording a slab that the bump (or a zero-byte request) has just placed.\<close>

definition push_slot :: "u64 \<Rightarrow> HeapRing \<Rightarrow> HeapRing" where
  "push_slot e r = r\<lparr>hr_released := hr_released r @ [False],
     hr_slot_heap_end := hr_slot_heap_end r @ [e]\<rparr>"

lemma takeWhile_snoc_False:
  "takeWhile (\<lambda>b. b) (xs @ [False]) = takeWhile (\<lambda>b. b) xs"
  by (induction xs) auto

lemma hr_inv_push:
  assumes inv: "hr_inv r L" and fr: "r' = r\<lparr>hr_top := e\<rparr>" and se: "slab_end s = unat e"
    and lay: "layout (unat (hr_size r)) (unat (hr_tail r)) (unat e) (drop (hr_last_alive r) L @ [s])"
    and al: "1024 dvd unat e" "1024 dvd fst s"
  shows "hr_inv (push_slot e r') (L @ [s])"
proof -
  have "hr_last_alive r - length L = 0"
    using hr_inv_frontier_le [OF inv] by simp
  then show ?thesis
    using inv lay al by (simp add: hr_inv_def push_slot_def fr se takeWhile_snoc_False)
qed

lemma hr_inv_bump:
  assumes inv: "hr_inv r L" and a: "0 < a" "1024 dvd unat a" and b: "try_bump_ring_heap_locked a r = Some (p, e, r')"
  shows "hr_inv (push_slot e r') (L @ [(unat e - unat a, unat a)])"
    and "unat a \<le> unat e" and "p = hr_base r + of_nat (unat e - unat a)"
proof -
  let ?lay = "layout (unat (hr_size r)) (unat (hr_tail r)) (unat (hr_top r)) (drop (hr_last_alive r) L)"
  have lay: ?lay
    using inv by (rule hr_invD)
  have rb: "ring_bump a r = Some (unat e - unat a, r')"
    using b by (simp add: ring_bump_def)
  have fr: "r' = r\<lparr>hr_top := e\<rparr>"
    using b by (rule try_bump_frame)
  have sb: "slab_bump (unat (hr_size r)) (unat (hr_top r)) (unat (hr_tail r)) (unat a)
      = Some (unat e - unat a, unat e)"
    using host_heap.bump_spec [of r a] layout_bounds [OF lay] a rb fr by simp
  from slab_bump_start [OF sb] show le: "unat a \<le> unat e"
    by simp
  have start: "1024 dvd unat e - unat a"
    using slab_bump_start_cases [OF sb] hr_invD(5) [OF inv] by auto
  then have al: "1024 dvd unat e"
    using a(2) le dvd_diffD by blast
  show "hr_inv (push_slot e r') (L @ [(unat e - unat a, unat a)])"
    using host_heap.bump_keeps_layout [OF lay a(1) rb] le fr start al
    by (intro hr_inv_push [OF inv fr]) (simp_all add: slab_end_def)
  have "of_nat (unat e - unat a) = e - a"
    using le by (simp add: unat_sub [symmetric] word_le_nat_alt)
  then show "p = hr_base r + of_nat (unat e - unat a)"
    using try_bump_ptr [OF b] by simp
qed

lemma hr_inv_zero:
  assumes "hr_inv r L"
  shows "hr_inv (push_slot (hr_top r) r) (L @ [(unat (hr_top r), 0)])"
  using assms by (intro hr_inv_push) (auto simp: hr_inv_def slab_end_def intro: layout_zero)

lemma takeWhile_prefix_split:
  assumes "n \<le> length xs" and "\<And>i. i < n \<Longrightarrow> xs ! i"
  shows "length (takeWhile (\<lambda>b. b) xs) = n + length (takeWhile (\<lambda>b. b) (drop n xs))"
proof -
  have "takeWhile (\<lambda>b. b) (take n xs @ drop n xs) = take n xs @ takeWhile (\<lambda>b. b) (drop n xs)"
    using assms by (intro takeWhile_append2) (auto simp: in_set_conv_nth)
  then show ?thesis
    using assms by simp
qed

lemma released_before_frontier:
  "i < length (takeWhile (\<lambda>b. b) xs) \<Longrightarrow> xs ! i"
  by (metis nth_mem set_takeWhileD takeWhile_nth)

lemma hr_inv_release:
  assumes inv: "hr_inv r L" and k: "k < length L" "\<not> hr_released r ! k"
  shows "hr_inv (advance_last_alive_locked (r\<lparr>hr_released := (hr_released r)[k := True]\<rparr>)) L"
proof -
  let ?rel = "(hr_released r)[k := True]"
  let ?r1 = "r\<lparr>hr_released := ?rel\<rparr>"
  let ?r2 = "advance_last_alive_locked ?r1"
  let ?la = "hr_last_alive r" and ?la2 = "hr_last_alive ?r2"
  have la: "?la = length (takeWhile (\<lambda>b. b) (hr_released r))" and len: "length (hr_released r) = length L"
    and ends: "map unat (hr_slot_heap_end r) = map slab_end L"
    and lay: "layout (unat (hr_size r)) (unat (hr_tail r)) (unat (hr_top r)) (drop ?la L)"
    using hr_invD [OF inv] by blast+
  have "?rel ! i" if "i < ?la" for i
    using that released_before_frontier [of i "hr_released r"] la
    by (cases "i = k") (use k len in \<open>auto simp: nth_list_update\<close>)
  moreover have le: "?la \<le> length L"
    using hr_inv_frontier_le [OF inv] .
  ultimately have la2: "?la2 = length (takeWhile (\<lambda>b. b) ?rel)"
    using takeWhile_prefix_split [of ?la ?rel] len by (simp add: advance_frontier)
  have mono: "?la \<le> ?la2" and le2: "?la2 \<le> length L"
    using la2 length_takeWhile_le [of _ ?rel] len by (simp_all add: advance_frontier)
  have "layout (unat (hr_size r)) (unat (hr_tail ?r2)) (unat (hr_top r)) (drop ?la2 L)"
  proof (cases "?la2 = ?la")
    case True
    then have "hr_tail ?r2 = hr_tail r"
      using advance_tail [of ?r1] by simp
    then show ?thesis
      using lay True by simp
  next
    case False
    let ?dead = "take (?la2 - ?la) (drop ?la L)"
    have split: "drop ?la L = ?dead @ drop ?la2 L"
      using mono by (metis append_take_drop_id drop_drop le_add_diff_inverse2)
    have dead: "?dead \<noteq> []" "last ?dead = L ! (?la2 - 1)"
      using False mono le2 by (auto simp: last_conv_nth)
    have lt: "?la2 - 1 < length L" "?la2 - 1 < length (hr_slot_heap_end r)"
      using False mono le2 arg_cong [OF ends, of length] by simp_all
    have "hr_tail ?r2 = hr_slot_heap_end r ! (?la2 - 1)"
      using False advance_tail [of ?r1] by simp
    moreover have "map unat (hr_slot_heap_end r) ! (?la2 - 1) = map slab_end L ! (?la2 - 1)"
      by (simp only: ends)
    ultimately have "unat (hr_tail ?r2) = slab_end (last ?dead)"
      using lt dead(2) by simp
    moreover have "layout (unat (hr_size r)) (unat (hr_tail r)) (unat (hr_top r)) (?dead @ drop ?la2 L)"
      by (subst split [symmetric]) (rule lay)
    ultimately show ?thesis
      using layout_retire_many dead(1) by metis
  qed
  then show ?thesis
    using len ends la2 hr_invD(5,6) [OF inv] by (simp add: hr_inv_def)
qed


subsection \<open>The invariant of the whole ring\<close>

definition slot_pos :: "TaskSlotState \<Rightarrow> nat \<times> nat" where
  "slot_pos s = (ring_idx s, ring_slot_idx s)"

definition ring_inv :: "Ring \<Rightarrow> slab list list \<Rightarrow> bool" where
  "ring_inv R G \<longleftrightarrow>
     length (rings R) = MAX_RING_DEPTH \<and> length G = MAX_RING_DEPTH
   \<and> (\<forall>i < MAX_RING_DEPTH. hr_inv (rings R ! i) (G ! i))
   \<and> next_task_id R = length (slot_states R)
   \<and> distinct (map slot_pos (slot_states R))
   \<and> slot_pos ` set (slot_states R) = {(i, j). i < MAX_RING_DEPTH \<and> j < length (G ! i)}"

lemma ring_invD:
  assumes "ring_inv R G"
  shows "length (rings R) = MAX_RING_DEPTH" and "length G = MAX_RING_DEPTH"
    and "\<And>i. i < MAX_RING_DEPTH \<Longrightarrow> hr_inv (rings R ! i) (G ! i)"
    and "next_task_id R = length (slot_states R)"
    and "distinct (map slot_pos (slot_states R))"
    and "slot_pos ` set (slot_states R) = {(i, j). i < MAX_RING_DEPTH \<and> j < length (G ! i)}"
  using assms unfolding ring_inv_def by blast+

lemma ring_inv_slot:
  assumes inv: "ring_inv R G" and k: "k < length (slot_states R)"
  shows "ring_idx (slot_states R ! k) < MAX_RING_DEPTH"
    and "ring_slot_idx (slot_states R ! k) < length (G ! ring_idx (slot_states R ! k))"
proof -
  have "slot_pos (slot_states R ! k) \<in> slot_pos ` set (slot_states R)"
    using k by simp
  then have "slot_pos (slot_states R ! k) \<in> {(i, j). i < MAX_RING_DEPTH \<and> j < length (G ! i)}"
    using ring_invD(6) [OF inv] by simp
  then show "ring_idx (slot_states R ! k) < MAX_RING_DEPTH"
    and "ring_slot_idx (slot_states R ! k) < length (G ! ring_idx (slot_states R ! k))"
    by (auto simp: slot_pos_def)
qed

text \<open>Replacing one heap ring by another for the same ghost list.\<close>

lemma ring_inv_set_ring:
  assumes inv: "ring_inv R G" and "hr_inv r (G ! i)"
  shows "ring_inv (R\<lparr>rings := (rings R)[i := r]\<rparr>) G"
  using assms by (auto simp: ring_inv_def nth_list_update_if)

lemma release_frame [simp]:
  "slot_states (ring_release slot R) = slot_states R"
  "next_task_id (ring_release slot R) = next_task_id R"
  "timeout_ms (ring_release slot R) = timeout_ms R"
  "ring_shutdown_flag (ring_release slot R) = ring_shutdown_flag R"
  "length (rings (ring_release slot R)) = length (rings R)"
  by (simp_all add: ring_release_def Let_def)

lemma ring_inv_release:
  assumes inv: "ring_inv R G"
  shows "ring_inv (ring_release slot R) G"
proof (cases "slot < 0 \<or> slot \<ge> int (length (slot_states R))")
  case False
  let ?s = "slot_states R ! nat slot"
  let ?r = "rings R ! ring_idx ?s"
  have k: "nat slot < length (slot_states R)"
    using False by auto
  note pos = ring_inv_slot [OF inv k]
  have hi: "hr_inv ?r (G ! ring_idx ?s)"
    using ring_invD(3) [OF inv] pos(1) .
  show ?thesis
  proof (cases "hr_released ?r ! ring_slot_idx ?s")
    case True
    then show ?thesis
      using inv by (auto simp: ring_release_def Let_def)
  next
    case live: False
    then have "hr_inv (advance_last_alive_locked (?r\<lparr>hr_released := (hr_released ?r)[ring_slot_idx ?s := True]\<rparr>))
        (G ! ring_idx ?s)"
      using hr_inv_release [OF hi pos(2)] by blast
    then show ?thesis
      using ring_inv_set_ring [OF inv] inv by (auto simp: ring_release_def Let_def)
  qed
qed (use inv in \<open>auto simp: ring_release_def\<close>)

lemma ring_inv_releases: "ring_inv R G \<Longrightarrow> ring_inv (fold ring_release rs R) G"
  by (induction rs arbitrary: R) (auto intro: ring_inv_release)

lemma releases_frame [simp]:
  "slot_states (fold ring_release rs R) = slot_states R"
  "next_task_id (fold ring_release rs R) = next_task_id R"
  by (induction rs arbitrary: R) auto

lemma ring_inv_shutdown: "ring_inv R G \<Longrightarrow> ring_inv (ring_shutdown R) G"
  by (simp add: ring_inv_def ring_shutdown_def)

lemma env_step_inv: "ring_inv R G \<Longrightarrow> ring_inv (env_step rs sd R) G"
  by (simp add: env_step_def Let_def ring_inv_releases ring_inv_shutdown)

lemma env_step_frame [simp]:
  "slot_states (env_step rs sd R) = slot_states R"
  "next_task_id (env_step rs sd R) = next_task_id R"
  by (simp_all add: env_step_def Let_def ring_shutdown_def)

text \<open>
  What the wait loop returns: the ring it leaves satisfies the invariant, and a result \<open>Got p e\<close>
  is the outcome of one bump (or of none, for a zero-byte request) on such a ring.
\<close>

definition bump_outcome :: "nat \<Rightarrow> u64 \<Rightarrow> u64 \<Rightarrow> u64 \<Rightarrow> Ring \<Rightarrow> slab list list \<Rightarrow> Ring \<Rightarrow> bool" where
  "bump_outcome ri aligned p e R0 G R' \<longleftrightarrow>
     (if aligned = 0 then p = 0 \<and> e = hr_top (rings R0 ! ri) \<and> R' = R0
      else \<exists>r'. try_bump_ring_heap_locked aligned (rings R0 ! ri) = Some (p, e, r')
             \<and> R' = R0\<lparr>rings := (rings R0)[ri := r']\<rparr>)"

lemma alloc_wait_result:
  assumes "ring_inv R G" and "alloc_wait evs ri aligned R = (res, R')"
  shows "slot_states R' = slot_states R \<and> next_task_id R' = next_task_id R \<and>
    (case res of
       Got p e \<Rightarrow> (\<exists>R0. ring_inv R0 G \<and> bump_outcome ri aligned p e R0 G R'
          \<and> slot_states R0 = slot_states R \<and> next_task_id R0 = next_task_id R)
     | _ \<Rightarrow> ring_inv R' G)"
  using assms
proof (induction evs arbitrary: R)
  case Nil
  then show ?case
    by (subst (asm) alloc_wait.simps)
      (auto simp: bump_outcome_def split: if_splits option.splits intro!: exI [of _ R])
next
  case (Cons ev evs)
  consider (stop) "ring_shutdown_flag R" | (zero) "\<not> ring_shutdown_flag R" "aligned = 0"
    | (got) p e r' where "\<not> ring_shutdown_flag R" "aligned \<noteq> 0"
        "try_bump_ring_heap_locked aligned (rings R ! ri) = Some (p, e, r')"
    | (wait) "\<not> ring_shutdown_flag R" "aligned \<noteq> 0"
        "try_bump_ring_heap_locked aligned (rings R ! ri) = None"
    by (metis option.exhaust prod_cases3)
  then show ?case
  proof cases
    case stop
    then show ?thesis
      using Cons.prems by (subst (asm) alloc_wait.simps) auto
  next
    case zero
    then show ?thesis
      using Cons.prems
      by (subst (asm) alloc_wait.simps) (auto simp: bump_outcome_def intro!: exI [of _ R])
  next
    case got
    then show ?thesis
      using Cons.prems
      by (subst (asm) alloc_wait.simps) (auto simp: bump_outcome_def intro!: exI [of _ R])
  next
    case wait
    show ?thesis
    proof (cases ev)
      case (Woken rs sd)
      then have "alloc_wait evs ri aligned (env_step rs sd R) = (res, R')"
        using Cons.prems(2) wait by (subst (asm) alloc_wait.simps) simp
      from Cons.IH [OF env_step_inv [OF Cons.prems(1)] this] show ?thesis
        by (simp only: env_step_frame)
    next
      case (TimedOut rs sd)
      then show ?thesis
        using Cons.prems wait env_step_inv [OF Cons.prems(1), of rs sd]
        by (subst (asm) alloc_wait.simps) (auto simp: Let_def split: if_splits)
    qed
  qed
qed


lemma ring_idx_for_scope_less: "ring_idx_for_scope depth < MAX_RING_DEPTH"
  by (auto simp: ring_idx_for_scope_def MAX_RING_DEPTH_def Let_def)

lemma aligned_request_dvd: "1024 dvd unat (aligned_request bytes)"
proof (cases "unat bytes + 1023 < 2 ^ 64")
  case True
  then show ?thesis
    by (simp add: aligned_request_def HEAP_ALIGN_def unat_align_up_1024)
next
  case False
  then show ?thesis
    by (simp add: aligned_request_def HEAP_ALIGN_def align_up_1024_wrap)
qed

text \<open>The slab an allocation of \<open>bytes\<close> records when it returns the end offset \<open>e\<close>.\<close>

definition alloc_slab :: "u64 \<Rightarrow> u64 \<Rightarrow> slab" where
  "alloc_slab bytes e = (unat e - unat (aligned_request bytes), unat (aligned_request bytes))"

lemma alloc_commit_push:
  "alloc_commit ri p e R = (ar, R') \<Longrightarrow>
     rings R' = (rings R)[ri := push_slot e (rings R ! ri)]
   \<and> slot_states R' = slot_states R @ [new_slot_state ri (length (hr_released (rings R ! ri)))]
   \<and> next_task_id R' = next_task_id R + 1
   \<and> ar = \<lparr>ar_slot = int (next_task_id R), ar_heap_ptr = p, ar_heap_end = e, ar_ring_idx = ri\<rparr>"
  by (auto simp: alloc_commit_def Let_def push_slot_def)

lemma alloc_commit_inv:
  assumes inv: "ring_inv R0 G" and ri: "ri < MAX_RING_DEPTH"
    and out: "bump_outcome ri (aligned_request bytes) p e R0 G R1"
    and com: "alloc_commit ri p e R1 = (ar, R')"
  shows "ring_inv R' (G[ri := G ! ri @ [alloc_slab bytes e]])"
proof -
  let ?a = "aligned_request bytes"
  note lens = ring_invD(1,2) [OF inv]
  have hi: "hr_inv (rings R0 ! ri) (G ! ri)"
    using ring_invD(3) [OF inv ri] .
  note com' = alloc_commit_push [OF com]
  have st: "slot_states R1 = slot_states R0" "next_task_id R1 = next_task_id R0"
    and others: "\<And>j. j \<noteq> ri \<Longrightarrow> rings R1 ! j = rings R0 ! j" and len1: "length (rings R1) = length (rings R0)"
    using out by (auto simp: bump_outcome_def split: if_splits)
  have new: "hr_inv (push_slot e (rings R1 ! ri)) (G ! ri @ [alloc_slab bytes e])"
  proof (cases "?a = 0")
    case True
    then show ?thesis
      using out hr_inv_zero [OF hi] by (simp add: bump_outcome_def alloc_slab_def)
  next
    case False
    then obtain r' where "try_bump_ring_heap_locked ?a (rings R0 ! ri) = Some (p, e, r')"
        "R1 = R0\<lparr>rings := (rings R0)[ri := r']\<rparr>"
      using out by (auto simp: bump_outcome_def)
    then show ?thesis
      using False hr_inv_bump(1) [OF hi _ aligned_request_dvd] ri lens by (simp add: alloc_slab_def word_neq_0_conv)
  qed
  have rel: "length (hr_released (rings R1 ! ri)) = length (G ! ri)"
    using hr_invD(1) [OF new] by (simp add: push_slot_def)
  have each: "hr_inv (rings R' ! i) (G[ri := G ! ri @ [alloc_slab bytes e]] ! i)"
    if "i < MAX_RING_DEPTH" for i
    using that new others lens len1 ring_invD(3) [OF inv that] ri com'
    by (cases "i = ri") (auto simp: nth_list_update)
  have pos: "slot_pos ` set (slot_states R') = insert (ri, length (G ! ri)) (slot_pos ` set (slot_states R0))"
    using com' st rel by (auto simp: slot_pos_def new_slot_state_def)
  moreover have "{(i, j). i < MAX_RING_DEPTH \<and> j < length (G[ri := G ! ri @ [alloc_slab bytes e]] ! i)}
      = insert (ri, length (G ! ri)) {(i, j). i < MAX_RING_DEPTH \<and> j < length (G ! i)}"
    using ri lens by (auto simp: nth_list_update_if split: if_splits)
  moreover have "(ri, length (G ! ri)) \<notin> slot_pos ` set (slot_states R0)"
    by (simp add: ring_invD(6) [OF inv])
  then have "distinct (map slot_pos (slot_states R'))"
    using ring_invD(5) [OF inv] com' st rel by (auto simp: slot_pos_def new_slot_state_def)
  ultimately show ?thesis
    using each com' st len1 lens ring_invD(4,6) [OF inv] by (auto simp: ring_inv_def)
qed

lemma ring_alloc_result:
  assumes inv: "ring_inv R G" and al: "ring_alloc evs bytes depth R = (res, R')"
  shows "case res of
      Some (Inr ar) \<Rightarrow>
        (if ar_slot ar = INVALID_SLOT then ring_inv R' G \<and> slot_states R' = slot_states R
         else ring_inv R' (G[ar_ring_idx ar := G ! ar_ring_idx ar @ [alloc_slab bytes (ar_heap_end ar)]])
            \<and> ar_ring_idx ar = ring_idx_for_scope depth
            \<and> ar_slot ar = int (length (slot_states R))
            \<and> (\<exists>k. slot_states R' = slot_states R @ [new_slot_state (ar_ring_idx ar) k]))
    | _ \<Rightarrow> ring_inv R' G \<and> slot_states R' = slot_states R"
proof -
  let ?ri = "ring_idx_for_scope depth"
  obtain w R1 where w: "alloc_wait evs ?ri (aligned_request bytes) R = (w, R1)"
    by fastforce
  note wr = alloc_wait_result [OF inv w]
  show ?thesis
  proof (cases "bytes > 0 \<and> hr_size (rings R ! ?ri) = 0 \<or> aligned_request bytes > hr_size (rings R ! ?ri)")
    case True
    then show ?thesis
      using al inv by (auto simp: ring_alloc_def Let_def split: if_splits)
  next
    case False
    show ?thesis
    proof (cases w)
      case (Got p e)
      obtain ar R2 where com: "alloc_commit ?ri p e R1 = (ar, R2)"
        by fastforce
      obtain R0 where R0: "ring_inv R0 G" "bump_outcome ?ri (aligned_request bytes) p e R0 G R1"
          "next_task_id R0 = next_task_id R"
        using wr Got by auto
      have "ring_inv R2 (G[?ri := G ! ?ri @ [alloc_slab bytes e]])"
        by (rule alloc_commit_inv [OF R0(1) ring_idx_for_scope_less R0(2) com])
      moreover have "res = Some (Inr ar)" "R' = R2"
        using al False w Got com by (auto simp: ring_alloc_def Let_def)
      moreover have "next_task_id R1 = length (slot_states R)" "slot_states R1 = slot_states R"
        using wr ring_invD(4) [OF inv] by auto
      ultimately show ?thesis
        using alloc_commit_push [OF com] by (auto simp: INVALID_SLOT_def)
    qed (use al False w wr in \<open>auto simp: ring_alloc_def Let_def INVALID_SLOT_def\<close>)
  qed
qed

lemma ring_inv_reset:
  "ring_inv R G \<Longrightarrow> reset_to_empty R = (Inr u, R') \<Longrightarrow> ring_inv R' (replicate MAX_RING_DEPTH [])"
  by (auto simp: reset_to_empty_def ring_inv_def hr_inv_rewind split: if_splits)

lemma init_rings_ok:
  assumes "init_rings hb mm i rs = (Inr (), rs')" and "\<And>j. j < i \<Longrightarrow> j < length rs \<Longrightarrow> hr_inv (rs ! j) []"
  shows "length rs' = length rs \<and> (\<forall>j < length rs. hr_inv (rs' ! j) [])"
  using assms
proof (induction hb mm i rs rule: init_rings.induct)
  case (1 hb mm i rs)
  have hr: "hr_inv (rewind_ring r\<lparr>hr_base := b, hr_size := n, hr_mapped := m\<rparr>) []" for r b n m
    by (simp add: hr_inv_def rewind_ring_def layout_def)
  have hr0: "hr_inv (rewind_ring r\<lparr>hr_base := b, hr_size := n\<rparr>) []" for r b n
    by (simp add: hr_inv_def rewind_ring_def layout_def)
  show ?case
  proof (cases "i < length rs")
    case True
    have step: "\<And>j r. j < Suc i \<Longrightarrow> j < length rs \<Longrightarrow> hr_inv r [] \<Longrightarrow> hr_inv (rs[i := r] ! j) []"
      using 1(4) by (auto simp: nth_list_update_if less_Suc_eq)
    show ?thesis
    proof (cases "hb > 0")
      case pos: True
      then obtain b where b: "mm i = Some b"
        using 1(3) True by (subst (asm) init_rings.simps) (auto simp: Let_def split: option.splits)
      have "init_rings hb mm (Suc i)
          (rs[i := rewind_ring (rs ! i)\<lparr>hr_base := b, hr_size := hb, hr_mapped := True\<rparr>]) = (Inr (), rs')"
        using 1(3) True pos b by (subst (asm) init_rings.simps) (simp add: Let_def)
      then show ?thesis
        using 1(1) [OF True refl pos b] step hr by auto
    next
      case zero: False
      have "init_rings hb mm (Suc i) (rs[i := rewind_ring (rs ! i)\<lparr>hr_base := 0, hr_size := 0\<rparr>]) = (Inr (), rs')"
        using 1(3) True zero by (subst (asm) init_rings.simps) (simp add: Let_def)
      then show ?thesis
        using 1(2) [OF True refl zero] step hr0 by auto
    qed
  next
    case False
    then show ?thesis
      using 1(3,4) by (subst (asm) init_rings.simps) auto
  qed
qed

lemma ring_init_inv:
  assumes "ring_init hb tmo mm R = (Inr (), R')" and "length (rings R) = MAX_RING_DEPTH"
  shows "ring_inv R' (replicate MAX_RING_DEPTH [])"
proof -
  obtain rs where rs: "init_rings hb mm 0 (rings R) = (Inr (), rs)" "rings R' = rs"
      "slot_states R' = []" "next_task_id R' = 0"
    using assms(1) by (auto simp: ring_init_def Let_def split: if_splits prod.splits)
  then show ?thesis
    using init_rings_ok [OF rs(1)] assms(2) by (auto simp: ring_inv_def)
qed

end
