(* ===== verification/HierRingRuns.thy ===== *)
theory HierRingRuns
  imports HierRingProps
begin

text \<open>
  Runs of the host ring: any sequence of the public operations after \<open>Ring::init\<close>. \<open>ring_step\<close>
  runs one operation and keeps the ghost slab lists beside the ring: an allocation appends the
  slab it returned to the list of its ring, a successful \<open>reset_to_empty\<close> drops all lists.
  The properties of the allocator are stated over such runs.
\<close>

datatype ring_op =
    OpAlloc "wait_event list" u64 int
  | OpRelease TaskSlot
  | OpReset
  | OpShutdown

fun ring_step :: "ring_op \<Rightarrow> Ring \<times> slab list list \<Rightarrow> Ring \<times> slab list list" where
  "ring_step (OpAlloc evs bytes depth) (R, G) =
     (case ring_alloc evs bytes depth R of
        (Some (Inr ar), R') \<Rightarrow>
          (R', if ar_slot ar = INVALID_SLOT then G
               else G[ar_ring_idx ar := G ! ar_ring_idx ar @ [alloc_slab bytes (ar_heap_end ar)]])
      | (_, R') \<Rightarrow> (R', G))"
| "ring_step (OpRelease slot) (R, G) = (ring_release slot R, G)"
| "ring_step OpReset (R, G) =
     (case reset_to_empty R of
        (Inr _, R') \<Rightarrow> (R', replicate MAX_RING_DEPTH []) | (Inl _, R') \<Rightarrow> (R', G))"
| "ring_step OpShutdown (R, G) = (ring_shutdown R, G)"

definition ring_run :: "ring_op list \<Rightarrow> Ring \<Rightarrow> Ring \<times> slab list list" where
  "ring_run ops R0 = fold ring_step ops (R0, replicate MAX_RING_DEPTH [])"

text \<open>The slabs of ring \<open>i\<close> that FIFO reclamation has not passed yet.\<close>

definition live_slabs :: "Ring \<Rightarrow> slab list list \<Rightarrow> nat \<Rightarrow> slab list" where
  "live_slabs R G i = drop (hr_last_alive (rings R ! i)) (G ! i)"

lemma ring_step_inv:
  assumes "ring_inv R G" and "ring_step op (R, G) = (R', G')"
  shows "ring_inv R' G'"
proof (cases op)
  case (OpAlloc evs bytes depth)
  obtain res R1 where al: "ring_alloc evs bytes depth R = (res, R1)"
    by fastforce
  show ?thesis
    using ring_alloc_result [OF assms(1) al] assms(2) OpAlloc al
    by (auto split: option.splits sum.splits if_splits)
next
  case OpReset
  show ?thesis
  proof (cases "reset_to_empty R")
    case (Pair res R1)
    then show ?thesis
      using assms OpReset ring_inv_reset [OF assms(1)]
      by (cases res) (auto simp: reset_to_empty_def split: if_splits)
  qed
qed (use assms in \<open>auto intro: ring_inv_release ring_inv_shutdown\<close>)

lemma ring_steps_inv:
  "ring_inv R G \<Longrightarrow> fold ring_step ops (R, G) = (R', G') \<Longrightarrow> ring_inv R' G'"
proof (induction ops arbitrary: R G)
  case (Cons op ops)
  obtain R1 G1 where "ring_step op (R, G) = (R1, G1)"
    by fastforce
  then show ?case
    using Cons.IH [OF ring_step_inv [OF Cons.prems(1)]] Cons.prems(2) by simp
qed simp

lemma ring_run_inv:
  assumes "ring_init hb tmo mm new_ring = (Inr (), R0)" and "ring_run ops R0 = (R, G)"
  shows "ring_inv R G"
  using ring_steps_inv [OF ring_init_inv [OF assms(1)]] assms(2)
  by (simp add: ring_run_def new_ring_def)

lemma takeWhile_last_False:
  "xs \<noteq> [] \<Longrightarrow> \<not> last xs \<Longrightarrow> length (takeWhile (\<lambda>b. b) xs) < length xs"
  by (induction xs) (auto split: if_splits)

lemma aligned_request_pos:
  "0 < bytes \<Longrightarrow> unat bytes + 1023 < 2 ^ 64 \<Longrightarrow> aligned_request bytes \<noteq> 0"
  using align_up_1024_ge(1) [of bytes]
  by (auto simp: aligned_request_def HEAP_ALIGN_def word_less_nat_alt)

lemma layout_last_disjoint:
  assumes "layout sz tail tp (xs @ [s])" and "x \<in> set xs"
  shows "slab_bytes x \<inter> slab_bytes s = {}"
proof -
  obtain i where "i < length xs" "xs ! i = x"
    using assms(2) by (auto simp: in_set_conv_nth)
  then show ?thesis
    using layout_disjoint [OF assms(1), of i "length xs"] by (simp add: nth_append)
qed

text \<open>The ring an allocation leaves behind: its last entry is the new slot, not yet released.\<close>

lemma ring_alloc_pushed:
  assumes inv: "ring_inv R G" and al: "ring_alloc evs bytes depth R = (Some (Inr ar), R')"
    and slot: "ar_slot ar \<noteq> INVALID_SLOT" and "0 < bytes"
  defines "r \<equiv> rings R' ! ring_idx_for_scope depth"
  shows "hr_released r \<noteq> []" and "\<not> last (hr_released r)"
    and "aligned_request bytes \<noteq> 0 \<Longrightarrow>
      ar_heap_ptr ar = hr_base r + of_nat (fst (alloc_slab bytes (ar_heap_end ar)))"
proof -
  let ?ri = "ring_idx_for_scope depth" and ?a = "aligned_request bytes"
  obtain p e R1 where w: "alloc_wait evs ?ri ?a R = (Got p e, R1)"
      and com: "alloc_commit ?ri p e R1 = (ar, R')"
    using al slot
    by (auto simp: ring_alloc_def Let_def split: if_splits wait_result.splits prod.splits)
  obtain R0 where R0: "ring_inv R0 G" "bump_outcome ?ri ?a p e R0 G R1"
    using alloc_wait_result [OF inv w] by auto
  note push = alloc_commit_push [OF com]
  have len: "?ri < length (rings R1)"
    using R0 ring_invD(1) [OF R0(1)] ring_idx_for_scope_less [of depth]
    by (auto simp: bump_outcome_def split: if_splits)
  then have r: "r = push_slot e (rings R1 ! ?ri)"
    using push by (simp add: r_def)
  then show "hr_released r \<noteq> []" and "\<not> last (hr_released r)"
    by (simp_all add: push_slot_def)
  assume a: "?a \<noteq> 0"
  then obtain r' where b: "try_bump_ring_heap_locked ?a (rings R0 ! ?ri) = Some (p, e, r')"
      "R1 = R0\<lparr>rings := (rings R0)[?ri := r']\<rparr>"
    using R0(2) by (auto simp: bump_outcome_def)
  have "hr_base r = hr_base (rings R0 ! ?ri)"
    using b try_bump_frame [OF b(1)] len by (simp add: r push_slot_def)
  then show "ar_heap_ptr ar = hr_base r + of_nat (fst (alloc_slab bytes (ar_heap_end ar)))"
    using hr_inv_bump(3) [OF ring_invD(3) [OF R0(1) ring_idx_for_scope_less] _ aligned_request_dvd b(1)]
      a push by (simp add: alloc_slab_def word_neq_0_conv)
qed

subsection \<open>A concrete run\<close>

text \<open>
  Four rings of 8 KiB. Two 3000-byte slabs and one small slab are taken on ring 0, one on ring 3
  (scope depth 5), and slot 0 is released.
\<close>

lemma replicate_4: "replicate 4 x = [x, x, x, x]"
  by (simp add: numeral_eq_Suc)

definition demo_mmap :: "nat \<Rightarrow> u64 option" where
  "demo_mmap i = Some (65536 * (of_nat i + 1))"

lemmas ring_eval = ring_init_def new_ring_def new_heap_ring_def rewind_ring_def
  ring_alloc_def ring_idx_for_scope_def alloc_wait.simps try_bump_ring_heap_locked_def
  alloc_commit_def aligned_request_def align_up_def HEAP_ALIGN_def ring_release_def
  advance_last_alive_locked.simps MAX_RING_DEPTH_def INVALID_SLOT_def Let_def
  new_slot_state_def init_rings.simps replicate_4 ALLOC_TIMEOUT_MS_def demo_mmap_def

definition demo_ring :: Ring where
  "demo_ring = \<lparr>timeout_ms = 10000, next_task_id = 0, slot_states = [],
     rings = map (\<lambda>b. new_heap_ring\<lparr>hr_base := b, hr_size := 8192, hr_mapped := True\<rparr>)
       [65536, 131072, 196608, 262144],
     ring_shutdown_flag = False\<rparr>"

definition demo_ops :: "ring_op list" where
  "demo_ops = [OpAlloc [] 3000 0, OpAlloc [] 3000 0, OpAlloc [] 100 5, OpRelease 0, OpAlloc [] 1000 0]"

definition demo_run :: "Ring \<times> slab list list" where
  "demo_run = ring_run demo_ops demo_ring"

lemma demo_init: "ring_init 8192 0 demo_mmap new_ring = (Inr (), demo_ring)"
  by (simp add: ring_eval demo_ring_def)

lemma demo_run_eq: "ring_run demo_ops demo_ring = (fst demo_run, snd demo_run)"
  by (simp add: demo_run_def)

lemmas demo_eval = demo_run_def ring_run_def demo_ops_def demo_ring_def ring_eval alloc_slab_def
  live_slabs_def

lemma demo_slabs: "live_slabs (fst demo_run) (snd demo_run) 0 = [(3072, 3072), (6144, 1024)]"
  by (simp add: demo_eval)

lemma demo_size: "hr_size (rings (fst demo_run) ! 0) = 8192"
  by (simp add: demo_eval)

definition demo_alloc_result :: "(exn + AllocResult) option \<times> Ring" where
  "demo_alloc_result = ring_alloc [] 600 0 (fst demo_run)"

lemma demo_alloc:
  "ring_alloc [] 600 0 (fst demo_run)
    = (Some (Inr \<lparr>ar_slot = 4, ar_heap_ptr = 72704, ar_heap_end = 8192, ar_ring_idx = 0\<rparr>),
       snd demo_alloc_result)"
  by (simp add: demo_alloc_result_def demo_eval)

lemma demo_alloc_live:
  "live_slabs (snd demo_alloc_result) (snd (ring_step (OpAlloc [] 600 0) demo_run))
     (ring_idx_for_scope 0) = [(3072, 3072), (6144, 1024), (7168, 1024)]"
  "hr_base (rings (snd demo_alloc_result) ! ring_idx_for_scope 0) = 65536"
  "hr_size (rings (snd demo_alloc_result) ! ring_idx_for_scope 0) = 8192"
  by (simp_all add: demo_alloc_result_def demo_eval)

subsection \<open>Memory safety of the heap\<close>

text \<open>
  C3. Heap memory safety. After \<open>Ring::init\<close> and any sequence of \<open>alloc\<close>, \<open>release\<close>,
  \<open>reset_to_empty\<close> and \<open>shutdown\<close> calls, in whatever order slots are released and whatever happens
  during blocking waits, any two slabs of a ring that are not yet reclaimed occupy disjoint bytes,
  and both lie inside the ring's mapped region.
\<close>

theorem ring_live_slabs_disjoint:
  assumes "ring_init hb tmo mm new_ring = (Inr (), R0)" and "ring_run ops R0 = (R, G)"
    and "i < MAX_RING_DEPTH" and "a < b" and "b < length (live_slabs R G i)"
  shows "slab_bytes (live_slabs R G i ! a) \<inter> slab_bytes (live_slabs R G i ! b) = {}
    \<and> slab_bytes (live_slabs R G i ! a) \<union> slab_bytes (live_slabs R G i ! b)
           \<subseteq> {0 ..< unat (hr_size (rings R ! i))}"
proof -
  have lay: "layout (unat (hr_size (rings R ! i))) (unat (hr_tail (rings R ! i)))
      (unat (hr_top (rings R ! i))) (live_slabs R G i)"
    unfolding live_slabs_def
    by (rule hr_invD [OF ring_invD(3) [OF ring_run_inv [OF assms(1,2)] assms(3)]])
  have "slab_bytes (live_slabs R G i ! a) \<inter> slab_bytes (live_slabs R G i ! b) = {}"
    using layout_disjoint [OF lay assms(4,5)] .
  moreover have "slab_bytes (live_slabs R G i ! c) \<subseteq> {0 ..< unat (hr_size (rings R ! i))}"
    if "c < length (live_slabs R G i)" for c
    using layout_inside [OF lay nth_mem [OF that]] by (auto simp: slab_bytes_def)
  ultimately show ?thesis
    using assms(4,5) by simp
qed

theorem ring_live_slabs_disjoint_witness:
  "slab_bytes (3072, 3072) \<inter> slab_bytes (6144, 1024) = {}
    \<and> slab_bytes (3072, 3072) \<union> slab_bytes (6144, 1024) \<subseteq> {0 ..< 8192}"
  using ring_live_slabs_disjoint [OF demo_init demo_run_eq, of 0 0 1]
  by (simp add: demo_slabs demo_size MAX_RING_DEPTH_def)

text \<open>
  C16. Freshness of an allocation. In any reachable state, when \<open>alloc(bytes, depth)\<close> with
  \<open>0 < bytes\<close> returns a slot (possibly after waiting for releases), the returned pointer is the
  ring's base plus an offset that is a multiple of 1024; the request was rounded up by less than
  1024 bytes (no 64-bit overflow assumed away: the hypothesis bounds the request); the slab lies
  inside the region; and it shares no byte with any slab that is still live on that ring when the
  call returns.
\<close>

theorem ring_alloc_fresh:
  assumes "ring_init hb tmo mm new_ring = (Inr (), R0)" and "ring_run ops R0 = (R, G)"
    and al: "ring_alloc evs bytes depth R = (Some (Inr ar), R')" and slot: "ar_slot ar \<noteq> INVALID_SLOT"
    and bytes: "0 < bytes" "unat bytes + 1023 < 2 ^ 64"
  shows "\<exists>start len older.
      live_slabs R' (snd (ring_step (OpAlloc evs bytes depth) (R, G))) (ring_idx_for_scope depth)
        = older @ [(start, len)]
    \<and> ar_heap_ptr ar = hr_base (rings R' ! ring_idx_for_scope depth) + of_nat start
    \<and> 1024 dvd start \<and> 1024 dvd len \<and> unat bytes \<le> len \<and> len < unat bytes + 1024
    \<and> start + len \<le> unat (hr_size (rings R' ! ring_idx_for_scope depth))
    \<and> list_all (\<lambda>s. slab_bytes s \<inter> slab_bytes (start, len) = {}) older"
proof -
  let ?ri = "ring_idx_for_scope depth"
  let ?G' = "G[?ri := G ! ?ri @ [alloc_slab bytes (ar_heap_end ar)]]"
  let ?a = "aligned_request bytes"
  have inv: "ring_inv R G"
    using ring_run_inv [OF assms(1,2)] .
  note res = ring_alloc_result [OF inv al, simplified, unfolded if_not_P [OF slot]]
  then have inv': "ring_inv R' ?G'" and G': "snd (ring_step (OpAlloc evs bytes depth) (R, G)) = ?G'"
    using al slot by auto
  let ?r = "rings R' ! ?ri"
  have hi: "hr_inv ?r (G ! ?ri @ [alloc_slab bytes (ar_heap_end ar)])"
    using ring_invD(3) [OF inv' ring_idx_for_scope_less, of depth] ring_invD(2) [OF inv]
      ring_idx_for_scope_less [of depth] by simp
  have rel: "\<not> last (hr_released ?r)" "length (hr_released ?r) = Suc (length (G ! ?ri))"
    and ptr: "ar_heap_ptr ar = hr_base ?r + of_nat (fst (alloc_slab bytes (ar_heap_end ar)))"
    using ring_alloc_pushed [OF inv al slot bytes(1)] hr_invD(1) [OF hi] bytes
    by (simp_all add: aligned_request_pos)
  then have la: "hr_last_alive ?r \<le> length (G ! ?ri)"
    using hr_invD(3) [OF hi] takeWhile_last_False [of "hr_released ?r"] by force
  have live: "live_slabs R' ?G' ?ri = drop (hr_last_alive ?r) (G ! ?ri) @ [alloc_slab bytes (ar_heap_end ar)]"
    using la ring_invD(2) [OF inv] ring_idx_for_scope_less [of depth] by (simp add: live_slabs_def)
  have lay: "layout (unat (hr_size ?r)) (unat (hr_tail ?r)) (unat (hr_top ?r)) (live_slabs R' ?G' ?ri)"
    using hr_invD(4) [OF hi] la by (simp add: live)
  have "list_all (\<lambda>s. slab_bytes s \<inter> slab_bytes (alloc_slab bytes (ar_heap_end ar)) = {})
      (drop (hr_last_alive ?r) (G ! ?ri))"
    using layout_last_disjoint [OF lay [unfolded live]] by (simp add: list_all_iff)
  moreover have "slab_end (alloc_slab bytes (ar_heap_end ar)) \<le> unat (hr_size ?r)"
    by (rule layout_inside [OF lay]) (simp add: live)
  moreover have "1024 dvd fst (alloc_slab bytes (ar_heap_end ar))"
    by (rule hr_invD(6) [OF hi]) simp
  moreover have "unat bytes \<le> unat ?a" "unat ?a < unat bytes + 1024" "1024 dvd unat ?a"
    using align_up_1024_ge [OF bytes(2)] bytes(1) by (simp_all add: aligned_request_def HEAP_ALIGN_def)
  ultimately show ?thesis
    unfolding G' live ptr
    by (intro exI [of _ "fst (alloc_slab bytes (ar_heap_end ar))"] exI [of _ "unat ?a"]
        exI [of _ "drop (hr_last_alive ?r) (G ! ?ri)"])
      (simp add: alloc_slab_def slab_end_def)
qed

theorem ring_alloc_fresh_witness:
  "ring_alloc [] 600 0 (fst demo_run)
    = (Some (Inr \<lparr>ar_slot = 4, ar_heap_ptr = 72704, ar_heap_end = 8192, ar_ring_idx = 0\<rparr>),
       snd demo_alloc_result)
   \<and> slab_bytes (3072, 3072) \<inter> slab_bytes (7168, 1024) = {}
   \<and> slab_bytes (6144, 1024) \<inter> slab_bytes (7168, 1024) = {}"
  using ring_alloc_fresh [OF demo_init demo_run_eq demo_alloc] demo_alloc
  by (auto simp: demo_alloc_live INVALID_SLOT_def Cons_eq_append_conv)


subsection \<open>FIFO reclamation\<close>

text \<open>Whether the slot's byte in its ring's \<open>released\<close> vector is set.\<close>

definition slot_released :: "Ring \<Rightarrow> nat \<Rightarrow> bool" where
  "slot_released R k =
     (let s = slot_states R ! k in hr_released (rings R ! ring_idx s) ! ring_slot_idx s)"

lemma frontier_iff:
  "k < length xs \<Longrightarrow> k < length (takeWhile (\<lambda>b. b) xs) \<longleftrightarrow> (\<forall>j \<le> k. xs ! j)"
proof (induction xs arbitrary: k)
  case (Cons x xs)
  then show ?case
    by (cases k) (auto simp: All_less_Suc2 nth_Cons' le_Suc_eq simp flip: less_Suc_eq_le)
qed simp

text \<open>
  C22. FIFO reclamation is exact. In any reachable state the slab at position \<open>k\<close> of a ring has been
  reclaimed (the frontier \<open>last_alive\<close> is past it) exactly when it and every older slab of that ring
  have been released; out-of-order releases are remembered and take effect as soon as the gap closes.
\<close>

theorem ring_reclaims_released_prefix:
  assumes "ring_init hb tmo mm new_ring = (Inr (), R0)" and "ring_run ops R0 = (R, G)"
    and "i < MAX_RING_DEPTH" and "k < length (hr_released (rings R ! i))"
  shows "k < hr_last_alive (rings R ! i) \<longleftrightarrow> (\<forall>j \<le> k. hr_released (rings R ! i) ! j)"
  using hr_invD(3) [OF ring_invD(3) [OF ring_run_inv [OF assms(1,2)] assms(3)]] frontier_iff [OF assms(4)]
  by simp

theorem ring_reclaims_released_prefix_witness:
  "hr_released (rings (fst demo_run) ! 0) = [True, False, False]
    \<and> (0 < hr_last_alive (rings (fst demo_run) ! 0)) = (\<forall>j \<le> 0. [True, False, False] ! j)"
proof -
  have rel: "hr_released (rings (fst demo_run) ! 0) = [True, False, False]"
    by (simp add: demo_eval)
  then show ?thesis
    using ring_reclaims_released_prefix [OF demo_init demo_run_eq, of 0 0]
    by (simp add: MAX_RING_DEPTH_def)
qed

definition mark_released :: "nat \<Rightarrow> HeapRing \<Rightarrow> HeapRing" where
  "mark_released k r = advance_last_alive_locked (r\<lparr>hr_released := (hr_released r)[k := True]\<rparr>)"

lemma heap_ring_eqI:
  assumes "hr_base a = hr_base b" "hr_size a = hr_size b" "hr_top a = hr_top b" "hr_tail a = hr_tail b"
    "hr_mapped a = hr_mapped b" "hr_released a = hr_released b" "hr_slot_heap_end a = hr_slot_heap_end b"
    "hr_last_alive a = hr_last_alive b"
  shows "a = (b :: HeapRing)"
  using assms by (cases a; cases b) simp

lemma mark_released_simps [simp]:
  "hr_base (mark_released k r) = hr_base r" "hr_size (mark_released k r) = hr_size r"
  "hr_top (mark_released k r) = hr_top r" "hr_mapped (mark_released k r) = hr_mapped r"
  "hr_released (mark_released k r) = (hr_released r)[k := True]"
  "hr_slot_heap_end (mark_released k r) = hr_slot_heap_end r"
  by (simp_all add: mark_released_def)

lemma mark_released_frontier:
  assumes "hr_inv r L" and "k < length L" and "\<not> hr_released r ! k"
  shows "hr_last_alive (mark_released k r) = length (takeWhile (\<lambda>b. b) ((hr_released r)[k := True]))"
    and "hr_tail (mark_released k r)
      = (if hr_last_alive (mark_released k r) = hr_last_alive r then hr_tail r
         else hr_slot_heap_end r ! (hr_last_alive (mark_released k r) - 1))"
    and "hr_last_alive r \<le> hr_last_alive (mark_released k r)"
    and "hr_inv (mark_released k r) L"
  using hr_inv_release [OF assms] hr_invD(3) [OF hr_inv_release [OF assms]]
    advance_tail [of "r\<lparr>hr_released := (hr_released r)[k := True]\<rparr>"]
  by (simp_all add: mark_released_def advance_frontier)

lemma mark_released_commute:
  assumes inv: "hr_inv r L" and "k < length L" "\<not> hr_released r ! k" "l < length L" "\<not> hr_released r ! l"
    "k \<noteq> l"
  shows "mark_released k (mark_released l r) = mark_released l (mark_released k r)"
proof -
  have "length (hr_released r) = length L"
    using hr_invD(1) [OF inv] .
  note k = mark_released_frontier [OF inv assms(2,3)] and l = mark_released_frontier [OF inv assms(4,5)]
  have "\<not> hr_released (mark_released l r) ! k" "\<not> hr_released (mark_released k r) ! l"
    using assms by simp_all
  note kl = mark_released_frontier [OF l(4) assms(2) this(1)]
    and lk = mark_released_frontier [OF k(4) assms(4) this(2)]
  have swap: "(hr_released r)[l := True, k := True] = (hr_released r)[k := True, l := True]"
    using assms(6) by (simp add: list_update_swap)
  then have fr: "hr_last_alive (mark_released k (mark_released l r))
      = hr_last_alive (mark_released l (mark_released k r))"
    using kl(1) lk(1) by simp
  have "hr_tail (mark_released k (mark_released l r)) = hr_tail (mark_released l (mark_released k r))"
    using kl(2,3) lk(2,3) k(2,3) l(2,3) fr by (auto split: if_splits)
  then show ?thesis
    using fr swap by (intro heap_ring_eqI) simp_all
qed

lemma ring_release_alt:
  assumes "ring_inv R G"
  shows "ring_release slot R =
    (if 0 \<le> slot \<and> nat slot < length (slot_states R) \<and> \<not> slot_released R (nat slot)
     then let s = slot_states R ! nat slot
       in R\<lparr>rings := (rings R)[ring_idx s := mark_released (ring_slot_idx s) (rings R ! ring_idx s)]\<rparr>
     else R)"
proof -
  have "ring_slot_idx (slot_states R ! nat slot) < length (hr_released (rings R ! ring_idx (slot_states R ! nat slot)))"
    if "nat slot < length (slot_states R)"
    using ring_inv_slot [OF assms that] hr_invD(1) [OF ring_invD(3) [OF assms ring_inv_slot(1) [OF assms that]]]
    by simp
  then show ?thesis
    by (auto simp: ring_release_def Let_def mark_released_def slot_released_def)
qed


lemma slot_released_release:
  assumes inv: "ring_inv R G" and k: "k < length (slot_states R)"
  shows "slot_released (ring_release slot R) k
    \<longleftrightarrow> slot_released R k \<or> slot = int k"
proof (cases "0 \<le> slot \<and> nat slot < length (slot_states R) \<and> \<not> slot_released R (nat slot)")
  case True
  let ?s = "slot_states R ! nat slot" and ?t = "slot_states R ! k"
  note ps = ring_inv_slot [OF inv, of "nat slot"] and pt = ring_inv_slot [OF inv k]
  have len: "ring_slot_idx ?s < length (hr_released (rings R ! ring_idx ?s))"
    using ps True hr_invD(1) [OF ring_invD(3) [OF inv ps(1)]] by simp
  have "slot_pos ?s = slot_pos ?t \<longleftrightarrow> nat slot = k"
    using ring_invD(5) [OF inv] True k by (metis length_map nth_eq_iff_index_eq nth_map)
  then show ?thesis
    using True len ps(1) ring_invD(1) [OF inv]
    by (auto simp: ring_release_alt [OF inv] slot_released_def Let_def nth_list_update_if slot_pos_def)
next
  case False
  then show ?thesis
    using k by (auto simp: ring_release_alt [OF inv])
qed

lemma ring_release_commute:
  assumes inv: "ring_inv R G"
  shows "ring_release a (ring_release b R) = ring_release b (ring_release a R)"
proof (cases "a = b")
  case False
  let ?ok = "\<lambda>x. 0 \<le> x \<and> nat x < length (slot_states R) \<and> \<not> slot_released R (nat x)"
  have ne: "nat a \<noteq> nat b" if "?ok a" "?ok b"
    using that False by (simp add: eq_nat_nat_iff)
  show ?thesis
  proof (cases "?ok a \<and> ?ok b")
    case True
    let ?sa = "slot_states R ! nat a" and ?sb = "slot_states R ! nat b"
    note pa = ring_inv_slot [OF inv, of "nat a"] and pb = ring_inv_slot [OF inv, of "nat b"]
    have la: "ring_idx ?sa < length (rings R)" and lb: "ring_idx ?sb < length (rings R)"
      using pa pb True ring_invD(1) [OF inv] by simp_all
    have rel: "\<not> slot_released (ring_release b R) (nat a)" "\<not> slot_released (ring_release a R) (nat b)"
      using True ne slot_released_release [OF inv] by auto
    have two: "ring_release x (ring_release y R) = R\<lparr>rings := (rings R)
        [ring_idx (slot_states R ! nat y) := mark_released (ring_slot_idx (slot_states R ! nat y))
           (rings R ! ring_idx (slot_states R ! nat y)),
         ring_idx (slot_states R ! nat x) := mark_released (ring_slot_idx (slot_states R ! nat x))
           ((rings R)[ring_idx (slot_states R ! nat y) := mark_released (ring_slot_idx (slot_states R ! nat y))
              (rings R ! ring_idx (slot_states R ! nat y))] ! ring_idx (slot_states R ! nat x))]\<rparr>"
      if "?ok x" "?ok y" "\<not> slot_released (ring_release y R) (nat x)" for x y
      using that ring_release_alt [OF ring_inv_release [OF inv, of y], of x]
      by (simp add: ring_release_alt [OF inv, of y] Let_def)
    show ?thesis
    proof (cases "ring_idx ?sa = ring_idx ?sb")
      case same: True
      have "slot_pos ?sa \<noteq> slot_pos ?sb"
        using ring_invD(5) [OF inv] True ne by (metis length_map nth_eq_iff_index_eq nth_map)
      then have "mark_released (ring_slot_idx ?sa) (mark_released (ring_slot_idx ?sb) (rings R ! ring_idx ?sb))
          = mark_released (ring_slot_idx ?sb) (mark_released (ring_slot_idx ?sa) (rings R ! ring_idx ?sb))"
        using same True pa pb
        by (intro mark_released_commute [OF ring_invD(3) [OF inv pb(1)]])
          (auto simp: slot_pos_def slot_released_def Let_def)
      then show ?thesis
        using two [of a b] two [of b a] True rel same lb by simp
    next
      case False
      then show ?thesis
        using two [of a b] two [of b a] True rel by (simp add: list_update_swap)
    qed
  next
    case False
    then consider "\<not> ?ok a" | "\<not> ?ok b" by blast
    then show ?thesis
    proof cases
      case 1
      then have "\<not> (0 \<le> a \<and> nat a < length (slot_states R) \<and> \<not> slot_released (ring_release b R) (nat a))"
        using slot_released_release [OF inv] by auto
      then show ?thesis
        using 1 ring_release_alt [OF inv, of a] ring_release_alt [OF ring_inv_release [OF inv, of b], of a]
        by (simp only: release_frame if_False)
    next
      case 2
      then have "\<not> (0 \<le> b \<and> nat b < length (slot_states R) \<and> \<not> slot_released (ring_release a R) (nat b))"
        using slot_released_release [OF inv] by auto
      then show ?thesis
        using 2 ring_release_alt [OF inv, of b] ring_release_alt [OF ring_inv_release [OF inv, of a], of b]
        by (simp only: release_frame if_False)
    qed
  qed
qed simp

text \<open>
  C24. Releases from concurrent threads commute and are idempotent. \<open>Ring::release\<close> may be called
  from any thread; in any reachable state the order of two releases does not matter, and releasing
  a slot a second time changes nothing.
\<close>

theorem ring_release_order_independent:
  assumes "ring_init hb tmo mm new_ring = (Inr (), R0)" and "ring_run ops R0 = (R, G)"
  shows "ring_release a (ring_release b R) = ring_release b (ring_release a R)
    \<and> ring_release a (ring_release a R) = ring_release a R"
proof -
  have inv: "ring_inv R G"
    using ring_run_inv [OF assms] .
  have "ring_release a (ring_release a R) = ring_release a R"
    using ring_release_alt [OF ring_inv_release [OF inv, of a], of a] slot_released_release [OF inv, of "nat a" a]
    by (auto split: if_splits)
  then show ?thesis
    using ring_release_commute [OF inv] by simp
qed

theorem ring_release_order_independent_witness:
  "ring_release 1 (ring_release 3 (fst demo_run)) = ring_release 3 (ring_release 1 (fst demo_run))
    \<and> ring_release 1 (ring_release 1 (fst demo_run)) = ring_release 1 (fst demo_run)"
  using ring_release_order_independent [OF demo_init demo_run_eq] .


subsection \<open>Draining\<close>

lemma card_positions:
  "card {(i, j). i < (n :: nat) \<and> j < (f i :: nat)} = (\<Sum>i < n. f i)"
proof -
  have "{(i, j). i < n \<and> j < f i} = Sigma {..<n} (\<lambda>i. {..<f i})"
    by auto
  then show ?thesis
    by simp
qed

lemma active_count_sum:
  assumes inv: "ring_inv R G"
  shows "active_count R = (\<Sum>i < MAX_RING_DEPTH. int (length (G ! i)) - int (hr_last_alive (rings R ! i)))"
proof -
  have "length (slot_states R) = card (slot_pos ` set (slot_states R))"
    using ring_invD(5) [OF inv] by (metis distinct_card length_map list.set_map)
  then have "next_task_id R = (\<Sum>i < MAX_RING_DEPTH. length (G ! i))"
    using ring_invD(4,6) [OF inv] card_positions [of MAX_RING_DEPTH "\<lambda>i. length (G ! i)"] by simp
  moreover have "sum_list (map (\<lambda>r. int (hr_last_alive r)) (rings R))
      = (\<Sum>i < MAX_RING_DEPTH. int (hr_last_alive (rings R ! i)))"
    using ring_invD(1) [OF inv] by (simp add: sum_list_sum_nth atLeast0LessThan)
  ultimately show ?thesis
    by (simp add: active_count_def sum_subtractf)
qed

lemma all_released_iff:
  "length (takeWhile (\<lambda>b. b) xs) = length xs \<longleftrightarrow> (\<forall>k < length xs. xs ! k)"
proof (induction xs)
  case (Cons x xs)
  show ?case
    using Cons.IH by (cases x) (auto simp: All_less_Suc2)
qed simp

lemma drained_iff:
  assumes inv: "ring_inv R G"
  shows "(\<forall>i < MAX_RING_DEPTH. hr_last_alive (rings R ! i) = length (hr_released (rings R ! i)))
    \<longleftrightarrow> (\<forall>k < length (slot_states R). slot_released R k)" (is "?L \<longleftrightarrow> ?R")
proof -
  have "hr_last_alive (rings R ! i) = length (hr_released (rings R ! i))
      \<longleftrightarrow> (\<forall>j < length (G ! i). hr_released (rings R ! i) ! j)" if "i < MAX_RING_DEPTH" for i
    using all_released_iff [of "hr_released (rings R ! i)"] hr_invD(1,3) [OF ring_invD(3) [OF inv that]] by simp
  then have "?L \<longleftrightarrow> (\<forall>(i, j) \<in> {(i, j). i < MAX_RING_DEPTH \<and> j < length (G ! i)}. hr_released (rings R ! i) ! j)"
    by auto
  also have "\<dots> \<longleftrightarrow> (\<forall>s \<in> set (slot_states R). hr_released (rings R ! ring_idx s) ! ring_slot_idx s)"
    by (simp only: ring_invD(6) [OF inv, symmetric]) (auto simp: slot_pos_def)
  also have "\<dots> \<longleftrightarrow> ?R"
    by (auto simp: slot_released_def Let_def all_set_conv_all_nth)
  finally show ?thesis .
qed

text \<open>
  C23. The drain test is exact. In any reachable state \<open>active_count()\<close> is never negative, and the
  following agree: \<open>active_count() == 0\<close>; every slot ever handed out since the last reset has been
  released; \<open>reset_to_empty()\<close> returns instead of throwing. After it the ring has no slot and
  every heap is empty.
\<close>

theorem ring_drain_exact:
  assumes "ring_init hb tmo mm new_ring = (Inr (), R0)" and "ring_run ops R0 = (R, G)"
  shows "0 \<le> active_count R
    \<and> (active_count R = 0 \<longleftrightarrow> (\<forall>k < length (slot_states R). slot_released R k))
    \<and> (active_count R = 0 \<longleftrightarrow> (\<exists>R'. reset_to_empty R = (Inr (), R')))
    \<and> (active_count R = 0 \<longrightarrow> slot_states (snd (reset_to_empty R)) = []
        \<and> rings (snd (reset_to_empty R)) = map rewind_ring (rings R))"
proof -
  have inv: "ring_inv R G"
    using ring_run_inv [OF assms] .
  have le: "hr_last_alive (rings R ! i) \<le> length (G ! i)" "length (hr_released (rings R ! i)) = length (G ! i)"
    if "i < MAX_RING_DEPTH" for i
    using hr_inv_frontier_le [OF ring_invD(3) [OF inv that]] hr_invD(1) [OF ring_invD(3) [OF inv that]] by simp_all
  then have nonneg: "0 \<le> active_count R"
    by (auto simp: active_count_sum [OF inv] intro!: sum_nonneg)
  have zero: "active_count R = 0
      \<longleftrightarrow> (\<forall>i < MAX_RING_DEPTH. hr_last_alive (rings R ! i) = length (hr_released (rings R ! i)))"
    unfolding active_count_sum [OF inv] using le by (subst sum_nonneg_eq_0_iff) auto
  then have reset: "active_count R = 0
      \<longleftrightarrow> \<not> list_ex (\<lambda>r. hr_last_alive r \<noteq> length (hr_released r)) (rings R)"
    using ring_invD(1) [OF inv] by (simp add: list_ex_iff all_set_conv_all_nth)
  show ?thesis
    using nonneg zero drained_iff [OF inv] reset by (auto simp: reset_to_empty_def)
qed

theorem ring_drain_exact_witness:
  "active_count (fst (ring_run [OpAlloc [] 3000 0, OpAlloc [] 0 1, OpRelease 1, OpRelease 0] demo_ring)) = 0
    \<and> (\<exists>R'. reset_to_empty
        (fst (ring_run [OpAlloc [] 3000 0, OpAlloc [] 0 1, OpRelease 1, OpRelease 0] demo_ring)) = (Inr (), R'))"
proof -
  have "active_count (fst (ring_run [OpAlloc [] 3000 0, OpAlloc [] 0 1, OpRelease 1, OpRelease 0] demo_ring)) = 0"
    by (simp add: ring_run_def demo_ring_def ring_eval active_count_def)
  then show ?thesis
    using ring_drain_exact [OF demo_init prod.collapse [symmetric]] by blast
qed


subsection \<open>Requests an idle ring refuses\<close>



text \<open>
  C27. Overflow of the round-up. A request within 1023 bytes of \<open>2 ^ 64\<close> wraps to zero when it is
  rounded up to 1024. On a ring with a heap that is not shut down, \<open>alloc\<close> then neither throws
  \<open>exceeds per-ring heap size\<close> nor reserves any byte: it returns a valid slot with a null pointer.
\<close>

theorem ring_alloc_roundup_wraps:
  assumes "2 ^ 64 \<le> unat bytes + 1023" and "hr_size (rings R ! ring_idx_for_scope depth) \<noteq> 0"
    and "\<not> ring_shutdown_flag R"
  shows "\<exists>R'. ring_alloc [] bytes depth R = (Some (Inr \<lparr>ar_slot = int (next_task_id R), ar_heap_ptr = 0,
        ar_heap_end = hr_top (rings R ! ring_idx_for_scope depth), ar_ring_idx = ring_idx_for_scope depth\<rparr>), R')
      \<and> hr_top (rings R' ! ring_idx_for_scope depth) = hr_top (rings R ! ring_idx_for_scope depth)"
proof -
  have "aligned_request bytes = 0"
    using align_up_1024_wrap [OF assms(1)] by (simp add: aligned_request_def HEAP_ALIGN_def)
  then show ?thesis
    using assms(2,3) by (auto simp: ring_alloc_def Let_def alloc_wait.simps alloc_commit_def nth_list_update_if)
qed

theorem ring_alloc_roundup_wraps_witness:
  "\<exists>R'. ring_alloc [] 0xFFFFFFFFFFFFFFFF 0 demo_ring
      = (Some (Inr \<lparr>ar_slot = 0, ar_heap_ptr = 0, ar_heap_end = 0, ar_ring_idx = 0\<rparr>), R')
    \<and> hr_top (rings R' ! 0) = 0"
  using ring_alloc_roundup_wraps [where bytes = "0xFFFFFFFFFFFFFFFF" and R = demo_ring and depth = 0]
  by (simp add: demo_ring_def new_heap_ring_def ring_idx_for_scope_def MAX_RING_DEPTH_def)

end
