(* ===== verification/HierWorkers.thy ===== *)
theory HierWorkers
  imports HierTypes
begin

text \<open>
  Worker threads and their mailboxes (\<open>src/src/common/hierarchical/worker_manager.h\<close>,
  \<open>worker_manager.cpp\<close>). A mailbox is its 4096 bytes. The forked child that serves it is a
  parameter \<open>child\<close>: given the bytes the parent published, the list of mailbox contents the
  parent's successive polls read. A poll loop that has not seen its state when the list ends is
  still spinning (\<open>None\<close>). POSIX shared memory, the thread start/stop calls and the child process
  itself are outside the model.
\<close>

subsection \<open>Mailbox layout\<close>

datatype MailboxState = IDLE | TASK_READY | TASK_DONE | SHUTDOWN | CONTROL_REQUEST | CONTROL_DONE

fun mailbox_code :: "MailboxState \<Rightarrow> u32" where
  "mailbox_code IDLE = 0"
| "mailbox_code TASK_READY = 1"
| "mailbox_code TASK_DONE = 2"
| "mailbox_code SHUTDOWN = 3"
| "mailbox_code CONTROL_REQUEST = 4"
| "mailbox_code CONTROL_DONE = 5"

definition MAILBOX_SIZE :: nat where "MAILBOX_SIZE = 4096"
definition MAILBOX_ERROR_MSG_SIZE :: nat where "MAILBOX_ERROR_MSG_SIZE = 256"
definition MAILBOX_OFF_STATE :: nat where "MAILBOX_OFF_STATE = 0"
definition MAILBOX_OFF_ERROR :: nat where "MAILBOX_OFF_ERROR = 4"
definition MAILBOX_OFF_CALLABLE :: nat where "MAILBOX_OFF_CALLABLE = 8"
definition MAILBOX_OFF_CONFIG :: nat where "MAILBOX_OFF_CONFIG = 16"

text \<open>The end of the 1048-byte configuration, rounded up to 8.\<close>

definition MAILBOX_OFF_ARGS :: nat where
  "MAILBOX_OFF_ARGS = (MAILBOX_OFF_CONFIG + 1048 + 7) div 8 * 8"

definition MAILBOX_OFF_ERROR_MSG :: nat where
  "MAILBOX_OFF_ERROR_MSG = MAILBOX_SIZE - MAILBOX_ERROR_MSG_SIZE"

definition MAILBOX_ARGS_CAPACITY :: nat where
  "MAILBOX_ARGS_CAPACITY = MAILBOX_SIZE - MAILBOX_OFF_ARGS - MAILBOX_ERROR_MSG_SIZE"

definition CTRL_OFF_ARG0 :: nat where "CTRL_OFF_ARG0 = 16"
definition CTRL_OFF_ARG1 :: nat where "CTRL_OFF_ARG1 = 24"
definition CTRL_OFF_ARG2 :: nat where "CTRL_OFF_ARG2 = 32"
definition CTRL_OFF_RESULT :: nat where "CTRL_OFF_RESULT = 40"
definition CTRL_SHM_NAME_BYTES :: nat where "CTRL_SHM_NAME_BYTES = 32"

datatype ctrl_cmd =
    CTRL_MALLOC | CTRL_FREE | CTRL_COPY_TO | CTRL_COPY_FROM | CTRL_PREPARE | CTRL_REGISTER
  | CTRL_UNREGISTER | CTRL_ALLOC_DOMAIN | CTRL_RELEASE_DOMAIN | CTRL_COMM_INIT | CTRL_COMM_OP

fun ctrl_code :: "ctrl_cmd \<Rightarrow> u64" where
  "ctrl_code CTRL_MALLOC = 0"
| "ctrl_code CTRL_FREE = 1"
| "ctrl_code CTRL_COPY_TO = 2"
| "ctrl_code CTRL_COPY_FROM = 3"
| "ctrl_code CTRL_PREPARE = 4"
| "ctrl_code CTRL_REGISTER = 5"
| "ctrl_code CTRL_UNREGISTER = 6"
| "ctrl_code CTRL_ALLOC_DOMAIN = 7"
| "ctrl_code CTRL_RELEASE_DOMAIN = 8"
| "ctrl_code CTRL_COMM_INIT = 9"
| "ctrl_code CTRL_COMM_OP = 10"

lemmas mailbox_layout = MAILBOX_SIZE_def MAILBOX_ERROR_MSG_SIZE_def MAILBOX_OFF_STATE_def
  MAILBOX_OFF_ERROR_def MAILBOX_OFF_CALLABLE_def MAILBOX_OFF_CONFIG_def MAILBOX_OFF_ARGS_def
  MAILBOX_OFF_ERROR_MSG_def MAILBOX_ARGS_CAPACITY_def CTRL_OFF_ARG0_def CTRL_OFF_ARG1_def
  CTRL_OFF_ARG2_def CTRL_OFF_RESULT_def CTRL_SHM_NAME_BYTES_def

record WorkerDispatch =
  wd_task_slot :: TaskSlot
  wd_group_index :: nat

record WorkerThread =
  wt_mailbox :: bytes
  wt_queue :: "WorkerDispatch list"
  wt_shutdown :: bool
  wt_idle :: bool

definition new_worker :: "bytes \<Rightarrow> WorkerThread" where
  "new_worker mb = \<lparr>wt_mailbox = mb, wt_queue = [], wt_shutdown = False, wt_idle = True\<rparr>"

subsection \<open>Mailbox helpers\<close>

definition read_mailbox_state :: "bytes \<Rightarrow> u32" where
  "read_mailbox_state mb = get32 (drop MAILBOX_OFF_STATE mb)"

definition write_mailbox_state :: "MailboxState \<Rightarrow> bytes \<Rightarrow> bytes option" where
  "write_mailbox_state s mb = mem_write MAILBOX_OFF_STATE (put32 (mailbox_code s)) mb"

definition read_error_msg :: "bytes \<Rightarrow> string" where
  "read_error_msg mb = string_of_bytes (c_str (take MAILBOX_ERROR_MSG_SIZE (drop MAILBOX_OFF_ERROR_MSG mb)))"

fun poll_until :: "MailboxState \<Rightarrow> bytes list \<Rightarrow> bytes option" where
  "poll_until st [] = None"
| "poll_until st (m # ms) = (if read_mailbox_state m = mailbox_code st then Some m else poll_until st ms)"

definition clear_error_fields :: "bytes \<Rightarrow> bytes option" where
  "clear_error_fields mb = do {
     m1 \<leftarrow> mem_write MAILBOX_OFF_ERROR (put32 0) mb;
     mem_write MAILBOX_OFF_ERROR_MSG (replicate MAILBOX_ERROR_MSG_SIZE 0) m1 }"

subsection \<open>dispatch\<close>

definition wt_dispatch :: "WorkerDispatch \<Rightarrow> WorkerThread \<Rightarrow> WorkerThread" where
  "wt_dispatch d w = w\<lparr>wt_idle := False, wt_queue := wt_queue w @ [d]\<rparr>"

definition wt_stop :: "WorkerThread \<Rightarrow> WorkerThread" where
  "wt_stop w = w\<lparr>wt_shutdown := True\<rparr>"

definition shutdown_child :: "WorkerThread \<Rightarrow> WorkerThread option" where
  "shutdown_child w = map_option (\<lambda>m. w\<lparr>wt_mailbox := m\<rparr>) (write_mailbox_state SHUTDOWN (wt_mailbox w))"

text \<open>The stores of \<open>dispatch_process\<close> before the capacity check, and after it.\<close>

definition write_task_header :: "TaskSlotState \<Rightarrow> bytes \<Rightarrow> bytes option" where
  "write_task_header s mb = do {
     m1 \<leftarrow> clear_error_fields mb;
     m2 \<leftarrow> mem_write MAILBOX_OFF_CALLABLE (put64 (ucast (i32 (callable_id s)))) m1;
     mem_write MAILBOX_OFF_CONFIG (config_bytes (ts_config s)) m2 }"

definition write_task_args :: "TaskArgsView \<Rightarrow> bytes \<Rightarrow> bytes option" where
  "write_task_args view mb = do {
     m1 \<leftarrow> mem_write MAILBOX_OFF_ARGS (put32 (i32 (v_tensor_count view))) mb;
     m2 \<leftarrow> mem_write (MAILBOX_OFF_ARGS + 4) (put32 (i32 (v_scalar_count view))) m1;
     m3 \<leftarrow> (if v_tensor_count view > 0
            then mem_write (MAILBOX_OFF_ARGS + TASK_ARGS_BLOB_HEADER_SIZE)
                   (concat (map tensor_bytes (v_tensors view))) m2
            else Some m2);
     m4 \<leftarrow> (if v_scalar_count view > 0
            then mem_write (MAILBOX_OFF_ARGS + TASK_ARGS_BLOB_HEADER_SIZE + nat (v_tensor_count view) * 40)
                   (concat (map put64 (v_scalars view))) m3
            else Some m3);
     write_mailbox_state TASK_READY m4 }"

definition dispatch_reply :: "bytes \<Rightarrow> (bytes, unit) outcome" where
  "dispatch_reply mb =
     (let code = of_i32 (get32 (drop MAILBOX_OFF_ERROR mb));
          res = (if code \<noteq> 0
                 then Inl (RuntimeError (''WorkerThread::dispatch_process: child failed (code=''
                        @ int_to_string code @ ''): '' @ read_error_msg mb))
                 else Inr ())
      in case write_mailbox_state IDLE mb of
           None \<Rightarrow> (Inl UndefinedBehaviour, mb) | Some mb' \<Rightarrow> (res, mb'))"

definition dispatch_process ::
    "(bytes \<Rightarrow> bytes list) \<Rightarrow> TaskSlotState \<Rightarrow> nat \<Rightarrow> bytes \<Rightarrow> (exn + unit) option \<times> bytes" where
  "dispatch_process child s group_index mb =
     (case args_view s group_index of
        Inl e \<Rightarrow> (Some (Inl e), mb)
      | Inr view \<Rightarrow>
          (case write_task_header s mb of
             None \<Rightarrow> (Some (Inl UndefinedBehaviour), mb)
           | Some m1 \<Rightarrow>
               if TASK_ARGS_BLOB_HEADER_SIZE + nat (v_tensor_count view) * 40 + nat (v_scalar_count view) * 8
                    > MAILBOX_ARGS_CAPACITY
               then (Some (Inl (RuntimeError ''WorkerThread::dispatch_process: args blob exceeds mailbox capacity'')), m1)
               else (case write_task_args view m1 of
                       None \<Rightarrow> (Some (Inl UndefinedBehaviour), m1)
                     | Some m2 \<Rightarrow>
                         (case poll_until TASK_DONE (child m2) of
                            None \<Rightarrow> (None, m2)
                          | Some m3 \<Rightarrow> (case dispatch_reply m3 of (res, m4) \<Rightarrow> (Some res, m4))))))"

subsection \<open>Control commands\<close>

definition write_control_args :: "ctrl_cmd \<Rightarrow> u64 \<Rightarrow> u64 \<Rightarrow> u64 \<Rightarrow> bytes \<Rightarrow> bytes option" where
  "write_control_args cmd a0 a1 a2 mb = do {
     m1 \<leftarrow> mem_write MAILBOX_OFF_CALLABLE (put64 (ctrl_code cmd)) mb;
     m2 \<leftarrow> mem_write CTRL_OFF_ARG0 (put64 a0) m1;
     m3 \<leftarrow> mem_write CTRL_OFF_ARG1 (put64 a1) m2;
     mem_write CTRL_OFF_ARG2 (put64 a2) m3 }"

definition read_control_result :: "bytes \<Rightarrow> u64" where
  "read_control_result mb = get64 (drop CTRL_OFF_RESULT mb)"

definition control_reply :: "string \<Rightarrow> bytes \<Rightarrow> (bytes, unit) outcome" where
  "control_reply op_name mb =
     (let err = of_i32 (get32 (drop MAILBOX_OFF_ERROR mb));
          res = (if err \<noteq> 0 then Inl (RuntimeError (op_name @ '' failed on child: '' @ read_error_msg mb))
                 else Inr ())
      in case write_mailbox_state IDLE mb of
           None \<Rightarrow> (Inl UndefinedBehaviour, mb) | Some mb' \<Rightarrow> (res, mb'))"

definition run_control_command ::
    "(bytes \<Rightarrow> bytes list) \<Rightarrow> string \<Rightarrow> bytes \<Rightarrow> (exn + unit) option \<times> bytes" where
  "run_control_command child op_name mb =
     (case clear_error_fields mb \<bind> write_mailbox_state CONTROL_REQUEST of
        None \<Rightarrow> (Some (Inl UndefinedBehaviour), mb)
      | Some m1 \<Rightarrow>
          (case poll_until CONTROL_DONE (child m1) of
             None \<Rightarrow> (None, m1)
           | Some m2 \<Rightarrow> (case control_reply op_name m2 of (res, m3) \<Rightarrow> (Some res, m3))))"

text \<open>The shape the argument-only commands share: fill the registers, then run the command.\<close>

definition control_simple ::
    "(bytes \<Rightarrow> bytes list) \<Rightarrow> string \<Rightarrow> ctrl_cmd \<Rightarrow> u64 \<Rightarrow> u64 \<Rightarrow> u64 \<Rightarrow> bytes \<Rightarrow> (exn + unit) option \<times> bytes" where
  "control_simple child op_name cmd a0 a1 a2 mb =
     (case write_control_args cmd a0 a1 a2 mb of
        None \<Rightarrow> (Some (Inl UndefinedBehaviour), mb)
      | Some m1 \<Rightarrow> run_control_command child op_name m1)"

definition control_malloc :: "(bytes \<Rightarrow> bytes list) \<Rightarrow> u64 \<Rightarrow> bytes \<Rightarrow> (exn + u64) option \<times> bytes" where
  "control_malloc child sz mb =
     (case control_simple child ''control_malloc'' CTRL_MALLOC sz 0 0 mb of
        (None, m) \<Rightarrow> (None, m)
      | (Some (Inl e), m) \<Rightarrow> (Some (Inl e), m)
      | (Some (Inr _), m) \<Rightarrow> (Some (Inr (read_control_result m)), m))"

definition control_prepare :: "(bytes \<Rightarrow> bytes list) \<Rightarrow> int \<Rightarrow> bytes \<Rightarrow> (exn + unit) option \<times> bytes" where
  "control_prepare child cid mb =
     control_simple child ''control_prepare'' CTRL_PREPARE (ucast (i32 cid)) 0 0 mb"

definition control_unregister :: "(bytes \<Rightarrow> bytes list) \<Rightarrow> int \<Rightarrow> bytes \<Rightarrow> (exn + unit) option \<times> bytes" where
  "control_unregister child cid mb =
     control_simple child ''control_unregister'' CTRL_UNREGISTER (ucast (i32 cid)) 0 0 mb"

definition control_free :: "(bytes \<Rightarrow> bytes list) \<Rightarrow> u64 \<Rightarrow> bytes \<Rightarrow> (exn + unit) option \<times> bytes" where
  "control_free child ptr mb = control_simple child ''control_free'' CTRL_FREE ptr 0 0 mb"

definition control_copy_to ::
    "(bytes \<Rightarrow> bytes list) \<Rightarrow> u64 \<Rightarrow> u64 \<Rightarrow> u64 \<Rightarrow> bytes \<Rightarrow> (exn + unit) option \<times> bytes" where
  "control_copy_to child dst src sz mb = control_simple child ''control_copy_to'' CTRL_COPY_TO dst src sz mb"

definition control_copy_from ::
    "(bytes \<Rightarrow> bytes list) \<Rightarrow> u64 \<Rightarrow> u64 \<Rightarrow> u64 \<Rightarrow> bytes \<Rightarrow> (exn + unit) option \<times> bytes" where
  "control_copy_from child dst src sz mb =
     control_simple child ''control_copy_from'' CTRL_COPY_FROM dst src sz mb"

text \<open>A NUL-padded 32-byte name field. Names are the bytes before the terminator.\<close>

definition shm_name_field :: "bytes \<Rightarrow> bytes" where
  "shm_name_field name = name @ replicate (CTRL_SHM_NAME_BYTES - length name) 0"

definition control_register ::
    "(bytes \<Rightarrow> bytes list) \<Rightarrow> int \<Rightarrow> bytes \<Rightarrow> bytes \<Rightarrow> (exn + unit) option \<times> bytes" where
  "control_register child cid shm_name mb =
     (case mem_write MAILBOX_OFF_CALLABLE (put64 (ctrl_code CTRL_REGISTER)) mb
           \<bind> mem_write CTRL_OFF_ARG0 (put64 (ucast (i32 cid))) of
        None \<Rightarrow> (Some (Inl UndefinedBehaviour), mb)
      | Some m1 \<Rightarrow>
          if length shm_name + 1 > CTRL_SHM_NAME_BYTES
          then (Some (Inl (RuntimeError (''control_register: shm name too long: '' @ string_of_bytes shm_name))), m1)
          else (case mem_write MAILBOX_OFF_ARGS (shm_name_field shm_name) m1 of
                  None \<Rightarrow> (Some (Inl UndefinedBehaviour), m1)
                | Some m2 \<Rightarrow> run_control_command child ''control_register'' m2))"

definition write_shm_name :: "nat \<Rightarrow> bytes \<Rightarrow> bytes \<Rightarrow> (bytes, unit) outcome" where
  "write_shm_name off name mb =
     (if length name + 1 > CTRL_SHM_NAME_BYTES
      then (Inl (RuntimeError (''control: shm name too long: '' @ string_of_bytes name)), mb)
      else case mem_write off (shm_name_field name) mb of
          None \<Rightarrow> (Inl UndefinedBehaviour, mb) | Some m \<Rightarrow> (Inr (), m))"

definition write_shm_name_pair :: "bytes \<Rightarrow> bytes \<Rightarrow> bytes \<Rightarrow> (bytes, unit) outcome" where
  "write_shm_name_pair req rep mb =
     (case write_shm_name MAILBOX_OFF_ARGS req mb of
        (Inl e, m) \<Rightarrow> (Inl e, m)
      | (Inr _, m) \<Rightarrow> write_shm_name (MAILBOX_OFF_ARGS + CTRL_SHM_NAME_BYTES) rep m)"

text \<open>The shape of the four domain commands: sub-command, name pair, run.\<close>

definition control_named ::
    "(bytes \<Rightarrow> bytes list) \<Rightarrow> string \<Rightarrow> ctrl_cmd \<Rightarrow> bytes \<Rightarrow> bytes \<Rightarrow> bytes \<Rightarrow> (exn + unit) option \<times> bytes" where
  "control_named child op_name cmd req rep mb =
     (case mem_write MAILBOX_OFF_CALLABLE (put64 (ctrl_code cmd)) mb of
        None \<Rightarrow> (Some (Inl UndefinedBehaviour), mb)
      | Some m1 \<Rightarrow>
          (case write_shm_name_pair req rep m1 of
             (Inl e, m2) \<Rightarrow> (Some (Inl e), m2)
           | (Inr _, m2) \<Rightarrow> run_control_command child op_name m2))"

definition control_alloc_domain ::
    "(bytes \<Rightarrow> bytes list) \<Rightarrow> bytes \<Rightarrow> bytes \<Rightarrow> bytes \<Rightarrow> (exn + unit) option \<times> bytes" where
  "control_alloc_domain child req rep mb =
     (if req = [] \<or> rep = []
      then (Some (Inl (RuntimeError ''control_alloc_domain: request and reply shm names must be non-empty'')), mb)
      else control_named child ''control_alloc_domain'' CTRL_ALLOC_DOMAIN req rep mb)"

definition control_release_domain ::
    "(bytes \<Rightarrow> bytes list) \<Rightarrow> bytes \<Rightarrow> bytes \<Rightarrow> (exn + unit) option \<times> bytes" where
  "control_release_domain child req mb =
     (if req = []
      then (Some (Inl (RuntimeError ''control_release_domain: request shm name must be non-empty'')), mb)
      else control_named child ''control_release_domain'' CTRL_RELEASE_DOMAIN req [] mb)"

definition control_comm_init ::
    "(bytes \<Rightarrow> bytes list) \<Rightarrow> bytes \<Rightarrow> bytes \<Rightarrow> (exn + unit) option \<times> bytes" where
  "control_comm_init child req mb =
     (if req = []
      then (Some (Inl (RuntimeError ''control_comm_init: request shm name must be non-empty'')), mb)
      else control_named child ''control_comm_init'' CTRL_COMM_INIT req [] mb)"

definition control_comm_op ::
    "(bytes \<Rightarrow> bytes list) \<Rightarrow> bytes \<Rightarrow> bytes \<Rightarrow> (exn + unit) option \<times> bytes" where
  "control_comm_op child req mb =
     (if req = []
      then (Some (Inl (RuntimeError ''control_comm_op: request shm name must be non-empty'')), mb)
      else control_named child ''control_comm_op'' CTRL_COMM_OP req [] mb)"

subsection \<open>WorkerManager\<close>

text \<open>
  Workers are addressed by their position in the pool of their type. A registered entry is the
  mailbox, or \<open>None\<close> for a null pointer. \<open>first_error\<close> is the stored \<open>exception_ptr\<close>.
\<close>

record WorkerManager =
  next_level_entries :: "bytes option list"
  sub_entries :: "bytes option list"
  next_level_threads :: "WorkerThread list"
  sub_threads :: "WorkerThread list"
  first_error :: "exn option"
  has_error_flag :: bool

definition new_manager :: WorkerManager where
  "new_manager = \<lparr>next_level_entries = [], sub_entries = [], next_level_threads = [], sub_threads = [],
     first_error = None, has_error_flag = False\<rparr>"

definition add_next_level :: "bytes option \<Rightarrow> WorkerManager \<Rightarrow> WorkerManager" where
  "add_next_level mb m = m\<lparr>next_level_entries := next_level_entries m @ [mb]\<rparr>"

definition add_sub :: "bytes option \<Rightarrow> WorkerManager \<Rightarrow> WorkerManager" where
  "add_sub mb m = m\<lparr>sub_entries := sub_entries m @ [mb]\<rparr>"

fun make_threads :: "bytes option list \<Rightarrow> WorkerThread list \<Rightarrow> (WorkerThread list, unit) outcome" where
  "make_threads [] threads = (Inr (), threads)"
| "make_threads (None # es) threads = (Inl (InvalidArgument ''WorkerThread::start: null mailbox''), threads)"
| "make_threads (Some mb # es) threads = make_threads es (threads @ [new_worker mb])"

definition wm_start :: "WorkerManager \<Rightarrow> (WorkerManager, unit) outcome" where
  "wm_start m =
     (case make_threads (next_level_entries m) (next_level_threads m) of
        (Inl e, ts) \<Rightarrow> (Inl e, m\<lparr>next_level_threads := ts\<rparr>)
      | (Inr _, ts) \<Rightarrow>
          (case make_threads (sub_entries m) (sub_threads m) of
             (r, us) \<Rightarrow> (r, m\<lparr>next_level_threads := ts, sub_threads := us\<rparr>)))"

definition report_error :: "exn \<Rightarrow> WorkerManager \<Rightarrow> WorkerManager" where
  "report_error e m =
     (if first_error m \<noteq> None then m else m\<lparr>first_error := Some e, has_error_flag := True\<rparr>)"

definition take_error :: "WorkerManager \<Rightarrow> exn option" where
  "take_error m = first_error m"

definition has_error :: "WorkerManager \<Rightarrow> bool" where
  "has_error m = has_error_flag m"

definition wm_clear_error :: "WorkerManager \<Rightarrow> WorkerManager" where
  "wm_clear_error m = m\<lparr>first_error := None, has_error_flag := False\<rparr>"

definition wm_stop :: "WorkerManager \<Rightarrow> WorkerManager" where
  "wm_stop m = m\<lparr>next_level_threads := [], sub_threads := []\<rparr>"

definition threads_of :: "WorkerType \<Rightarrow> WorkerManager \<Rightarrow> WorkerThread list" where
  "threads_of t m = (case t of NEXT_LEVEL \<Rightarrow> next_level_threads m | SUB \<Rightarrow> sub_threads m)"

definition set_threads :: "WorkerType \<Rightarrow> WorkerThread list \<Rightarrow> WorkerManager \<Rightarrow> WorkerManager" where
  "set_threads t ws m = (case t of NEXT_LEVEL \<Rightarrow> m\<lparr>next_level_threads := ws\<rparr> | SUB \<Rightarrow> m\<lparr>sub_threads := ws\<rparr>)"

definition idle_workers :: "WorkerType \<Rightarrow> WorkerManager \<Rightarrow> nat list" where
  "idle_workers t m = filter (\<lambda>i. wt_idle (threads_of t m ! i)) [0..<length (threads_of t m)]"

definition pick_idle :: "WorkerType \<Rightarrow> WorkerManager \<Rightarrow> nat option" where
  "pick_idle t m = (case idle_workers t m of [] \<Rightarrow> None | i # _ \<Rightarrow> Some i)"

text \<open>
  \<open>pick_n_idle\<close>: \<open>reserve\<close> rejects a negative count (\<open>std::length_error\<close>), and the bound is tested
  only after a push, so a request for no worker still returns one when one is idle.
\<close>

definition pick_n_idle :: "WorkerType \<Rightarrow> int \<Rightarrow> WorkerManager \<Rightarrow> exn + nat list" where
  "pick_n_idle t n m =
     (if n < 0 then Inl (LogicError ''vector::reserve'') else Inr (take (nat (max 1 n)) (idle_workers t m)))"

definition get_worker :: "WorkerType \<Rightarrow> int \<Rightarrow> WorkerManager \<Rightarrow> nat option" where
  "get_worker t logical_id m =
     (if logical_id < 0 \<or> nat logical_id \<ge> length (threads_of t m) then None else Some (nat logical_id))"

definition pick_idle_excluding :: "WorkerType \<Rightarrow> nat option list \<Rightarrow> WorkerManager \<Rightarrow> nat option" where
  "pick_idle_excluding t exclude m =
     (case filter (\<lambda>i. Some i \<notin> set exclude) (idle_workers t m) of [] \<Rightarrow> None | i # _ \<Rightarrow> Some i)"

definition any_busy :: "WorkerManager \<Rightarrow> bool" where
  "any_busy m \<longleftrightarrow> list_ex (\<lambda>w. \<not> wt_idle w) (next_level_threads m) \<or> list_ex (\<lambda>w. \<not> wt_idle w) (sub_threads m)"

definition shutdown_children :: "WorkerManager \<Rightarrow> WorkerManager option" where
  "shutdown_children m = do {
     ns \<leftarrow> those (map shutdown_child (next_level_threads m));
     ss \<leftarrow> those (map shutdown_child (sub_threads m));
     Some (m\<lparr>next_level_threads := ns, sub_threads := ss\<rparr>) }"

subsection \<open>Broadcast registration\<close>

definition strip_control_prefix :: "string \<Rightarrow> string \<Rightarrow> string" where
  "strip_control_prefix msg op_name =
     (let needle = op_name @ '' failed on child: ''
      in if take (length needle) msg = needle then drop (length needle) msg else msg)"

definition make_shm_name :: "int \<Rightarrow> int \<Rightarrow> u64 \<Rightarrow> exn + string" where
  "make_shm_name pid cid counter =
     (let n = ''simpler-cb-'' @ int_to_string pid @ ''-'' @ int_to_string cid @ ''-''
            @ nat_to_string (unat counter)
      in if length n \<ge> CTRL_SHM_NAME_BYTES then Inl (RuntimeError ''broadcast_register: shm name overflow'')
         else Inr n)"

fun exn_what :: "exn \<Rightarrow> string option" where
  "exn_what (LogicError s) = Some s"
| "exn_what (RuntimeError s) = Some s"
| "exn_what (InvalidArgument s) = Some s"
| "exn_what (OutOfRange s) = Some s"
| "exn_what UndefinedBehaviour = None"

text \<open>
  The fan-out: one command per worker on its own mailbox, joined before the results are read, so the
  threads do not interact. The call blocks (\<open>None\<close>) while any child has not answered.
\<close>

definition fan_out ::
    "(nat \<Rightarrow> bytes \<Rightarrow> (exn + unit) option \<times> bytes) \<Rightarrow> WorkerThread list
      \<Rightarrow> (exn + unit) list option \<times> WorkerThread list" where
  "fan_out cmd ws =
     (let rs = map (\<lambda>(i, w). cmd i (wt_mailbox w)) (zip [0..<length ws] ws)
      in (those (map fst rs), map (\<lambda>(w, r). w\<lparr>wt_mailbox := snd r\<rparr>) (zip ws rs)))"

fun first_register_error :: "int \<Rightarrow> nat \<Rightarrow> (exn + unit) list \<Rightarrow> exn + unit" where
  "first_register_error cid i [] = Inr ()"
| "first_register_error cid i (Inr _ # rs) = first_register_error cid (Suc i) rs"
| "first_register_error cid i (Inl e # rs) =
     (case exn_what e of
        None \<Rightarrow> Inl UndefinedBehaviour
      | Some what \<Rightarrow> Inl (RuntimeError (''Worker.register(cid='' @ int_to_string cid
          @ '') failed on next_level '' @ nat_to_string i @ '': ''
          @ strip_control_prefix what ''control_register'')))"

text \<open>\<open>stage\<close> is the creation of the named shared-memory segment by the operating system.\<close>

definition broadcast_register_all ::
    "(nat \<Rightarrow> bytes \<Rightarrow> bytes list) \<Rightarrow> (string \<Rightarrow> exn + unit) \<Rightarrow> int \<Rightarrow> u64 \<Rightarrow> int \<Rightarrow> WorkerManager
      \<Rightarrow> (exn + unit) option \<times> WorkerManager" where
  "broadcast_register_all child stage pid counter cid m =
     (if next_level_threads m = [] then (Some (Inr ()), m)
      else case make_shm_name pid cid counter of
          Inl e \<Rightarrow> (Some (Inl e), m)
        | Inr name \<Rightarrow>
            (case stage name of
               Inl e \<Rightarrow> (Some (Inl e), m)
             | Inr _ \<Rightarrow>
                 (case fan_out (\<lambda>i. control_register (child i) cid (bytes_of_string name)) (next_level_threads m) of
                    (None, ws) \<Rightarrow> (None, m\<lparr>next_level_threads := ws\<rparr>)
                  | (Some rs, ws) \<Rightarrow> (Some (first_register_error cid 0 rs), m\<lparr>next_level_threads := ws\<rparr>))))"

fun unregister_messages :: "nat \<Rightarrow> (exn + unit) list \<Rightarrow> exn + string list" where
  "unregister_messages i [] = Inr []"
| "unregister_messages i (Inr _ # rs) = unregister_messages (Suc i) rs"
| "unregister_messages i (Inl e # rs) =
     (case exn_what e of
        None \<Rightarrow> Inl UndefinedBehaviour
      | Some what \<Rightarrow>
          (case unregister_messages (Suc i) rs of
             Inl e' \<Rightarrow> Inl e'
           | Inr ms \<Rightarrow> Inr ((''next_level '' @ nat_to_string i @ '': ''
               @ strip_control_prefix what ''control_unregister'') # ms)))"

definition broadcast_unregister_all ::
    "(nat \<Rightarrow> bytes \<Rightarrow> bytes list) \<Rightarrow> int \<Rightarrow> WorkerManager \<Rightarrow> (exn + string list) option \<times> WorkerManager" where
  "broadcast_unregister_all child cid m =
     (if next_level_threads m = [] then (Some (Inr []), m)
      else case fan_out (\<lambda>i. control_unregister (child i) cid) (next_level_threads m) of
          (None, ws) \<Rightarrow> (None, m\<lparr>next_level_threads := ws\<rparr>)
        | (Some rs, ws) \<Rightarrow> (Some (unregister_messages 0 rs), m\<lparr>next_level_threads := ws\<rparr>))"

text \<open>The per-worker wrappers of \<open>WorkerManager\<close> around one \<open>control_*\<close> call.\<close>

definition wm_control ::
    "string \<Rightarrow> (nat \<Rightarrow> bytes \<Rightarrow> (exn + 'a) option \<times> bytes) \<Rightarrow> int \<Rightarrow> WorkerManager
      \<Rightarrow> (exn + 'a) option \<times> WorkerManager" where
  "wm_control msg cmd worker_id m =
     (case get_worker NEXT_LEVEL worker_id m of
        None \<Rightarrow> (Some (Inl (RuntimeError msg)), m)
      | Some i \<Rightarrow>
          (case cmd i (wt_mailbox (next_level_threads m ! i)) of
             (r, mb) \<Rightarrow> (r, m\<lparr>next_level_threads :=
                (next_level_threads m)[i := (next_level_threads m ! i)\<lparr>wt_mailbox := mb\<rparr>]\<rparr>)))"

definition wm_control_prepare ::
    "(nat \<Rightarrow> bytes \<Rightarrow> bytes list) \<Rightarrow> int \<Rightarrow> int \<Rightarrow> WorkerManager \<Rightarrow> (exn + unit) option \<times> WorkerManager" where
  "wm_control_prepare child worker_id cid =
     wm_control (''control_prepare: invalid worker_id '' @ int_to_string worker_id)
       (\<lambda>i. control_prepare (child i) cid) worker_id"

definition wm_control_alloc_domain ::
    "(nat \<Rightarrow> bytes \<Rightarrow> bytes list) \<Rightarrow> int \<Rightarrow> bytes \<Rightarrow> bytes \<Rightarrow> WorkerManager \<Rightarrow> (exn + unit) option \<times> WorkerManager" where
  "wm_control_alloc_domain child worker_id req rep =
     wm_control (''control_alloc_domain: invalid worker_id '' @ int_to_string worker_id)
       (\<lambda>i. control_alloc_domain (child i) req rep) worker_id"

definition wm_control_release_domain ::
    "(nat \<Rightarrow> bytes \<Rightarrow> bytes list) \<Rightarrow> int \<Rightarrow> bytes \<Rightarrow> WorkerManager \<Rightarrow> (exn + unit) option \<times> WorkerManager" where
  "wm_control_release_domain child worker_id req =
     wm_control (''control_release_domain: invalid worker_id '' @ int_to_string worker_id)
       (\<lambda>i. control_release_domain (child i) req) worker_id"

definition wm_control_comm_init ::
    "(nat \<Rightarrow> bytes \<Rightarrow> bytes list) \<Rightarrow> int \<Rightarrow> bytes \<Rightarrow> WorkerManager \<Rightarrow> (exn + unit) option \<times> WorkerManager" where
  "wm_control_comm_init child worker_id req =
     wm_control (''control_comm_init: invalid worker_id '' @ int_to_string worker_id)
       (\<lambda>i. control_comm_init (child i) req) worker_id"

definition wm_control_comm_op ::
    "(nat \<Rightarrow> bytes \<Rightarrow> bytes list) \<Rightarrow> int \<Rightarrow> bytes \<Rightarrow> WorkerManager \<Rightarrow> (exn + unit) option \<times> WorkerManager" where
  "wm_control_comm_op child worker_id req =
     wm_control (''control_comm_op: invalid worker_id '' @ int_to_string worker_id)
       (\<lambda>i. control_comm_op (child i) req) worker_id"

end
