(* ===== verification/HierEngine.thy ===== *)
theory HierEngine
  imports HierRing HierWorkers
begin

text \<open>
  The scheduling engine of the host runtime: the orchestrator (\<open>orchestrator.h\<close>, \<open>orchestrator.cpp\<close>),
  the scheduler (\<open>scheduler.h\<close>, \<open>scheduler.cpp\<close>) and the worker-thread loop of \<open>worker_manager.cpp\<close>, over
  one state record that holds the components they share. Slot states live in the ring, as in the code.

  The orchestrator reaches a slot through \<open>slot_state\<close>, which throws on a bad id; the scheduler and the
  worker threads dereference \<open>ring->slot_state\<close> unchecked, so a bad id is \<open>UndefinedBehaviour\<close> there.
  Each definition is the code between the points where another thread could observe it; which of them
  are run without interruption is decided by the step relations of the later theories.
\<close>

record Engine =
  e_tm :: TensorMap
  e_ring :: Ring
  e_scope :: Scope
  e_next :: ReadyQueue
  e_sub :: ReadyQueue
  e_wm :: WorkerManager
  e_active :: int
  e_completion :: "TaskSlot list"

definition init_engine :: "Ring \<Rightarrow> WorkerManager \<Rightarrow> Engine" where
  "init_engine R m = \<lparr>e_tm = Map.empty, e_ring = R, e_scope = [], e_next = \<lparr>rq_q = [], rq_shutdown = False\<rparr>,
     e_sub = \<lparr>rq_q = [], rq_shutdown = False\<rparr>, e_wm = m, e_active = 0, e_completion = []\<rparr>"

definition slots :: "Engine \<Rightarrow> TaskSlotState list" where
  "slots E = slot_states (e_ring E)"

definition upd_slot :: "TaskSlot \<Rightarrow> (TaskSlotState \<Rightarrow> TaskSlotState) \<Rightarrow> Engine \<Rightarrow> Engine" where
  "upd_slot k f E = E\<lparr>e_ring := (e_ring E)\<lparr>slot_states := (slots E)[nat k := f (slots E ! nat k)]\<rparr>\<rparr>"

definition orch_slot_state :: "TaskSlot \<Rightarrow> Engine \<Rightarrow> exn + TaskSlotState" where
  "orch_slot_state k E =
     (case ring_slot_state k (e_ring E) of
        None \<Rightarrow> Inl (RuntimeError ''Orchestrator::slot_state: invalid slot id'') | Some s \<Rightarrow> Inr s)"

definition sched_slot_state :: "TaskSlot \<Rightarrow> Engine \<Rightarrow> exn + TaskSlotState" where
  "sched_slot_state k E =
     (case ring_slot_state k (e_ring E) of None \<Rightarrow> Inl UndefinedBehaviour | Some s \<Rightarrow> Inr s)"

definition ready_queue_for :: "WorkerType \<Rightarrow> Engine \<Rightarrow> ReadyQueue" where
  "ready_queue_for t E = (case t of NEXT_LEVEL \<Rightarrow> e_next E | SUB \<Rightarrow> e_sub E)"

definition set_queue :: "WorkerType \<Rightarrow> ReadyQueue \<Rightarrow> Engine \<Rightarrow> Engine" where
  "set_queue t q E = (case t of NEXT_LEVEL \<Rightarrow> E\<lparr>e_next := q\<rparr> | SUB \<Rightarrow> E\<lparr>e_sub := q\<rparr>)"

definition push_ready :: "WorkerType \<Rightarrow> TaskSlot \<Rightarrow> Engine \<Rightarrow> Engine" where
  "push_ready t k E = set_queue t (rq_push k (ready_queue_for t E)) E"

subsection \<open>Consumption (on_consumed, release_ref, try_consume)\<close>

definition on_consumed :: "TaskSlot \<Rightarrow> Engine \<Rightarrow> (Engine, bool) outcome" where
  "on_consumed k E =
     (case orch_slot_state k E of
        Inl e \<Rightarrow> (Inl e, E)
      | Inr s \<Rightarrow>
          if ts_state s \<noteq> COMPLETED then (Inr False, E)
          else let E1 = upd_slot k (\<lambda>s. s\<lparr>ts_state := CONSUMED\<rparr>) E;
                   E2 = E1\<lparr>e_tm := erase_task_outputs (output_keys s) (e_tm E1)\<rparr>;
                   E3 = E2\<lparr>e_ring := ring_release k (e_ring E2)\<rparr>
               in (Inr True, E3\<lparr>e_active := e_active E3 - 1\<rparr>))"

definition release_ref :: "TaskSlot \<Rightarrow> Engine \<Rightarrow> (Engine, unit) outcome" where
  "release_ref k E =
     (case orch_slot_state k E of
        Inl e \<Rightarrow> (Inl e, E)
      | Inr s \<Rightarrow>
          let released = fanout_released s + 1;
              E1 = upd_slot k (\<lambda>s. s\<lparr>fanout_released := released\<rparr>) E
          in if released \<ge> fanout_total s + 1 \<and> ts_state s = COMPLETED
             then discard (on_consumed k E1)
             else (Inr (), E1))"

definition try_consume :: "TaskSlot \<Rightarrow> Engine \<Rightarrow> (Engine, unit) outcome" where
  "try_consume k E =
     (case sched_slot_state k E of
        Inl e \<Rightarrow> (Inl e, E)
      | Inr s \<Rightarrow>
          let released = fanout_released s + 1;
              E1 = upd_slot k (\<lambda>s. s\<lparr>fanout_released := released\<rparr>) E
          in if released \<ge> fanout_total s + 1
             then if ts_state s = COMPLETED
                  then discard (on_consumed k E1)
                  else (Inr (), E1)
             else (Inr (), E1))"

subsection \<open>Submission\<close>

definition output_alloc_bytes :: "ContinuousTensor \<Rightarrow> exn + u64" where
  "output_alloc_bytes t =
     (case nbytes t of Inl e \<Rightarrow> Inl e | Inr n \<Rightarrow> Inr (align_up n HEAP_ALIGN))"

text \<open>
  \<open>reserve_outputs_and_slot\<close>. The two nested loops run over the (tag, tensor) pairs of all argument
  lists in order: the first sums the sizes of the null \<open>OUTPUT\<close> tensors, the second hands out their slabs.
\<close>

fun sum_outputs :: "(TensorArgType \<times> ContinuousTensor) list \<Rightarrow> u64 \<Rightarrow> exn + u64" where
  "sum_outputs [] acc = Inr acc"
| "sum_outputs ((tag, t) # ts) acc =
     (if tag \<noteq> OUTPUT \<or> ct_data t \<noteq> 0 then sum_outputs ts acc
      else case output_alloc_bytes t of Inl e \<Rightarrow> Inl e | Inr n \<Rightarrow> sum_outputs ts (acc + n))"

fun assign_outputs ::
    "u64 \<Rightarrow> TensorArgType list \<Rightarrow> ContinuousTensor list \<Rightarrow> u64 \<Rightarrow> exn + (ContinuousTensor list \<times> u64)" where
  "assign_outputs base (tag # tags) (t # ts) off =
     (if tag \<noteq> OUTPUT \<or> ct_data t \<noteq> 0
      then (case assign_outputs base tags ts off of Inl e \<Rightarrow> Inl e | Inr (us, off') \<Rightarrow> Inr (t # us, off'))
      else case output_alloc_bytes t of
          Inl e \<Rightarrow> Inl e
        | Inr n \<Rightarrow>
            (case assign_outputs base tags ts (off + n) of
               Inl e \<Rightarrow> Inl e | Inr (us, off') \<Rightarrow> Inr (t\<lparr>ct_data := base + off\<rparr> # us, off')))"
| "assign_outputs base tags ts off = Inr (ts, off)"

fun assign_all :: "u64 \<Rightarrow> TaskArgs list \<Rightarrow> u64 \<Rightarrow> exn + TaskArgs list" where
  "assign_all base [] off = Inr []"
| "assign_all base (a # as) off =
     (case assign_outputs base (ta_tags a) (ta_tensors a) off of
        Inl e \<Rightarrow> Inl e
      | Inr (ts, off') \<Rightarrow>
          (case assign_all base as off' of Inl e \<Rightarrow> Inl e | Inr bs \<Rightarrow> Inr (a\<lparr>ta_tensors := ts\<rparr> # bs)))"

definition reserve_outputs_and_slot ::
    "wait_event list \<Rightarrow> TaskArgs list \<Rightarrow> Engine \<Rightarrow> (exn + (AllocResult \<times> TaskArgs list)) option \<times> Engine" where
  "reserve_outputs_and_slot evs args_list E =
     (case sum_outputs (concat (map (\<lambda>a. zip (ta_tags a) (ta_tensors a)) args_list)) 0 of
        Inl e \<Rightarrow> (Some (Inl e), E)
      | Inr total_bytes \<Rightarrow>
          (case ring_alloc evs total_bytes (int (current_depth (e_scope E))) (e_ring E) of
             (None, R) \<Rightarrow> (None, E\<lparr>e_ring := R\<rparr>)
           | (Some (Inl e), R) \<Rightarrow> (Some (Inl e), E\<lparr>e_ring := R\<rparr>)
           | (Some (Inr ar), R) \<Rightarrow>
               if ar_slot ar = INVALID_SLOT then (Some (Inr (ar, args_list)), E\<lparr>e_ring := R\<rparr>)
               else (case assign_all (ar_heap_ptr ar) args_list 0 of
                       Inl e \<Rightarrow> (Some (Inl e), E\<lparr>e_ring := R\<rparr>)
                     | Inr args \<Rightarrow> (Some (Inr (ar, args)), E\<lparr>e_ring := R\<rparr>))))"

text \<open>\<open>infer_deps\<close>: producers found so far, the tensor map, and the output keys recorded.\<close>

definition add_unique_producer :: "TaskSlot \<Rightarrow> TaskSlot \<Rightarrow> TaskSlot list \<Rightarrow> TaskSlot list" where
  "add_unique_producer slot p producers =
     (if p = slot \<or> p \<in> set producers then producers else producers @ [p])"

type_synonym deps = "TaskSlot list \<times> TensorMap \<times> TensorKey list"

definition tensor_key :: "int \<Rightarrow> ContinuousTensor \<Rightarrow> TensorKey" where
  "tensor_key worker_id t = \<lparr>tk_ptr = ct_data t, tk_worker = (if is_child_memory t then worker_id else -1)\<rparr>"

definition infer_tensor :: "TaskSlot \<Rightarrow> int \<Rightarrow> TensorArgType \<times> ContinuousTensor \<Rightarrow> deps \<Rightarrow> deps" where
  "infer_tensor slot worker_id tt d =
     (case (tt, d) of ((tag, t), (producers, tm, keys)) \<Rightarrow>
        if ct_data t = 0 then d
        else let key = tensor_key worker_id t;
                 found = (let prod = tm_lookup tm key
                          in if prod \<noteq> INVALID_SLOT then add_unique_producer slot prod producers else producers)
             in case tag of
                  INPUT \<Rightarrow> (found, tm, keys)
                | INOUT \<Rightarrow> (found, tm_insert key slot tm, keys @ [key])
                | OUTPUT \<Rightarrow> (producers, tm_insert key slot tm, keys @ [key])
                | OUTPUT_EXISTING \<Rightarrow> (producers, tm_insert key slot tm, keys @ [key])
                | NO_DEP \<Rightarrow> d)"

definition infer_group :: "TaskSlot \<Rightarrow> int list \<Rightarrow> nat \<times> TaskArgs \<Rightarrow> deps \<Rightarrow> deps" where
  "infer_group slot affs ga d =
     (case ga of (g, a) \<Rightarrow>
        fold (infer_tensor slot (if g < length affs then affs ! g else -1)) (zip (ta_tags a) (ta_tensors a)) d)"

definition infer_deps :: "TaskSlot \<Rightarrow> TaskArgs list \<Rightarrow> int list \<Rightarrow> TensorMap \<Rightarrow> deps" where
  "infer_deps slot args_list affs tm = fold (infer_group slot affs) (enumerate 0 args_list) ([], tm, [])"

text \<open>
  \<open>submit_impl\<close>, in the three stretches the threads can interleave with: everything up to the inferred
  producers, one locked step per producer, and the publication of the slot.
\<close>

definition store_args :: "TaskArgs list \<Rightarrow> int list \<Rightarrow> TaskSlotState \<Rightarrow> TaskSlotState" where
  "store_args args affs s =
     (if length args = 1 then s\<lparr>is_group := False, task_args := hd args, affinities := affs\<rparr>
      else s\<lparr>is_group := True, task_args_list := args, affinities := affs\<rparr>)"

definition submit_enter ::
    "wait_event list \<Rightarrow> WorkerType \<Rightarrow> int \<Rightarrow> CallConfig \<Rightarrow> TaskArgs list \<Rightarrow> int list \<Rightarrow> Engine
      \<Rightarrow> (exn + (TaskSlot \<times> TaskSlot list)) option \<times> Engine" where
  "submit_enter evs wtype cid cfg args_list affs E =
     (if args_list = [] then (Some (Inl (InvalidArgument ''Orchestrator: args_list must not be empty'')), E)
      else case validate cfg of
          Inl e \<Rightarrow> (Some (Inl e), E)
        | Inr _ \<Rightarrow>
            if has_error (e_wm E)
            then (Some (Inl (case take_error (e_wm E) of Some e \<Rightarrow> e | None \<Rightarrow> UndefinedBehaviour)), E)
            else let E1 = E\<lparr>e_active := e_active E + 1\<rparr>
              in case reserve_outputs_and_slot evs args_list E1 of
                   (None, E2) \<Rightarrow> (None, E2)
                 | (Some (Inl e), E2) \<Rightarrow> (Some (Inl e), E2)
                 | (Some (Inr (ar, args)), E2) \<Rightarrow>
                     if ar_slot ar = INVALID_SLOT
                     then (Some (Inl (RuntimeError ''Orchestrator: allocator shutdown'')),
                           E2\<lparr>e_active := e_active E2 - 1\<rparr>)
                     else let slot = ar_slot ar in
                       case orch_slot_state slot E2 of
                         Inl e \<Rightarrow> (Some (Inl e), E2)
                       | Inr _ \<Rightarrow>
                           (case infer_deps slot args affs (e_tm E2) of (producers, tm, keys) \<Rightarrow>
                              let E3 = upd_slot slot (\<lambda>s. (slot_reset s)\<lparr>worker_type := wtype, callable_id := cid,
                                         ts_config := cfg, output_keys := keys\<rparr>) (E2\<lparr>e_tm := tm\<rparr>);
                                  E4 = upd_slot slot (store_args args affs) E3
                              in (Some (Inr (slot, producers)), E4)))"

definition wire_producer :: "TaskSlot \<Rightarrow> TaskSlot \<Rightarrow> Engine \<times> int \<Rightarrow> (Engine \<times> int, unit) outcome" where
  "wire_producer slot p El =
     (case El of (E, live_fanins) \<Rightarrow>
        (case orch_slot_state p E of
           Inl e \<Rightarrow> (Inl e, El)
         | Inr ps \<Rightarrow>
             if ts_state ps = CONSUMED then (Inr (), El)
             else let E1 = upd_slot p (\<lambda>s. s\<lparr>fanout_consumers := fanout_consumers s @ [slot],
                                            fanout_total := fanout_total s + 1\<rparr>) E;
                      E2 = upd_slot slot (\<lambda>s. s\<lparr>fanin_producers := fanin_producers s @ [p]\<rparr>) E1
                  in (Inr (), (E2, if ts_state ps \<noteq> COMPLETED then live_fanins + 1 else live_fanins))))"

definition submit_publish :: "WorkerType \<Rightarrow> TaskSlot \<Rightarrow> int \<Rightarrow> Engine \<Rightarrow> Engine" where
  "submit_publish wtype slot live_fanins E =
     (let scope_ref = (if scope_depth (e_scope E) > 0 then 1 else 0);
          E1 = upd_slot slot (\<lambda>s. s\<lparr>fanin_count := live_fanins, fanin_released := 0,
                                   fanout_total := scope_ref, fanout_released := 0\<rparr>) E;
          E2 = (if scope_ref > 0 then E1\<lparr>e_scope := register_task slot (e_scope E1)\<rparr> else E1)
      in if live_fanins = 0
         then push_ready wtype slot (upd_slot slot (\<lambda>s. s\<lparr>ts_state := READY\<rparr>) E2)
         else upd_slot slot (\<lambda>s. s\<lparr>ts_state := PENDING\<rparr>) E2)"

definition submit_impl ::
    "wait_event list \<Rightarrow> WorkerType \<Rightarrow> int \<Rightarrow> CallConfig \<Rightarrow> TaskArgs list \<Rightarrow> int list \<Rightarrow> Engine
      \<Rightarrow> (exn + TaskSlot) option \<times> Engine" where
  "submit_impl evs wtype cid cfg args_list affs E =
     (case submit_enter evs wtype cid cfg args_list affs E of
        (None, E1) \<Rightarrow> (None, E1)
      | (Some (Inl e), E1) \<Rightarrow> (Some (Inl e), E1)
      | (Some (Inr (slot, producers)), E1) \<Rightarrow>
          (case for_each (wire_producer slot) producers (E1, 0) of
             (Inl e, (E2, _)) \<Rightarrow> (Some (Inl e), E2)
           | (Inr _, (E2, live_fanins)) \<Rightarrow>
               (Some (Inr slot), submit_publish wtype slot live_fanins E2)))"

definition submit_next_level ::
    "wait_event list \<Rightarrow> int \<Rightarrow> TaskArgs \<Rightarrow> CallConfig \<Rightarrow> int \<Rightarrow> Engine \<Rightarrow> (exn + TaskSlot) option \<times> Engine" where
  "submit_next_level evs cid args cfg worker =
     submit_impl evs NEXT_LEVEL cid cfg [args] (if worker \<ge> 0 then [worker] else [])"

definition submit_next_level_group ::
    "wait_event list \<Rightarrow> int \<Rightarrow> TaskArgs list \<Rightarrow> CallConfig \<Rightarrow> int list \<Rightarrow> Engine \<Rightarrow> (exn + TaskSlot) option \<times> Engine" where
  "submit_next_level_group evs cid args_list cfg workers = submit_impl evs NEXT_LEVEL cid cfg args_list workers"

definition submit_sub :: "wait_event list \<Rightarrow> int \<Rightarrow> TaskArgs \<Rightarrow> Engine \<Rightarrow> (exn + TaskSlot) option \<times> Engine" where
  "submit_sub evs cid args = submit_impl evs SUB cid default_config [args] []"

definition submit_sub_group ::
    "wait_event list \<Rightarrow> int \<Rightarrow> TaskArgs list \<Rightarrow> Engine \<Rightarrow> (exn + TaskSlot) option \<times> Engine" where
  "submit_sub_group evs cid args_list = submit_impl evs SUB cid default_config args_list []"

subsection \<open>alloc, scopes, drain\<close>

definition orch_alloc ::
    "wait_event list \<Rightarrow> u32 list \<Rightarrow> u8 \<Rightarrow> Engine \<Rightarrow> (exn + ContinuousTensor) option \<times> Engine" where
  "orch_alloc evs shape dtype E =
     (if length shape > CONTINUOUS_TENSOR_MAX_DIMS
      then (Some (Inl (InvalidArgument ''Orchestrator::alloc: shape exceeds CONTINUOUS_TENSOR_MAX_DIMS'')), E)
      else case get_element_size dtype of
          Inl e \<Rightarrow> (Some (Inl e), E)
        | Inr es \<Rightarrow>
            let numel = fold (\<lambda>d n. n * ucast d) shape (1 :: u64);
                aligned = align_up (numel * es) HEAP_ALIGN
            in case ring_alloc evs aligned (int (current_depth (e_scope E))) (e_ring E) of
                 (None, R) \<Rightarrow> (None, E\<lparr>e_ring := R\<rparr>)
               | (Some (Inl e), R) \<Rightarrow> (Some (Inl e), E\<lparr>e_ring := R\<rparr>)
               | (Some (Inr ar), R) \<Rightarrow>
                   let E1 = E\<lparr>e_ring := R\<rparr>; slot = ar_slot ar; ptr = ar_heap_ptr ar;
                       key = \<lparr>tk_ptr = ptr, tk_worker = -1\<rparr>;
                       scope_ref = (if scope_depth (e_scope E1) > 0 then 1 else 0)
                   in if slot = INVALID_SLOT
                      then (Some (Inl (RuntimeError ''Orchestrator::alloc: allocator shutdown'')), E1)
                      else case orch_slot_state slot E1 of
                          Inl e \<Rightarrow> (Some (Inl e), E1)
                        | Inr _ \<Rightarrow>
                            let E2 = upd_slot slot (\<lambda>s. (slot_reset s)\<lparr>
                                       output_keys := (if ptr \<noteq> 0 then [key] else []),
                                       fanin_count := 0, fanin_released := 0,
                                       fanout_total := scope_ref, fanout_released := 1,
                                       ts_state := COMPLETED\<rparr>) E1;
                                E3 = (if ptr \<noteq> 0 then E2\<lparr>e_tm := tm_insert key slot (e_tm E2)\<rparr> else E2);
                                E4 = (if scope_ref > 0 then E3\<lparr>e_scope := register_task slot (e_scope E3)\<rparr> else E3)
                            in (Some (Inr \<lparr>ct_data = ptr,
                                  ct_shapes = shape @ replicate (CONTINUOUS_TENSOR_MAX_DIMS - length shape) 0,
                                  ct_ndims = of_nat (length shape), ct_dtype = dtype, ct_child_memory = 0,
                                  ct_tail_pad = replicate 6 0\<rparr>),
                                E4\<lparr>e_active := e_active E4 + 1\<rparr>))"

definition orch_scope_begin :: "Engine \<Rightarrow> (Engine, unit) outcome" where
  "orch_scope_begin E =
     (case scope_begin (e_scope E) of Inl e \<Rightarrow> (Inl e, E) | Inr sc \<Rightarrow> (Inr (), E\<lparr>e_scope := sc\<rparr>))"

definition orch_scope_end :: "Engine \<Rightarrow> (Engine, unit) outcome" where
  "orch_scope_end E =
     (case scope_end release_ref (e_scope E) E of
        (Inl e, E1) \<Rightarrow> (Inl e, E1) | (Inr sc, E1) \<Rightarrow> (Inr (), E1\<lparr>e_scope := sc\<rparr>))"

text \<open>\<open>drain\<close>: no result while the condition variable waits for the active count to reach zero.\<close>

definition drain :: "Engine \<Rightarrow> (exn + unit) option \<times> Engine" where
  "drain E =
     (if e_active E \<noteq> 0 then (None, E)
      else case reset_to_empty (e_ring E) of
          (Inl e, R) \<Rightarrow> (Some (Inl e), E\<lparr>e_ring := R\<rparr>)
        | (Inr _, R) \<Rightarrow>
            let E1 = E\<lparr>e_ring := R\<rparr>
            in if has_error (e_wm E1)
               then (Some (Inl (case take_error (e_wm E1) of Some e \<Rightarrow> e | None \<Rightarrow> UndefinedBehaviour)), E1)
               else (Some (Inr ()), E1))"

definition orch_clear_error :: "Engine \<Rightarrow> Engine" where
  "orch_clear_error E = E\<lparr>e_wm := wm_clear_error (e_wm E)\<rparr>"

text \<open>Memory control on one next-level worker.\<close>

definition orch_control ::
    "string \<Rightarrow> (bytes \<Rightarrow> (exn + 'a) option \<times> bytes) \<Rightarrow> int \<Rightarrow> Engine \<Rightarrow> (exn + 'a) option \<times> Engine" where
  "orch_control op cmd worker_id E =
     (case wm_control (''Orchestrator::'' @ op @ '': invalid worker_id'') (\<lambda>i. cmd) worker_id (e_wm E) of
        (r, m) \<Rightarrow> (r, E\<lparr>e_wm := m\<rparr>))"

definition orch_malloc :: "(bytes \<Rightarrow> bytes list) \<Rightarrow> int \<Rightarrow> u64 \<Rightarrow> Engine \<Rightarrow> (exn + u64) option \<times> Engine" where
  "orch_malloc child worker_id sz = orch_control ''malloc'' (control_malloc child sz) worker_id"

definition orch_free :: "(bytes \<Rightarrow> bytes list) \<Rightarrow> int \<Rightarrow> u64 \<Rightarrow> Engine \<Rightarrow> (exn + unit) option \<times> Engine" where
  "orch_free child worker_id ptr = orch_control ''free'' (control_free child ptr) worker_id"

definition orch_copy_to ::
    "(bytes \<Rightarrow> bytes list) \<Rightarrow> int \<Rightarrow> u64 \<Rightarrow> u64 \<Rightarrow> u64 \<Rightarrow> Engine \<Rightarrow> (exn + unit) option \<times> Engine" where
  "orch_copy_to child worker_id dst src sz = orch_control ''copy_to'' (control_copy_to child dst src sz) worker_id"

definition orch_copy_from ::
    "(bytes \<Rightarrow> bytes list) \<Rightarrow> int \<Rightarrow> u64 \<Rightarrow> u64 \<Rightarrow> u64 \<Rightarrow> Engine \<Rightarrow> (exn + unit) option \<times> Engine" where
  "orch_copy_from child worker_id dst src sz =
     orch_control ''copy_from'' (control_copy_from child dst src sz) worker_id"

end
