(* ===== verification/HierSched.thy ===== *)
theory HierSched
  imports HierEngine
begin

text \<open>
  The scheduler thread (\<open>scheduler.cpp\<close>) and one iteration of the worker-thread loop
  (\<open>WorkerThread::loop\<close>). The completion queue is the list \<open>e_completion\<close>; the timed wait of
  \<open>Scheduler::run\<close> has no effect on the state and is left out.
\<close>

subsection \<open>Completion\<close>

definition worker_done :: "TaskSlot \<Rightarrow> Engine \<Rightarrow> (Engine, unit) outcome" where
  "worker_done k E =
     (case sched_slot_state k E of
        Inl e \<Rightarrow> (Inl e, E)
      | Inr s \<Rightarrow>
          if is_group s
          then let n = sub_complete_count s + 1;
                   E1 = upd_slot k (\<lambda>s. s\<lparr>sub_complete_count := n\<rparr>) E
               in if n < int (group_size s) then (Inr (), E1)
                  else (Inr (), E1\<lparr>e_completion := e_completion E1 @ [k]\<rparr>)
          else (Inr (), E\<lparr>e_completion := e_completion E @ [k]\<rparr>))"

definition release_fanin :: "TaskSlot \<Rightarrow> Engine \<Rightarrow> (Engine, unit) outcome" where
  "release_fanin c E =
     (case sched_slot_state c E of
        Inl e \<Rightarrow> (Inl e, E)
      | Inr cs \<Rightarrow>
          let released = fanin_released cs + 1;
              E1 = upd_slot c (\<lambda>s. s\<lparr>fanin_released := released\<rparr>) E
          in if released \<ge> fanin_count cs \<and> ts_state cs = PENDING
             then (Inr (), push_ready (worker_type cs) c (upd_slot c (\<lambda>s. s\<lparr>ts_state := READY\<rparr>) E1))
             else (Inr (), E1))"

definition on_task_complete :: "TaskSlot \<Rightarrow> Engine \<Rightarrow> (Engine, unit) outcome" where
  "on_task_complete k E =
     (case sched_slot_state k E of
        Inl e \<Rightarrow> (Inl e, E)
      | Inr s \<Rightarrow>
          (case for_each release_fanin (fanout_consumers s) (upd_slot k (\<lambda>s. s\<lparr>ts_state := COMPLETED\<rparr>) E) of
             (Inl e, E1) \<Rightarrow> (Inl e, E1)
           | (Inr _, E1) \<Rightarrow>
               (case try_consume k E1 of
                  (Inl e, E2) \<Rightarrow> (Inl e, E2)
                | (Inr _, E2) \<Rightarrow> for_each try_consume (fanin_producers (slots E2 ! nat k)) E2)))"

subsection \<open>Dispatch\<close>

text \<open>Pass 1: pin the members with an affinity. \<open>Inr None\<close> is the \<open>ok = false\<close> exit.\<close>

fun pin_workers ::
    "WorkerManager \<Rightarrow> TaskSlotState \<Rightarrow> nat list \<Rightarrow> nat option list \<Rightarrow> exn + nat option list option" where
  "pin_workers m s [] ws = Inr (Some ws)"
| "pin_workers m s (i # is) ws =
     (case get_affinity s i of
        Inl e \<Rightarrow> Inl e
      | Inr aff \<Rightarrow>
          if aff \<ge> 0
          then (case get_worker (worker_type s) aff m of
                  None \<Rightarrow> Inr None
                | Some w \<Rightarrow> if \<not> wt_idle (threads_of (worker_type s) m ! w) then Inr None
                           else pin_workers m s is (ws[i := Some w]))
          else pin_workers m s is ws)"

text \<open>Pass 2: fill the other members from the idle pool.\<close>

fun fill_workers ::
    "WorkerManager \<Rightarrow> TaskSlotState \<Rightarrow> nat list \<Rightarrow> nat option list \<Rightarrow> nat option list option" where
  "fill_workers m s [] ws = Some ws"
| "fill_workers m s (i # is) ws =
     (if ws ! i \<noteq> None then fill_workers m s is ws
      else case pick_idle_excluding (worker_type s) ws m of
          None \<Rightarrow> None | Some w \<Rightarrow> fill_workers m s is (ws[i := Some w]))"

definition assign_workers :: "WorkerManager \<Rightarrow> TaskSlotState \<Rightarrow> exn + nat option list option" where
  "assign_workers m s =
     (let N = group_size s
      in case pin_workers m s [0..<N] (replicate N None) of
           Inl e \<Rightarrow> Inl e
         | Inr None \<Rightarrow> Inr None
         | Inr (Some ws) \<Rightarrow> Inr (fill_workers m s [0..<N] ws))"

definition dispatch_to :: "WorkerType \<Rightarrow> TaskSlot \<Rightarrow> nat \<times> nat option \<Rightarrow> WorkerManager \<Rightarrow> WorkerManager" where
  "dispatch_to t k iw m =
     (case iw of
        (i, None) \<Rightarrow> m
      | (i, Some w) \<Rightarrow> set_threads t ((threads_of t m)
          [w := wt_dispatch \<lparr>wd_task_slot = k, wd_group_index = i\<rparr> (threads_of t m ! w)]) m)"

text \<open>One iteration of \<open>drain_one\<close> after the pop; the flag says whether the loop goes on.\<close>

definition dispatch_one :: "WorkerType \<Rightarrow> TaskSlot \<Rightarrow> Engine \<Rightarrow> (Engine, bool) outcome" where
  "dispatch_one t k E =
     (case sched_slot_state k E of
        Inl e \<Rightarrow> (Inl e, E)
      | Inr s \<Rightarrow>
          (case assign_workers (e_wm E) s of
             Inl e \<Rightarrow> (Inl e, E)
           | Inr None \<Rightarrow> (Inr False, push_ready t k E)
           | Inr (Some ws) \<Rightarrow>
               let E1 = upd_slot k (\<lambda>s. s\<lparr>ts_state := RUNNING\<rparr>) E
               in (Inr True, E1\<lparr>e_wm := fold (dispatch_to (worker_type s) k) (enumerate 0 ws) (e_wm E1)\<rparr>)))"

lemma upd_slot_frame [simp]:
  "e_tm (upd_slot k f E) = e_tm E" "e_scope (upd_slot k f E) = e_scope E" "e_next (upd_slot k f E) = e_next E"
  "e_sub (upd_slot k f E) = e_sub E" "e_wm (upd_slot k f E) = e_wm E" "e_active (upd_slot k f E) = e_active E"
  "e_completion (upd_slot k f E) = e_completion E" "rings (e_ring (upd_slot k f E)) = rings (e_ring E)"
  "next_task_id (e_ring (upd_slot k f E)) = next_task_id (e_ring E)"
  "slots (upd_slot k f E) = (slots E)[nat k := f (slots E ! nat k)]"
  by (simp_all add: upd_slot_def slots_def)

lemma dispatch_one_queue:
  assumes "dispatch_one t k E = (Inr True, E')"
  shows "ready_queue_for t E' = ready_queue_for t E"
  using assms
  by (cases t) (auto simp: dispatch_one_def ready_queue_for_def Let_def split: sum.splits option.splits)

lemma set_queue_get [simp]: "ready_queue_for t (set_queue t q E) = q"
  by (cases t) (simp_all add: ready_queue_for_def set_queue_def)

function drain_one :: "WorkerType \<Rightarrow> Engine \<Rightarrow> (Engine, unit) outcome" where
  "drain_one t E =
     (case try_pop (ready_queue_for t E) of
        None \<Rightarrow> (Inr (), E)
      | Some (k, q) \<Rightarrow>
          (case dispatch_one t k (set_queue t q E) of
             (Inl e, E') \<Rightarrow> (Inl e, E')
           | (Inr cont, E') \<Rightarrow> if cont then drain_one t E' else (Inr (), E')))"
  by pat_completeness auto
termination
proof (relation "measure (\<lambda>(t, E). length (rq_q (ready_queue_for t E)))")
  fix t E kq k q res E' cont
  assume a: "try_pop (ready_queue_for t E) = Some kq" "(k, q) = kq"
    "(res, E') = dispatch_one t k (set_queue t q E)" "res = Inr cont" cont
  then have "ready_queue_for t E' = q"
    using dispatch_one_queue [of t k "set_queue t q E" E'] by simp
  moreover have "rq_q (ready_queue_for t E) = k # rq_q q"
    using a by (intro rq.pop_rest) simp
  ultimately show "((t, E'), (t, E)) \<in> measure (\<lambda>(t, E). length (rq_q (ready_queue_for t E)))"
    by simp
qed simp

declare drain_one.simps [simp del]

definition dispatch_ready :: "Engine \<Rightarrow> (Engine, unit) outcome" where
  "dispatch_ready E =
     (case drain_one NEXT_LEVEL E of (Inl e, E1) \<Rightarrow> (Inl e, E1) | (Inr _, E1) \<Rightarrow> drain_one SUB E1)"

subsection \<open>The scheduler loop\<close>

definition sched_complete_one :: "Engine \<Rightarrow> (Engine, bool) outcome" where
  "sched_complete_one E =
     (case e_completion E of
        [] \<Rightarrow> (Inr False, E)
      | k # ks \<Rightarrow>
          (case on_task_complete k (E\<lparr>e_completion := ks\<rparr>) of
             (Inl e, E1) \<Rightarrow> (Inl e, E1) | (Inr _, E1) \<Rightarrow> (Inr True, E1)))"

lemma push_ready_frame [simp]:
  "e_tm (push_ready t k E) = e_tm E" "e_scope (push_ready t k E) = e_scope E"
  "e_ring (push_ready t k E) = e_ring E" "e_wm (push_ready t k E) = e_wm E"
  "e_active (push_ready t k E) = e_active E" "e_completion (push_ready t k E) = e_completion E"
  "slots (push_ready t k E) = slots E"
  by (cases t; simp add: push_ready_def set_queue_def slots_def)+

lemma for_each_keeps:
  assumes "\<And>x s. g (snd (f x s)) = g s"
  shows "g (snd (for_each f xs s)) = g s"
proof (induction xs arbitrary: s)
  case (Cons x xs)
  have "g (snd (f x s)) = g s"
    by (rule assms)
  then show ?case
    using Cons.IH by (auto split: prod.split sum.split)
qed simp

lemma consume_completion:
  "e_completion (snd (on_consumed k E)) = e_completion E"
  "e_completion (snd (try_consume k E)) = e_completion E"
  "e_completion (snd (release_fanin k E)) = e_completion E"
proof -
  show c: "e_completion (snd (on_consumed k E)) = e_completion E" for E
    by (simp add: on_consumed_def Let_def split: sum.split)
  show "e_completion (snd (try_consume k E)) = e_completion E"
    by (simp add: try_consume_def Let_def c split: sum.split)
  show "e_completion (snd (release_fanin k E)) = e_completion E"
    by (simp add: release_fanin_def Let_def split: sum.split)
qed

lemma on_task_complete_completion: "e_completion (snd (on_task_complete k E)) = e_completion E"
proof -
  note f = for_each_keeps [of e_completion release_fanin, OF consume_completion(3)]
    and t = for_each_keeps [of e_completion try_consume, OF consume_completion(2)]
  show ?thesis
  proof (cases "sched_slot_state k E")
    case (Inr s)
    obtain r1 E1 where 1: "for_each release_fanin (fanout_consumers s) (upd_slot k (\<lambda>s. s\<lparr>ts_state := COMPLETED\<rparr>) E) = (r1, E1)"
      by fastforce
    have e1: "e_completion E1 = e_completion E"
      using f [of "fanout_consumers s" "upd_slot k (\<lambda>s. s\<lparr>ts_state := COMPLETED\<rparr>) E"] 1 by simp
    obtain r2 E2 where 2: "try_consume k E1 = (r2, E2)"
      by fastforce
    have "e_completion E2 = e_completion E"
      using consume_completion(2) [of k E1] 2 e1 by simp
    then show ?thesis
      using Inr 1 2 e1 t by (simp add: on_task_complete_def split: sum.split)
  qed (simp add: on_task_complete_def)
qed

function drain_completions :: "Engine \<Rightarrow> (Engine, unit) outcome" where
  "drain_completions E =
     (case sched_complete_one E of
        (Inl e, E1) \<Rightarrow> (Inl e, E1)
      | (Inr again, E1) \<Rightarrow> if again then drain_completions E1 else (Inr (), E1))"
  by pat_completeness auto
termination
proof (relation "measure (\<lambda>E. length (e_completion E))")
  fix E res E1 again
  assume a: "(res, E1) = sched_complete_one E" "res = Inr again" again
  then obtain k ks where ks: "e_completion E = k # ks"
    by (cases "e_completion E") (auto simp: sched_complete_one_def)
  then have "E1 = snd (on_task_complete k (E\<lparr>e_completion := ks\<rparr>))"
    using a by (auto simp: sched_complete_one_def split: prod.splits sum.splits)
  then show "(E1, E) \<in> measure (\<lambda>E. length (e_completion E))"
    using on_task_complete_completion [of k "E\<lparr>e_completion := ks\<rparr>"] ks by simp
qed simp

declare drain_completions.simps [simp del]

text \<open>One pass of \<open>Scheduler::run\<close>; the flag says that the loop exits after it.\<close>

definition sched_iteration :: "bool \<Rightarrow> Engine \<Rightarrow> (Engine, bool) outcome" where
  "sched_iteration stop_requested E =
     (case drain_completions E of
        (Inl e, E1) \<Rightarrow> (Inl e, E1)
      | (Inr _, E1) \<Rightarrow>
          (case dispatch_ready E1 of
             (Inl e, E2) \<Rightarrow> (Inl e, E2)
           | (Inr _, E2) \<Rightarrow>
               if stop_requested \<and> \<not> any_busy (e_wm E2)
               then (case drain_completions E2 of
                       (Inl e, E3) \<Rightarrow> (Inl e, E3)
                     | (Inr _, E3) \<Rightarrow>
                         (case dispatch_ready E3 of (Inl e, E4) \<Rightarrow> (Inl e, E4) | (Inr _, E4) \<Rightarrow> (Inr True, E4)))
               else (Inr False, E2)))"

definition sched_stop :: "Engine \<Rightarrow> Engine" where
  "sched_stop E = E\<lparr>e_next := rq_shutdown_op (e_next E), e_sub := rq_shutdown_op (e_sub E)\<rparr>"

subsection \<open>The worker-thread loop\<close>

text \<open>
  One iteration: pop a dispatch, run it on the child, record a failure, become idle, report completion.
  No result while the queue is empty or the child has not answered. An undefined behaviour is not an
  exception the \<open>catch\<close> clause could see.
\<close>

definition worker_loop ::
    "(bytes \<Rightarrow> bytes list) \<Rightarrow> WorkerType \<Rightarrow> nat \<Rightarrow> Engine \<Rightarrow> (exn + unit) option \<times> Engine" where
  "worker_loop child t i E =
     (let w = threads_of t (e_wm E) ! i
      in case wt_queue w of
           [] \<Rightarrow> (None, E)
         | d # ds \<Rightarrow>
             (case sched_slot_state (wd_task_slot d) E of
                Inl e \<Rightarrow> (Some (Inl e), E)
              | Inr s \<Rightarrow>
                  (case dispatch_process child s (wd_group_index d) (wt_mailbox w) of
                     (None, mb) \<Rightarrow> (None, E)
                   | (Some res, mb) \<Rightarrow>
                       if res = Inl UndefinedBehaviour then (Some res, E)
                       else let m1 = (case res of Inl e \<Rightarrow> report_error e (e_wm E) | Inr _ \<Rightarrow> e_wm E);
                                m2 = set_threads t ((threads_of t m1)[i := w\<lparr>wt_mailbox := mb, wt_queue := ds,
                                       wt_idle := True\<rparr>]) m1
                            in case worker_done (wd_task_slot d) (E\<lparr>e_wm := m2\<rparr>) of
                                 (r, E') \<Rightarrow> (Some r, E'))))"

end
