(* ===== verification/HierAccount.thy ===== *)
theory HierAccount
  imports HierTypes "HOL-Library.Multiset"
begin

text \<open>
  Reference counting over a list of slot states, apart from the rest of the engine. \<open>graph_inv\<close> says that
  the producer and consumer lists of the slots are two views of one acyclic graph. \<open>acct ss W F\<close> states what
  the four counters of a slot mean, relative to the releases that are still owed: \<open>W\<close> holds one entry per
  outstanding fanout release (the scope references not yet dropped, and during a completion the releases its
  loop has yet to make), \<open>F\<close> one per outstanding fanin release. Each lemma below is one store of the code.
\<close>

definition finished :: "TaskSlotState \<Rightarrow> bool" where
  "finished s \<longleftrightarrow> ts_state s = COMPLETED \<or> ts_state s = CONSUMED"

definition fin :: "TaskSlotState list \<Rightarrow> TaskSlot \<Rightarrow> bool" where
  "fin ss c = finished (ss ! nat c)"

definition ndone :: "TaskSlotState list \<Rightarrow> nat \<Rightarrow> nat" where
  "ndone ss k = length (filter (fin ss) (fanout_consumers (ss ! k)))"

definition nlive :: "TaskSlotState list \<Rightarrow> nat \<Rightarrow> nat" where
  "nlive ss k = length (filter (\<lambda>p. \<not> fin ss p) (fanin_producers (ss ! k)))"

definition scope_ref_of :: "TaskSlotState \<Rightarrow> int" where
  "scope_ref_of s = fanout_total s - int (length (fanout_consumers s))"

definition graph_inv :: "TaskSlotState list \<Rightarrow> bool" where
  "graph_inv ss \<longleftrightarrow>
     (\<forall>k < length ss. distinct (fanin_producers (ss ! k)) \<and> distinct (fanout_consumers (ss ! k))
        \<and> (\<forall>p \<in> set (fanin_producers (ss ! k)). 0 \<le> p \<and> p < int k)
        \<and> (\<forall>c \<in> set (fanout_consumers (ss ! k)). 0 \<le> c \<and> c < int (length ss)))
   \<and> (\<forall>p < length ss. \<forall>c < length ss.
        int p \<in> set (fanin_producers (ss ! c)) \<longleftrightarrow> int c \<in> set (fanout_consumers (ss ! p)))"

definition slot_acct :: "TaskSlotState list \<Rightarrow> int multiset \<Rightarrow> int multiset \<Rightarrow> nat \<Rightarrow> bool" where
  "slot_acct ss W F k \<longleftrightarrow>
     (scope_ref_of (ss ! k) = 0 \<or> scope_ref_of (ss ! k) = 1)
   \<and> fanout_released (ss ! k) + int (count W (int k))
       = (if finished (ss ! k) then 1 else 0) + int (ndone ss k) + scope_ref_of (ss ! k)
   \<and> (ts_state (ss ! k) \<noteq> FREE \<longrightarrow>
       fanin_count (ss ! k) = fanin_released (ss ! k) + int (nlive ss k) + int (count F (int k)))
   \<and> (ts_state (ss ! k) = PENDING \<longrightarrow> fanin_released (ss ! k) < fanin_count (ss ! k))
   \<and> (ts_state (ss ! k) \<noteq> FREE \<and> ts_state (ss ! k) \<noteq> PENDING \<longrightarrow> nlive ss k = 0 \<and> count F (int k) = 0)
   \<and> (ts_state (ss ! k) = CONSUMED \<longrightarrow> fanout_released (ss ! k) = fanout_total (ss ! k) + 1)
   \<and> (ts_state (ss ! k) = COMPLETED \<longrightarrow> fanout_released (ss ! k) \<le> fanout_total (ss ! k)
        \<or> fanout_total (ss ! k) = 0 \<and> fanout_consumers (ss ! k) = [])"

definition acct :: "TaskSlotState list \<Rightarrow> int multiset \<Rightarrow> int multiset \<Rightarrow> bool" where
  "acct ss W F \<longleftrightarrow> (\<forall>k < length ss. slot_acct ss W F k)
     \<and> (\<forall>x \<in># W. 0 \<le> x \<and> x < int (length ss)) \<and> (\<forall>x \<in># F. 0 \<le> x \<and> x < int (length ss))"

lemma graph_invD:
  assumes "graph_inv ss" and "k < length ss"
  shows "distinct (fanin_producers (ss ! k))" and "distinct (fanout_consumers (ss ! k))"
    and "\<And>p. p \<in> set (fanin_producers (ss ! k)) \<Longrightarrow> 0 \<le> p \<and> p < int k"
    and "\<And>c. c \<in> set (fanout_consumers (ss ! k)) \<Longrightarrow> 0 \<le> c \<and> c < int (length ss)"
  using assms unfolding graph_inv_def by blast+

lemma graph_inv_edge:
  assumes "graph_inv ss" and "p < length ss" and "c < length ss"
  shows "int p \<in> set (fanin_producers (ss ! c)) \<longleftrightarrow> int c \<in> set (fanout_consumers (ss ! p))"
  using assms unfolding graph_inv_def by blast

lemma graph_inv_consumer_later:
  assumes g: "graph_inv ss" and k: "k < length ss" and c: "c \<in> set (fanout_consumers (ss ! k))"
  shows "int k < c"
proof -
  have b: "0 \<le> c" "c < int (length ss)"
    using graph_invD(4) [OF g k c] by auto
  then have "int k \<in> set (fanin_producers (ss ! nat c))"
    using graph_inv_edge [OF g k, of "nat c"] c by simp
  then show ?thesis
    using graph_invD(3) [OF g, of "nat c" "int k"] b by auto
qed

lemma acctD:
  assumes "acct ss W F" and "k < length ss"
  shows "scope_ref_of (ss ! k) = 0 \<or> scope_ref_of (ss ! k) = 1"
    and "fanout_released (ss ! k) + int (count W (int k))
       = (if finished (ss ! k) then 1 else 0) + int (ndone ss k) + scope_ref_of (ss ! k)"
    and "ts_state (ss ! k) \<noteq> FREE \<Longrightarrow>
       fanin_count (ss ! k) = fanin_released (ss ! k) + int (nlive ss k) + int (count F (int k))"
    and "ts_state (ss ! k) = PENDING \<Longrightarrow> fanin_released (ss ! k) < fanin_count (ss ! k)"
    and "ts_state (ss ! k) \<noteq> FREE \<Longrightarrow> ts_state (ss ! k) \<noteq> PENDING \<Longrightarrow> nlive ss k = 0 \<and> count F (int k) = 0"
    and "ts_state (ss ! k) = CONSUMED \<Longrightarrow> fanout_released (ss ! k) = fanout_total (ss ! k) + 1"
    and "ts_state (ss ! k) = COMPLETED \<Longrightarrow> fanout_released (ss ! k) \<le> fanout_total (ss ! k)
      \<or> fanout_total (ss ! k) = 0 \<and> fanout_consumers (ss ! k) = []"
  using assms unfolding acct_def slot_acct_def by blast+

lemma acct_dom:
  assumes "acct ss W F"
  shows "x \<in># W \<Longrightarrow> 0 \<le> x \<and> x < int (length ss)" and "x \<in># F \<Longrightarrow> 0 \<le> x \<and> x < int (length ss)"
  using assms unfolding acct_def by blast+

lemma ndone_le: "ndone ss k \<le> length (fanout_consumers (ss ! k))"
  by (simp add: ndone_def)

text \<open>A consumed slot owes nothing and all its consumers have finished.\<close>

lemma consumed_settled:
  assumes a: "acct ss W F" and k: "k < length ss" and c: "ts_state (ss ! k) = CONSUMED"
  shows "count W (int k) = 0" and "ndone ss k = length (fanout_consumers (ss ! k))"
proof -
  have "finished (ss ! k)"
    using c by (simp add: finished_def)
  then have "fanout_total (ss ! k) + 1 + int (count W (int k))
      = 1 + int (ndone ss k) + (fanout_total (ss ! k) - int (length (fanout_consumers (ss ! k))))"
    using acctD(2) [OF a k] acctD(6) [OF a k c] by (simp add: scope_ref_of_def)
  then show "count W (int k) = 0" and "ndone ss k = length (fanout_consumers (ss ! k))"
    using ndone_le [of ss k] by linarith+
qed

lemma filter_full: "length (filter P xs) = length xs \<Longrightarrow> x \<in> set xs \<Longrightarrow> P x"
  by (metis length_filter_less less_irrefl)

lemma consumed_consumers_finished:
  assumes "acct ss W F" and "k < length ss" and "ts_state (ss ! k) = CONSUMED"
    and "c \<in> set (fanout_consumers (ss ! k))"
  shows "fin ss c"
  using consumed_settled(2) [OF assms(1-3)] assms(4) unfolding ndone_def by (rule filter_full)

text \<open>The releases still possible: below the threshold there is a reference left to drop.\<close>

lemma released_le_total:
  assumes "acct ss W F" and "k < length ss"
  shows "fanout_released (ss ! k) \<le> fanout_total (ss ! k) + 1"
  using acctD(2) [OF assms] ndone_le [of ss k] by (auto simp: scope_ref_of_def split: if_splits)

lemma filter_flip:
  assumes "distinct xs" and "\<And>x. x \<in> set xs \<Longrightarrow> x \<noteq> y \<Longrightarrow> P x = Q x" and "\<not> P y" and "Q y"
  shows "length (filter Q xs) = length (filter P xs) + (if y \<in> set xs then 1 else 0)"
  using assms(1,2)
proof (induction xs)
  case (Cons x xs)
  then show ?case
    using assms(3,4) by (cases "x = y") auto
qed simp

lemma count_mset_distinct: "distinct xs \<Longrightarrow> count (mset xs) x = (if x \<in> set xs then 1 else 0)"
  by (simp add: distinct_count_atmost_1)

lemma count_mset_notin [simp]: "x \<notin> set xs \<Longrightarrow> count (mset xs) x = 0"
  by (simp add: count_mset_0_iff)

subsection \<open>Stores that leave the graph and the finished set alone\<close>

lemma graph_inv_upd:
  assumes "graph_inv ss" and "fanin_producers s' = fanin_producers (ss ! k)"
    and "fanout_consumers s' = fanout_consumers (ss ! k)"
  shows "graph_inv (ss[k := s'])"
proof (cases "k < length ss")
  case True
  have "fanin_producers (ss[k := s'] ! j) = fanin_producers (ss ! j)"
    "fanout_consumers (ss[k := s'] ! j) = fanout_consumers (ss ! j)" for j
    using assms(2,3) True by (simp_all add: nth_list_update_if)
  then show ?thesis
    using assms(1) by (simp add: graph_inv_def)
qed (use assms in \<open>simp add: list_update_beyond\<close>)

lemma fin_upd_same: "finished s' = finished (ss ! k) \<Longrightarrow> fin (ss[k := s']) = fin ss"
  by (rule ext) (simp add: fin_def nth_list_update_if)

lemma counts_upd_same:
  assumes "finished s' = finished (ss ! k)" and "fanin_producers s' = fanin_producers (ss ! k)"
    and "fanout_consumers s' = fanout_consumers (ss ! k)"
  shows "ndone (ss[k := s']) j = ndone ss j" and "nlive (ss[k := s']) j = nlive ss j"
  using assms by (simp_all add: ndone_def nlive_def fin_upd_same nth_list_update_if)

text \<open>A slot other than the updated one keeps its account if its entries of \<open>W\<close> and \<open>F\<close> do.\<close>

lemma slot_acct_other:
  assumes "finished s' = finished (ss ! k)" and "fanin_producers s' = fanin_producers (ss ! k)"
    and "fanout_consumers s' = fanout_consumers (ss ! k)"
    and "j \<noteq> k" and "count W' (int j) = count W (int j)" and "count F' (int j) = count F (int j)"
    and "slot_acct ss W F j"
  shows "slot_acct (ss[k := s']) W' F' j"
proof -
  have "ss[k := s'] ! j = ss ! j"
    using assms(4) by simp
  then have "slot_acct (ss[k := s']) W' F' j = slot_acct ss W F j"
    by (simp only: slot_acct_def counts_upd_same [OF assms(1-3)] assms(5,6))
  then show ?thesis
    using assms(7) by simp
qed

text \<open>Generic store into one slot: the account of that slot is all there is to show.\<close>

lemma acct_upd:
  assumes a: "acct ss W F" and k: "k < length ss"
    and same: "finished s' = finished (ss ! k)" "fanin_producers s' = fanin_producers (ss ! k)"
      "fanout_consumers s' = fanout_consumers (ss ! k)"
    and W: "\<And>x. x \<noteq> int k \<Longrightarrow> count W' x = count W x" and F: "\<And>x. x \<noteq> int k \<Longrightarrow> count F' x = count F x"
    and new: "slot_acct (ss[k := s']) W' F' k"
  shows "acct (ss[k := s']) W' F'"
proof -
  have "slot_acct (ss[k := s']) W' F' j" if "j < length ss" for j
  proof (cases "j = k")
    case False
    moreover have "slot_acct ss W F j"
      using a that unfolding acct_def by blast
    ultimately show ?thesis
      using W F by (intro slot_acct_other [OF same]) simp_all
  qed (use new in simp)
  moreover have "0 \<le> x \<and> x < int (length ss)" if "x \<in># W' \<or> x \<in># F'" for x
    using that W [of x] F [of x] acct_dom [OF a, of x] k
    by (cases "x = int k") (auto simp flip: count_greater_zero_iff)
  ultimately show ?thesis
    by (simp add: acct_def)
qed

text \<open>A store that touches none of the accounting fields.\<close>

lemma acct_upd_neutral:
  assumes "acct ss W F" and "finished s' = finished (ss ! k)"
    "fanin_producers s' = fanin_producers (ss ! k)" "fanout_consumers s' = fanout_consumers (ss ! k)"
    "fanout_total s' = fanout_total (ss ! k)" "fanout_released s' = fanout_released (ss ! k)"
    "fanin_count s' = fanin_count (ss ! k)" "fanin_released s' = fanin_released (ss ! k)"
    and "ts_state s' = ts_state (ss ! k) \<or> ts_state (ss ! k) = READY \<and> ts_state s' = RUNNING"
  shows "acct (ss[k := s']) W F"
proof (cases "k < length ss")
  case True
  have "slot_acct ss W F k"
    using assms(1) True by (simp add: acct_def)
  then have "slot_acct (ss[k := s']) W F k"
    using assms(9) True unfolding slot_acct_def counts_upd_same [OF assms(2-4)] scope_ref_of_def
    by (elim disjE; simp add: assms(2-8))
  then show ?thesis
    using acct_upd [OF assms(1) True assms(2-4)] by blast
qed (use assms in \<open>simp add: list_update_beyond\<close>)

subsection \<open>Fanin release, fanout release\<close>

definition bump_fanin :: "TaskSlotState \<Rightarrow> TaskSlotState" where
  "bump_fanin s =
     (let s1 = s\<lparr>fanin_released := fanin_released s + 1\<rparr>
      in if fanin_released s + 1 \<ge> fanin_count s \<and> ts_state s = PENDING then s1\<lparr>ts_state := READY\<rparr> else s1)"

lemma bump_fanin_fields [simp]:
  "fanin_producers (bump_fanin s) = fanin_producers s" "fanout_consumers (bump_fanin s) = fanout_consumers s"
  "fanout_total (bump_fanin s) = fanout_total s" "fanout_released (bump_fanin s) = fanout_released s"
  "fanin_count (bump_fanin s) = fanin_count s" "fanin_released (bump_fanin s) = fanin_released s + 1"
  "finished (bump_fanin s) = finished s"
  by (simp_all add: bump_fanin_def Let_def finished_def)

lemma acct_bump_fanin:
  assumes a: "acct ss W F" and c: "c < length ss" and F: "int c \<in># F" and nf: "ts_state (ss ! c) \<noteq> FREE"
  shows "ts_state (ss ! c) = PENDING" and "acct (ss[c := bump_fanin (ss ! c)]) W (F - {#int c#})"
proof -
  have cnt: "0 < count F (int c)"
    using F by simp
  show p: "ts_state (ss ! c) = PENDING"
    using acctD(5) [OF a c nf] F by (metis count_eq_zero_iff)
  have cnt1: "int (count (F - {#int c#}) (int c)) = int (count F (int c)) - 1"
    using cnt by simp
  show "acct (ss[c := bump_fanin (ss ! c)]) W (F - {#int c#})"
  proof (rule acct_upd [OF a c])
    show "slot_acct (ss[c := bump_fanin (ss ! c)]) W (F - {#int c#}) c"
    proof (cases "fanin_count (ss ! c) \<le> fanin_released (ss ! c) + 1")
      case True
      then show ?thesis
        using acctD(1-4) [OF a c] p cnt1 c
        by (simp add: slot_acct_def counts_upd_same scope_ref_of_def finished_def bump_fanin_def Let_def)
    next
      case False
      then show ?thesis
        using acctD(1-4) [OF a c] p cnt1 c
        by (simp add: slot_acct_def counts_upd_same scope_ref_of_def finished_def bump_fanin_def Let_def)
    qed
  qed simp_all
qed

definition bump_fanout :: "TaskSlotState \<Rightarrow> TaskSlotState" where
  "bump_fanout s =
     (let s1 = s\<lparr>fanout_released := fanout_released s + 1\<rparr>
      in if fanout_released s + 1 \<ge> fanout_total s + 1 \<and> ts_state s = COMPLETED then s1\<lparr>ts_state := CONSUMED\<rparr> else s1)"

lemma bump_fanout_fields [simp]:
  "fanin_producers (bump_fanout s) = fanin_producers s" "fanout_consumers (bump_fanout s) = fanout_consumers s"
  "fanout_total (bump_fanout s) = fanout_total s" "fanout_released (bump_fanout s) = fanout_released s + 1"
  "fanin_count (bump_fanout s) = fanin_count s" "fanin_released (bump_fanout s) = fanin_released s"
  "finished (bump_fanout s) = finished s"
  by (auto simp: bump_fanout_def Let_def finished_def)

lemma acct_bump_fanout:
  assumes a: "acct ss W F" and k: "k < length ss" and W: "int k \<in># W"
  shows "ts_state (ss ! k) \<noteq> CONSUMED" and "acct (ss[k := bump_fanout (ss ! k)]) (W - {#int k#}) F"
proof -
  have cnt: "0 < count W (int k)"
    using W by simp
  show p: "ts_state (ss ! k) \<noteq> CONSUMED"
    using consumed_settled(1) [OF a k] W by (metis count_eq_zero_iff)
  have cnt1: "int (count (W - {#int k#}) (int k)) = int (count W (int k)) - 1"
    using cnt by simp
  have le: "ts_state (ss ! k) = COMPLETED \<Longrightarrow> fanout_released (ss ! k) \<le> fanout_total (ss ! k)"
    using acctD(2) [OF a k] cnt ndone_le [of ss k]
    by (simp add: scope_ref_of_def finished_def del: count_greater_zero_iff)
  show "acct (ss[k := bump_fanout (ss ! k)]) (W - {#int k#}) F"
  proof (rule acct_upd [OF a k])
    show "slot_acct (ss[k := bump_fanout (ss ! k)]) (W - {#int k#}) F k"
    proof (cases "ts_state (ss ! k) = COMPLETED \<and> fanout_released (ss ! k) = fanout_total (ss ! k)")
      case True
      then have "bump_fanout (ss ! k) = (ss ! k)\<lparr>fanout_released := fanout_total (ss ! k) + 1, ts_state := CONSUMED\<rparr>"
        by (simp add: bump_fanout_def)
      then show ?thesis
        using acctD(1-3,5) [OF a k] True cnt1 k
        by (simp add: slot_acct_def counts_upd_same scope_ref_of_def finished_def)
    next
      case False
      then have "bump_fanout (ss ! k) = (ss ! k)\<lparr>fanout_released := fanout_released (ss ! k) + 1\<rparr>"
        using le by (auto simp: bump_fanout_def Let_def)
      then show ?thesis
        using acctD(1-5) [OF a k] p cnt1 k le False
        by (simp add: slot_acct_def counts_upd_same scope_ref_of_def finished_def) linarith
    qed
  qed simp_all
qed

subsection \<open>Completion of a running slot\<close>

text \<open>
  Marking slot \<open>k\<close> completed makes its producers and itself owe one fanout release each, and its consumers
  one fanin release each: exactly the calls \<open>on_task_complete\<close> then makes.
\<close>

lemma acct_complete:
  assumes a: "acct ss W F" and g: "graph_inv ss" and k: "k < length ss" and run: "ts_state (ss ! k) = RUNNING"
  defines "ss' \<equiv> ss[k := (ss ! k)\<lparr>ts_state := COMPLETED\<rparr>]"
  shows "acct ss' (W + {#int k#} + mset (fanin_producers (ss ! k))) (F + mset (fanout_consumers (ss ! k)))"
proof -
  let ?W = "W + {#int k#} + mset (fanin_producers (ss ! k))" and ?F = "F + mset (fanout_consumers (ss ! k))"
  have nf: "\<not> fin ss (int k)" and f': "fin ss' (int k)"
    using run k by (simp_all add: fin_def finished_def ss'_def)
  have other: "fin ss' c = fin ss c" if "0 \<le> c" "c \<noteq> int k" for c
    using that by (auto simp: fin_def ss'_def nth_list_update_if)
  have lists: "fanin_producers (ss' ! j) = fanin_producers (ss ! j)"
    "fanout_consumers (ss' ! j) = fanout_consumers (ss ! j)" for j
    using k by (simp_all add: ss'_def nth_list_update_if)
  have nd: "ndone ss' j = ndone ss j + count (mset (fanin_producers (ss ! k))) (int j)" if j: "j < length ss" for j
  proof -
    have "ndone ss' j = ndone ss j + (if int k \<in> set (fanout_consumers (ss ! j)) then 1 else 0)"
      unfolding ndone_def lists
      using graph_invD(2,4) [OF g j] nf f' other by (intro filter_flip) auto
    then show ?thesis
      using graph_inv_edge [OF g j k] graph_invD(1) [OF g k] by (simp add: count_mset_distinct)
  qed
  have nl: "nlive ss j = nlive ss' j + count (mset (fanout_consumers (ss ! k))) (int j)" if j: "j < length ss" for j
  proof -
    have "nlive ss j = nlive ss' j + (if int k \<in> set (fanin_producers (ss ! j)) then 1 else 0)"
      unfolding nlive_def lists
      using graph_invD(1,3) [OF g j] nf f' other by (intro filter_flip) auto
    then show ?thesis
      using graph_inv_edge [OF g k j] graph_invD(2) [OF g k] by (simp add: count_mset_distinct)
  qed
  have selfp: "int k \<notin> set (fanin_producers (ss ! k))"
    using graph_invD(3) [OF g k, of "int k"] by auto
  have selfc: "int k \<notin> set (fanout_consumers (ss ! k))"
    using graph_inv_consumer_later [OF g k, of "int k"] by auto
  have "slot_acct ss' ?W ?F j" if j: "j < length ss" for j
  proof (cases "j = k")
    case True
    have "ndone ss' k = ndone ss k" "nlive ss' k = nlive ss k"
      using nd [OF k] nl [OF k] selfp selfc by simp_all
    moreover have "ss' ! k = (ss ! k)\<lparr>ts_state := COMPLETED\<rparr>"
      using k by (simp add: ss'_def)
    moreover have "fanout_released (ss ! k) \<le> fanout_total (ss ! k)"
      using acctD(2) [OF a k] run ndone_le [of ss k] by (simp add: scope_ref_of_def finished_def)
    ultimately show ?thesis
      using acctD(1-3,5) [OF a k] run True selfp selfc by (simp add: slot_acct_def scope_ref_of_def finished_def)
  next
    case False
    then have same: "ss' ! j = ss ! j" and W: "count ?W (int j) = count W (int j) + count (mset (fanin_producers (ss ! k))) (int j)"
      by (simp_all add: ss'_def)
    have F: "count ?F (int j) = count F (int j) + count (mset (fanout_consumers (ss ! k))) (int j)"
      by simp
    have done0: "count (mset (fanout_consumers (ss ! k))) (int j) = 0"
      if "ts_state (ss ! j) \<noteq> FREE" "ts_state (ss ! j) \<noteq> PENDING"
      using acctD(5) [OF a j that] nl [OF j] by linarith
    show ?thesis
      unfolding slot_acct_def same W F nd [OF j]
      using acctD [OF a j] nl [OF j] done0 by (intro conjI impI) simp_all
  qed
  moreover have "0 \<le> x \<and> x < int (length ss)" if "x \<in># ?W \<or> x \<in># ?F" for x
    using that acct_dom [OF a, of x] k graph_invD(3,4) [OF g k, of x] by auto
  moreover have len: "length ss' = length ss"
    by (simp add: ss'_def)
  ultimately show ?thesis
    unfolding acct_def len by blast
qed

subsection \<open>Building a new slot\<close>

text \<open>The slot \<open>Ring::alloc\<close> appends: free, unconnected, nothing counted.\<close>

definition blank :: "TaskSlotState \<Rightarrow> bool" where
  "blank s \<longleftrightarrow> ts_state s = FREE \<and> fanin_producers s = [] \<and> fanout_consumers s = []
     \<and> fanout_total s = 0 \<and> fanout_released s = 0"

lemma fin_append: "0 \<le> c \<Longrightarrow> c < int (length ss) \<Longrightarrow> fin (ss @ xs) c = fin ss c"
  by (simp add: fin_def nth_append nat_less_iff)

lemma graph_inv_append:
  assumes g: "graph_inv ss" and b: "blank s0"
  shows "graph_inv (ss @ [s0])"
  unfolding graph_inv_def
proof (intro conjI allI impI)
  fix k assume k: "k < length (ss @ [s0])"
  show "distinct (fanin_producers ((ss @ [s0]) ! k))" "distinct (fanout_consumers ((ss @ [s0]) ! k))"
    "\<forall>p \<in> set (fanin_producers ((ss @ [s0]) ! k)). 0 \<le> p \<and> p < int k"
    "\<forall>c \<in> set (fanout_consumers ((ss @ [s0]) ! k)). 0 \<le> c \<and> c < int (length (ss @ [s0]))"
    using graph_invD [OF g, of k] b k by (cases "k < length ss"; force simp: nth_append blank_def)+
next
  fix p c assume "p < length (ss @ [s0])" "c < length (ss @ [s0])"
  then show "int p \<in> set (fanin_producers ((ss @ [s0]) ! c)) \<longleftrightarrow> int c \<in> set (fanout_consumers ((ss @ [s0]) ! p))"
    using graph_inv_edge [OF g, of p c] graph_invD(3) [OF g, of c "int p"] graph_invD(4) [OF g, of p "int c"] b
    by (auto simp: nth_append blank_def not_less split: if_splits)
qed

lemma acct_append:
  assumes a: "acct ss W F" and g: "graph_inv ss" and b: "blank s0"
  shows "acct (ss @ [s0]) W F"
proof -
  let ?ss = "ss @ [s0]"
  have "slot_acct ?ss W F k" if k: "k < length ?ss" for k
  proof (cases "k < length ss")
    case True
    have "filter (fin ?ss) (fanout_consumers (ss ! k)) = filter (fin ss) (fanout_consumers (ss ! k))"
      using graph_invD(4) [OF g True] by (intro filter_cong) (auto simp: fin_append)
    moreover have "0 \<le> p \<and> p < int (length ss)" if "p \<in> set (fanin_producers (ss ! k))" for p
      using graph_invD(3) [OF g True that] True by simp
    then have "filter (\<lambda>p. \<not> fin ?ss p) (fanin_producers (ss ! k)) = filter (\<lambda>p. \<not> fin ss p) (fanin_producers (ss ! k))"
      by (intro filter_cong) (auto simp: fin_append)
    ultimately have "ndone ?ss k = ndone ss k" "nlive ?ss k = nlive ss k"
      using True by (simp_all add: ndone_def nlive_def nth_append)
    then have "slot_acct ?ss W F k = slot_acct ss W F k"
      using True by (simp add: slot_acct_def nth_append)
    then show ?thesis
      using a True unfolding acct_def by blast
  next
    case False
    then have "k = length ss"
      using k by simp
    moreover have "count W (int (length ss)) = 0"
      using acct_dom(1) [OF a, of "int (length ss)"] by (auto simp: count_eq_zero_iff)
    ultimately show ?thesis
      using b by (simp add: slot_acct_def blank_def scope_ref_of_def finished_def ndone_def)
  qed
  moreover have "0 \<le> x \<and> x < int (length ?ss)" if "x \<in># W \<or> x \<in># F" for x
    using that acct_dom [OF a, of x] by auto
  ultimately show ?thesis
    unfolding acct_def by blast
qed

text \<open>Wiring the last, still free slot \<open>n\<close> to a producer \<open>p\<close> that is not consumed.\<close>

definition wire :: "nat \<Rightarrow> nat \<Rightarrow> TaskSlotState list \<Rightarrow> TaskSlotState list" where
  "wire n p ss =
     (let s1 = ss[p := (ss ! p)\<lparr>fanout_consumers := fanout_consumers (ss ! p) @ [int n],
                               fanout_total := fanout_total (ss ! p) + 1\<rparr>]
      in s1[n := (s1 ! n)\<lparr>fanin_producers := fanin_producers (s1 ! n) @ [int p]\<rparr>])"

lemma length_wire [simp]: "length (wire n p ss) = length ss"
  by (simp add: wire_def Let_def)

lemma wire_nth:
  assumes "p < n" and "n < length ss"
  shows "wire n p ss ! j =
    (if j = p then (ss ! p)\<lparr>fanout_consumers := fanout_consumers (ss ! p) @ [int n], fanout_total := fanout_total (ss ! p) + 1\<rparr>
     else if j = n then (ss ! n)\<lparr>fanin_producers := fanin_producers (ss ! n) @ [int p]\<rparr> else ss ! j)"
  using assms by (auto simp: wire_def Let_def nth_list_update_if)

lemma fin_wire: "p < n \<Longrightarrow> n < length ss \<Longrightarrow> fin (wire n p ss) = fin ss"
  by (rule ext) (simp add: fin_def wire_nth finished_def)

lemma graph_inv_wire:
  assumes g: "graph_inv ss" and n: "length ss = Suc n" and p: "p < n" and new: "int p \<notin> set (fanin_producers (ss ! n))"
  shows "graph_inv (wire n p ss)"
proof -
  have nl: "n < length ss" and pl: "p < length ss"
    using n p by simp_all
  have nc: "int n \<notin> set (fanout_consumers (ss ! p))"
    using graph_inv_edge [OF g pl nl] new by simp
  note w = wire_nth [OF p nl]
  show ?thesis
    unfolding graph_inv_def
  proof (intro conjI allI impI)
    fix k assume "k < length (wire n p ss)"
    then have k: "k < length ss"
      by simp
    show "distinct (fanin_producers (wire n p ss ! k))" "distinct (fanout_consumers (wire n p ss ! k))"
      "\<forall>q \<in> set (fanin_producers (wire n p ss ! k)). 0 \<le> q \<and> q < int k"
      "\<forall>c \<in> set (fanout_consumers (wire n p ss ! k)). 0 \<le> c \<and> c < int (length (wire n p ss))"
      using graph_invD [OF g k] new nc p n by (auto simp: w)
  next
    fix q c assume "q < length (wire n p ss)" "c < length (wire n p ss)"
    then have "q < length ss" "c < length ss"
      by simp_all
    from graph_inv_edge [OF g this]
    show "int q \<in> set (fanin_producers (wire n p ss ! c)) \<longleftrightarrow> int c \<in> set (fanout_consumers (wire n p ss ! q))"
      using p by (auto simp: w)
  qed
qed

lemma nlive_wire:
  assumes "p < n" and "n < length ss"
  shows "nlive (wire n p ss) n = nlive ss n + (if finished (ss ! p) then 0 else 1)"
  using assms by (simp add: nlive_def wire_nth fin_wire) (simp add: fin_def)

lemma acct_wire:
  assumes a: "acct ss W F" and n: "length ss = Suc n" and p: "p < n" and free: "ts_state (ss ! n) = FREE"
    and alive: "ts_state (ss ! p) \<noteq> CONSUMED"
  shows "acct (wire n p ss) W F"
proof -
  have nl: "n < length ss" and pl: "p < length ss"
    using n p by simp_all
  note w = wire_nth [OF p nl]
  have fn: "\<not> fin ss (int n)"
    using free by (simp add: fin_def finished_def)
  have nd: "ndone (wire n p ss) j = ndone ss j" for j
    using p fn by (auto simp: ndone_def fin_wire [OF p nl] w)
  have "slot_acct (wire n p ss) W F j" if j: "j < length ss" for j
  proof -
    consider "j = p" | "j = n" | "j \<noteq> p" "j \<noteq> n"
      by blast
    then show ?thesis
    proof cases
      case 1
      then have "nlive (wire n p ss) j = nlive ss j"
        using p by (simp add: nlive_def fin_wire [OF p nl] w)
      then show ?thesis
        using acctD [OF a pl] released_le_total [OF a pl] 1 alive
        by (simp add: slot_acct_def nd w scope_ref_of_def finished_def)
    next
      case 2
      then show ?thesis
        using acctD(1,2) [OF a nl] p free by (simp add: slot_acct_def nd w scope_ref_of_def finished_def)
    next
      case 3
      then have "nlive (wire n p ss) j = nlive ss j"
        by (simp add: nlive_def fin_wire [OF p nl] w)
      then have "slot_acct (wire n p ss) W F j = slot_acct ss W F j"
        using 3 by (simp add: slot_acct_def nd w)
      then show ?thesis
        using a j unfolding acct_def by blast
    qed
  qed
  then show ?thesis
    using a unfolding acct_def length_wire by blast
qed

text \<open>Publishing the wired slot: its counters, its scope reference, and its first state.\<close>

definition publish :: "int \<Rightarrow> TaskSlotState list \<Rightarrow> nat \<Rightarrow> TaskSlotState" where
  "publish sref ss n = (ss ! n)\<lparr>fanin_count := int (nlive ss n), fanin_released := 0, fanout_total := sref,
     fanout_released := 0, ts_state := (if nlive ss n = 0 then READY else PENDING)\<rparr>"

lemma last_no_consumers:
  assumes "graph_inv ss" and "length ss = Suc n"
  shows "fanout_consumers (ss ! n) = []"
proof -
  have "False" if "c \<in> set (fanout_consumers (ss ! n))" for c
    using graph_inv_consumer_later [OF assms(1) _ that] graph_invD(4) [OF assms(1) _ that] assms(2) by simp
  then show ?thesis
    by (metis all_not_in_conv list.set_intros(1) neq_Nil_conv set_empty)
qed

lemma acct_publish:
  assumes a: "acct ss W {#}" and g: "graph_inv ss" and n: "length ss = Suc n" and free: "ts_state (ss ! n) = FREE"
    and zero: "fanout_total (ss ! n) = 0" "fanout_released (ss ! n) = 0" and sref: "sref = 0 \<or> sref = 1"
  shows "acct (ss[n := publish sref ss n]) (W + (if sref = 1 then {#int n#} else {#})) {#}"
proof (rule acct_upd [OF a])
  have nc: "fanout_consumers (ss ! n) = []"
    by (rule last_no_consumers [OF g n])
  have W0: "count W (int n) = 0"
    using acctD(2) [OF a, of n] n free zero nc by (simp add: scope_ref_of_def finished_def ndone_def)
  have same: "finished (publish sref ss n) = finished (ss ! n)" "fanin_producers (publish sref ss n) = fanin_producers (ss ! n)"
    "fanout_consumers (publish sref ss n) = fanout_consumers (ss ! n)"
    using free by (simp_all add: publish_def finished_def)
  then show "finished (publish sref ss n) = finished (ss ! n)" "fanin_producers (publish sref ss n) = fanin_producers (ss ! n)"
    "fanout_consumers (publish sref ss n) = fanout_consumers (ss ! n)"
    by simp_all
  show "slot_acct (ss[n := publish sref ss n]) (W + (if sref = 1 then {#int n#} else {#})) {#} n"
    unfolding slot_acct_def counts_upd_same [OF same]
    using n sref W0 nc free by (auto simp: publish_def scope_ref_of_def finished_def ndone_def)
qed (use n in auto)

text \<open>\<open>Orchestrator::alloc\<close> publishes its slot directly as completed.\<close>

definition publish_alloc :: "int \<Rightarrow> TaskSlotState \<Rightarrow> TaskSlotState" where
  "publish_alloc sref s = s\<lparr>fanin_count := 0, fanin_released := 0, fanout_total := sref, fanout_released := 1,
     ts_state := COMPLETED\<rparr>"

lemma acct_publish_alloc:
  assumes a: "acct ss W {#}" and g: "graph_inv ss" and n: "length ss = Suc n" and b: "blank (ss ! n)"
    and sref: "sref = 0 \<or> sref = 1"
  shows "acct (ss[n := publish_alloc sref (ss ! n)]) (W + (if sref = 1 then {#int n#} else {#})) {#}"
proof -
  let ?ss = "ss[n := publish_alloc sref (ss ! n)]" and ?W = "W + (if sref = 1 then {#int n#} else {#})"
  have nl: "n < length ss"
    using n by simp
  have W0: "count W (int n) = 0"
    using acctD(2) [OF a nl] b by (simp add: scope_ref_of_def finished_def ndone_def blank_def)
  have lists: "fanin_producers (?ss ! j) = fanin_producers (ss ! j)" "fanout_consumers (?ss ! j) = fanout_consumers (ss ! j)" for j
    using nl by (simp_all add: nth_list_update_if publish_alloc_def)
  have fin: "fin ?ss c = fin ss c" if "0 \<le> c" "c \<noteq> int n" for c
    using that by (auto simp: fin_def nth_list_update_if)
  have unref: "int n \<notin> set (fanout_consumers (ss ! j))" "int n \<notin> set (fanin_producers (ss ! j))" if "j < length ss" for j
    using graph_inv_edge [OF g that nl] b graph_invD(3) [OF g that, of "int n"] that n by (auto simp: blank_def)
  have "slot_acct ?ss ?W {#} j" if j: "j < length ss" for j
  proof (cases "j = n")
    case True
    then show ?thesis
      using nl sref W0 b by (auto simp: slot_acct_def ndone_def nlive_def scope_ref_of_def finished_def
          blank_def publish_alloc_def)
  next
    case False
    have "filter (fin ?ss) (fanout_consumers (ss ! j)) = filter (fin ss) (fanout_consumers (ss ! j))"
      using graph_invD(4) [OF g j] unref(1) [OF j] by (intro filter_cong refl fin) auto
    moreover have "filter (\<lambda>p. \<not> fin ?ss p) (fanin_producers (ss ! j)) = filter (\<lambda>p. \<not> fin ss p) (fanin_producers (ss ! j))"
      using graph_invD(3) [OF g j] unref(2) [OF j] by (intro filter_cong refl arg_cong [where f = Not] fin) auto
    ultimately have "ndone ?ss j = ndone ss j" "nlive ?ss j = nlive ss j"
      by (simp_all add: ndone_def nlive_def lists)
    then have "slot_acct ?ss ?W {#} j = slot_acct ss W {#} j"
      using False by (auto simp: slot_acct_def)
    then show ?thesis
      using a j unfolding acct_def by blast
  qed
  then show ?thesis
    using a nl by (auto simp: acct_def)
qed

end
