(* ===== verification/HierInv.thy ===== *)
theory HierInv
  imports HierSched HierAccount HierRingRuns
begin

text \<open>
  The engine invariant. \<open>eng_inv E W F\<close> holds at every point of an operation, with the releases still owed in
  \<open>W\<close> and \<open>F\<close>; between operations \<open>W\<close> is the multiset of scope references and \<open>F\<close> is empty
  (\<open>engine_inv\<close>). Its parts: the slot graph and the counters (theory \<open>HierAccount\<close>), the ready queues hold
  exactly the ready slots of their type, the tensor map points at unconsumed slots that own the key, a slot is
  released in the ring exactly when it is consumed, every running slot is accounted for by dispatches in flight
  or by its entry in the completion queue, and the active count is at least the number of unconsumed slots.
\<close>

definition queue_inv :: "Engine \<Rightarrow> bool" where
  "queue_inv E \<longleftrightarrow> (\<forall>t. distinct (rq_q (ready_queue_for t E))
     \<and> set (rq_q (ready_queue_for t E))
         = {int k |k. k < length (slots E) \<and> ts_state (slots E ! k) = READY \<and> worker_type (slots E ! k) = t})"

definition tm_inv :: "Engine \<Rightarrow> bool" where
  "tm_inv E \<longleftrightarrow> (\<forall>key p. e_tm E key = Some p \<longrightarrow>
     0 \<le> p \<and> p < int (length (slots E)) \<and> key \<in> set (output_keys (slots E ! nat p))
     \<and> ts_state (slots E ! nat p) \<noteq> CONSUMED)"

definition ring_sync :: "Engine \<Rightarrow> bool" where
  "ring_sync E \<longleftrightarrow> (\<exists>G. ring_inv (e_ring E) G)
     \<and> (\<forall>k < length (slots E). slot_released (e_ring E) k \<longleftrightarrow> ts_state (slots E ! k) = CONSUMED)"

definition unconsumed :: "Engine \<Rightarrow> nat" where
  "unconsumed E = length (filter (\<lambda>s. ts_state s \<noteq> CONSUMED) (slots E))"

definition leak :: "Engine \<Rightarrow> int" where
  "leak E = e_active E - int (unconsumed E)"

definition inflight :: "WorkerManager \<Rightarrow> WorkerDispatch multiset" where
  "inflight m = mset (concat (map wt_queue (next_level_threads m @ sub_threads m)))"

definition flights :: "WorkerManager \<Rightarrow> TaskSlot \<Rightarrow> nat" where
  "flights m k = count (image_mset wd_task_slot (inflight m)) k"

definition slot_work :: "TaskSlotState \<Rightarrow> nat \<Rightarrow> bool \<Rightarrow> bool" where
  "slot_work s fl dn \<longleftrightarrow>
     (ts_state s = RUNNING \<longrightarrow>
        (if is_group s then int fl + sub_complete_count s = int (group_size s)
             \<and> (dn \<longleftrightarrow> sub_complete_count s = int (group_size s))
         else fl = (if dn then 0 else 1)))
   \<and> (ts_state s \<noteq> RUNNING \<longrightarrow> fl = 0 \<and> \<not> dn)
   \<and> (ts_state s = FREE \<or> ts_state s = PENDING \<or> ts_state s = READY \<longrightarrow> sub_complete_count s = 0)
   \<and> (is_group s \<longrightarrow> 0 < group_size s)"

definition work_inv :: "Engine \<Rightarrow> bool" where
  "work_inv E \<longleftrightarrow> distinct (e_completion E)
     \<and> (\<forall>x \<in> set (e_completion E). 0 \<le> x \<and> x < int (length (slots E)))
     \<and> (\<forall>d \<in># inflight (e_wm E). 0 \<le> wd_task_slot d \<and> wd_task_slot d < int (length (slots E))
           \<and> wd_group_index d < group_size (slots E ! nat (wd_task_slot d)))
     \<and> (\<forall>k < length (slots E). slot_work (slots E ! k) (flights (e_wm E) (int k)) (int k \<in> set (e_completion E)))"

definition eng_inv :: "Engine \<Rightarrow> int multiset \<Rightarrow> int multiset \<Rightarrow> bool" where
  "eng_inv E W F \<longleftrightarrow> graph_inv (slots E) \<and> acct (slots E) W F \<and> queue_inv E \<and> tm_inv E \<and> ring_sync E
     \<and> work_inv E \<and> 0 \<le> leak E"

definition no_free :: "Engine \<Rightarrow> bool" where
  "no_free E \<longleftrightarrow> (\<forall>s \<in> set (slots E). ts_state s \<noteq> FREE)"

definition engine_inv :: "Engine \<Rightarrow> bool" where
  "engine_inv E \<longleftrightarrow> eng_inv E (mset (concat (e_scope E))) {#} \<and> no_free E"

lemma eng_invD:
  assumes "eng_inv E W F"
  shows "graph_inv (slots E)" "acct (slots E) W F" "queue_inv E" "tm_inv E" "ring_sync E" "work_inv E" "0 \<le> leak E"
  using assms unfolding eng_inv_def by blast+

subsection \<open>Slot access\<close>

lemma slot_state_valid:
  assumes "k < length (slots E)"
  shows "orch_slot_state (int k) E = Inr (slots E ! k)" and "sched_slot_state (int k) E = Inr (slots E ! k)"
  using assms by (simp_all add: orch_slot_state_def sched_slot_state_def ring_slot_state_def slots_def)

lemma length_slots_upd [simp]: "length (slots (upd_slot k f E)) = length (slots E)"
  by simp

lemma ring_inv_slots:
  assumes "ring_inv R G" and "map slot_pos ss = map slot_pos (slot_states R)"
  shows "ring_inv (R\<lparr>slot_states := ss\<rparr>) G"
proof -
  have "length ss = length (slot_states R)"
    using assms(2) map_eq_imp_length_eq by blast
  moreover have "slot_pos ` set ss = slot_pos ` set (slot_states R)"
    using assms(2) by (metis list.set_map)
  ultimately show ?thesis
    using assms by (simp add: ring_inv_def)
qed

lemma slot_released_slots:
  assumes "map slot_pos ss = map slot_pos (slot_states R)" and "k < length ss"
  shows "slot_released (R\<lparr>slot_states := ss\<rparr>) k = slot_released R k"
proof -
  have "slot_pos (ss ! k) = slot_pos (slot_states R ! k)"
    using assms by (metis length_map nth_map)
  then show ?thesis
    by (simp add: slot_released_def Let_def slot_pos_def)
qed

lemma map_pos_upd:
  assumes "slot_pos s' = slot_pos (ss ! k)"
  shows "map slot_pos (ss[k := s']) = map slot_pos ss"
  using assms by (cases "k < length ss") (simp_all add: map_update list_update_beyond list_update_same_conv)

lemma ring_upd_slot:
  assumes "slot_pos (f (slots E ! nat k)) = slot_pos (slots E ! nat k)"
  shows "ring_inv (e_ring E) G \<Longrightarrow> ring_inv (e_ring (upd_slot k f E)) G"
    and "j < length (slots E) \<Longrightarrow> slot_released (e_ring (upd_slot k f E)) j = slot_released (e_ring E) j"
  using map_pos_upd [OF assms] ring_inv_slots slot_released_slots
  by (simp_all add: upd_slot_def slots_def)

lemma unconsumed_upd:
  assumes "k < length ss"
  shows "length (filter P (ss[k := s'])) + (if P (ss ! k) then 1 else 0) = length (filter P ss) + (if P s' then 1 else 0)"
  using assms
proof (induction ss arbitrary: k)
  case (Cons s ss)
  then show ?case
    by (cases k) auto
qed simp

subsection \<open>Dropping one fanout reference\<close>

text \<open>The engine after \<open>try_consume\<close> or \<open>release_ref\<close> of slot \<open>k\<close>.\<close>

definition consume_to :: "nat \<Rightarrow> Engine \<Rightarrow> Engine" where
  "consume_to k E =
     (let s = slots E ! k; s' = bump_fanout s; E1 = upd_slot (int k) (\<lambda>_. s') E
      in if ts_state s' = CONSUMED \<and> ts_state s = COMPLETED
         then E1\<lparr>e_tm := erase_task_outputs (output_keys s) (e_tm E), e_ring := ring_release (int k) (e_ring E1),
                 e_active := e_active E - 1\<rparr>
         else E1)"

lemma upd_slot_twice:
  "upd_slot k g (upd_slot k f E) = upd_slot k (\<lambda>s. g (f (slots E ! nat k))) E"
proof (cases "nat k < length (slots E)")
  case True
  then show ?thesis
    by (simp add: upd_slot_def slots_def)
next
  case False
  then show ?thesis
    by (simp add: upd_slot_def slots_def list_update_beyond)
qed

lemma upd_slot_cong: "f (slots E ! nat k) = g (slots E ! nat k) \<Longrightarrow> upd_slot k f E = upd_slot k g E"
  by (simp add: upd_slot_def)

lemma consume_eq:
  assumes "k < length (slots E)"
  shows "try_consume (int k) E = (Inr (), consume_to k E)" and "release_ref (int k) E = (Inr (), consume_to k E)"
proof -
  let ?s = "slots E ! k" and ?r = "fanout_released (slots E ! k) + 1"
  let ?E1 = "upd_slot (int k) (\<lambda>s. s\<lparr>fanout_released := ?r\<rparr>) E"
  have st: "orch_slot_state (int k) ?E1 = Inr (?s\<lparr>fanout_released := ?r\<rparr>)"
    using slot_state_valid(1) [of k ?E1] assms by simp
  have two: "upd_slot (int k) (\<lambda>s. s\<lparr>ts_state := CONSUMED\<rparr>) ?E1
      = upd_slot (int k) (\<lambda>_. ?s\<lparr>fanout_released := ?r, ts_state := CONSUMED\<rparr>) E"
    by (simp add: upd_slot_twice)
  have one: "?E1 = upd_slot (int k) (\<lambda>_. ?s\<lparr>fanout_released := ?r\<rparr>) E"
    by (rule upd_slot_cong) simp
  show "try_consume (int k) E = (Inr (), consume_to k E)"
    using slot_state_valid(2) [OF assms] st two one
    by (simp add: try_consume_def consume_to_def on_consumed_def bump_fanout_def Let_def)
  show "release_ref (int k) E = (Inr (), consume_to k E)"
    using slot_state_valid(1) [OF assms] st two one
    by (auto simp: release_ref_def consume_to_def on_consumed_def bump_fanout_def Let_def)
qed

lemma consume_to_simps:
  assumes "k < length (slots E)"
  shows "slots (consume_to k E) = (slots E)[k := bump_fanout (slots E ! k)]"
    and "e_scope (consume_to k E) = e_scope E" "e_wm (consume_to k E) = e_wm E"
    and "e_completion (consume_to k E) = e_completion E" "ready_queue_for t (consume_to k E) = ready_queue_for t E"
  by (simp_all add: consume_to_def Let_def slots_def ready_queue_for_def split: WorkerType.split)
    (simp_all add: upd_slot_def slots_def)

lemma slot_pos_simps [simp]:
  "slot_pos (bump_fanout s) = slot_pos s" "slot_pos (bump_fanin s) = slot_pos s"
  "slot_pos (s\<lparr>ts_state := v\<rparr>) = slot_pos s" "slot_pos (s\<lparr>sub_complete_count := n\<rparr>) = slot_pos s"
  by (simp_all add: slot_pos_def bump_fanout_def bump_fanin_def Let_def)

lemma bump_fanout_work [simp]:
  "output_keys (bump_fanout s) = output_keys s" "worker_type (bump_fanout s) = worker_type s"
  "is_group (bump_fanout s) = is_group s" "group_size (bump_fanout s) = group_size s"
  "sub_complete_count (bump_fanout s) = sub_complete_count s"
  by (simp_all add: bump_fanout_def Let_def group_size_def)

lemma bump_fanout_state:
  "ts_state (bump_fanout s) = ts_state s \<or> ts_state s = COMPLETED \<and> ts_state (bump_fanout s) = CONSUMED"
  by (simp add: bump_fanout_def Let_def)

lemma bump_fanout_state_iff:
  "v \<noteq> COMPLETED \<Longrightarrow> v \<noteq> CONSUMED \<Longrightarrow> ts_state (bump_fanout s) = v \<longleftrightarrow> ts_state s = v"
  using bump_fanout_state [of s] by auto

lemma slot_work_cong:
  assumes "is_group s' = is_group s" "group_size s' = group_size s" "sub_complete_count s' = sub_complete_count s"
    and "ts_state s' = ts_state s \<or> ts_state s = COMPLETED \<and> ts_state s' = CONSUMED
      \<or> ts_state s = PENDING \<and> ts_state s' = READY"
  shows "slot_work s fl dn \<Longrightarrow> slot_work s' fl dn"
  using assms(4) by (auto simp: slot_work_def assms(1-3))

lemma work_inv_upd:
  assumes "work_inv E" and "slots E' = (slots E)[k := s']" and "e_wm E' = e_wm E" and "e_completion E' = e_completion E"
    and "group_size s' = group_size (slots E ! k)"
    and "slot_work (slots E ! k) (flights (e_wm E) (int k)) (int k \<in> set (e_completion E))
      \<Longrightarrow> slot_work s' (flights (e_wm E) (int k)) (int k \<in> set (e_completion E))"
  shows "work_inv E'"
  using assms unfolding work_inv_def
  by (auto simp: nth_list_update_if)

lemma tm_inv_upd:
  assumes "tm_inv E" and "slots E' = (slots E)[k := s']" and "output_keys s' = output_keys (slots E ! k)"
    and "\<And>key p. e_tm E' key = Some p \<Longrightarrow> e_tm E key = Some p \<and> (p = int k \<longrightarrow> ts_state s' \<noteq> CONSUMED)"
  shows "tm_inv E'"
  unfolding tm_inv_def
proof (intro allI impI)
  fix key p assume a: "e_tm E' key = Some p"
  then have *: "e_tm E key = Some p" "p = int k \<longrightarrow> ts_state s' \<noteq> CONSUMED"
    using assms(4) by blast+
  then have "0 \<le> p \<and> p < int (length (slots E)) \<and> key \<in> set (output_keys (slots E ! nat p))
      \<and> ts_state (slots E ! nat p) \<noteq> CONSUMED"
    using assms(1) unfolding tm_inv_def by blast
  then show "0 \<le> p \<and> p < int (length (slots E')) \<and> key \<in> set (output_keys (slots E' ! nat p))
      \<and> ts_state (slots E' ! nat p) \<noteq> CONSUMED"
    using * assms(2,3) by (auto simp: nth_list_update_if)
qed

lemma queue_inv_upd:
  assumes "queue_inv E" and "slots E' = (slots E)[k := s']" and "\<And>t. ready_queue_for t E' = ready_queue_for t E"
    and "worker_type s' = worker_type (slots E ! k)" and "ts_state s' = READY \<longleftrightarrow> ts_state (slots E ! k) = READY"
  shows "queue_inv E'"
proof -
  have "ts_state (slots E' ! j) = READY \<and> worker_type (slots E' ! j) = t
      \<longleftrightarrow> ts_state (slots E ! j) = READY \<and> worker_type (slots E ! j) = t" for j t
    using assms(2,4,5) by (auto simp: nth_list_update_if)
  then show ?thesis
    using assms(1-3) by (simp add: queue_inv_def)
qed

lemma consume_to_inv:
  assumes inv: "eng_inv E W F" and k: "k < length (slots E)" and W: "int k \<in># W"
  shows "eng_inv (consume_to k E) (W - {#int k#}) F" and "leak (consume_to k E) = leak E"
proof -
  let ?E = "consume_to k E" and ?s = "slots E ! k" and ?s' = "bump_fanout (slots E ! k)"
  note I = eng_invD [OF inv]
  note ss = consume_to_simps [OF k]
  have nc: "ts_state ?s \<noteq> CONSUMED"
    using acct_bump_fanout(1) [OF I(2) k W] .
  obtain G where G: "ring_inv (e_ring E) G"
    using I(5) unfolding ring_sync_def by blast
  let ?E1 = "upd_slot (int k) (\<lambda>_. ?s') E"
  have R1: "ring_inv (e_ring ?E1) G" and rel1: "\<And>j. j < length (slots E) \<Longrightarrow> slot_released (e_ring ?E1) j = slot_released (e_ring E) j"
    using ring_upd_slot [of "\<lambda>_. ?s'" E "int k"] G by simp_all
  have sync: "ring_sync ?E"
  proof (cases "ts_state ?s' = CONSUMED")
    case True
    then have e: "e_ring ?E = ring_release (int k) (e_ring ?E1)"
      using nc bump_fanout_state [of ?s] by (simp add: consume_to_def Let_def)
    have "slot_released (e_ring ?E) j \<longleftrightarrow> slot_released (e_ring E) j \<or> j = k" if "j < length (slots E)" for j
      unfolding e using slot_released_release [OF R1, of j "int k"] that rel1 [OF that]
      by (auto simp: slots_def upd_slot_def)
    moreover have "\<exists>G. ring_inv (e_ring ?E) G"
      unfolding e using ring_inv_release [OF R1] by blast
    ultimately show ?thesis
      using I(5) True k by (auto simp: ring_sync_def ss nth_list_update_if)
  next
    case False
    then have "e_ring ?E = e_ring ?E1"
      by (simp add: consume_to_def Let_def)
    then show ?thesis
      using I(5) R1 rel1 False nc k by (auto simp: ring_sync_def ss nth_list_update_if)
  qed
  have tm: "tm_inv ?E"
  proof (rule tm_inv_upd [OF I(4) ss(1)])
    fix key p assume a: "e_tm ?E key = Some p"
    show "e_tm E key = Some p \<and> (p = int k \<longrightarrow> ts_state ?s' \<noteq> CONSUMED)"
    proof (cases "ts_state ?s' = CONSUMED")
      case True
      then have "e_tm ?E = erase_task_outputs (output_keys ?s) (e_tm E)"
        using nc bump_fanout_state [of ?s] by (simp add: consume_to_def Let_def)
      then have "e_tm E key = Some p" "key \<notin> set (output_keys ?s)"
        using a by (auto simp: erase_task_outputs_apply split: if_splits)
      moreover from this have "p \<noteq> int k"
        using I(4) unfolding tm_inv_def by fastforce
      ultimately show ?thesis by simp
    next
      case False
      then show ?thesis
        using a by (simp add: consume_to_def Let_def)
    qed
  qed simp
  have q: "queue_inv ?E"
    by (rule queue_inv_upd [OF I(3) ss(1) ss(5)]) (simp_all add: bump_fanout_state_iff)
  have w: "work_inv ?E"
    by (rule work_inv_upd [OF I(6) ss(1,3,4)]) (use bump_fanout_state [of ?s] in \<open>auto intro: slot_work_cong\<close>)
  show leak: "leak ?E = leak E"
  proof (cases "ts_state ?s' = CONSUMED")
    case True
    then have "e_active ?E = e_active E - 1"
      using nc bump_fanout_state [of ?s] by (simp add: consume_to_def Let_def)
    then show ?thesis
      using unconsumed_upd [OF k, of "\<lambda>s. ts_state s \<noteq> CONSUMED" ?s'] nc True by (simp add: leak_def unconsumed_def ss)
  next
    case False
    then have "e_active ?E = e_active E"
      by (simp add: consume_to_def Let_def)
    then show ?thesis
      using unconsumed_upd [OF k, of "\<lambda>s. ts_state s \<noteq> CONSUMED" ?s'] nc False by (simp add: leak_def unconsumed_def ss)
  qed
  show "eng_inv ?E (W - {#int k#}) F"
    using acct_bump_fanout(2) [OF I(2) k W] graph_inv_upd [OF I(1), of ?s' k] sync tm q w leak I(7)
    by (simp add: eng_inv_def ss)
qed


text \<open>What the release loops leave alone.\<close>

definition same_frame :: "Engine \<Rightarrow> Engine \<Rightarrow> bool" where
  "same_frame E E' \<longleftrightarrow> e_scope E' = e_scope E \<and> e_completion E' = e_completion E \<and> e_wm E' = e_wm E
     \<and> leak E' = leak E \<and> map fanin_producers (slots E') = map fanin_producers (slots E)"

lemma same_frame_refl [simp]: "same_frame E E"
  by (simp add: same_frame_def)

lemma same_frame_trans: "same_frame E E' \<Longrightarrow> same_frame E' E'' \<Longrightarrow> same_frame E E''"
  by (simp add: same_frame_def)

lemma same_frame_length: "same_frame E E' \<Longrightarrow> length (slots E') = length (slots E)"
  using map_eq_imp_length_eq by (auto simp: same_frame_def)

lemma same_frame_producers:
  "same_frame E E' \<Longrightarrow> k < length (slots E) \<Longrightarrow> fanin_producers (slots E' ! k) = fanin_producers (slots E ! k)"
  by (metis length_map nth_map same_frame_def)

lemma map_upd_same: "f s' = f (ss ! k) \<Longrightarrow> map f (ss[k := s']) = map f ss"
  by (cases "k < length ss") (simp_all add: map_update list_update_beyond list_update_same_conv)

lemma no_free_upd:
  "no_free E \<Longrightarrow> slots E' = (slots E)[k := s'] \<Longrightarrow> ts_state s' \<noteq> FREE \<Longrightarrow> no_free E'"
  using set_update_subset_insert [of "slots E" k s'] by (auto simp: no_free_def)

lemma consume_to_frame:
  assumes inv: "eng_inv E W F" and k: "k < length (slots E)" and W: "int k \<in># W" and nf: "no_free E"
  shows "same_frame E (consume_to k E)" and "no_free (consume_to k E)"
proof -
  show "same_frame E (consume_to k E)"
    using consume_to_inv(2) [OF inv k W] by (simp add: same_frame_def consume_to_simps [OF k] map_upd_same)
  have "ts_state (bump_fanout (slots E ! k)) \<noteq> FREE"
    using nf k bump_fanout_state_iff [of FREE "slots E ! k"] by (simp add: no_free_def)
  then show "no_free (consume_to k E)"
    using no_free_upd [OF nf consume_to_simps(1) [OF k]] by simp
qed

text \<open>A loop of \<open>try_consume\<close> (or \<open>release_ref\<close>) calls pays off the references it names.\<close>

lemma consume_loop:
  assumes f: "\<And>k E. k < length (slots E) \<Longrightarrow> f (int k) E = (Inr (), consume_to k E)"
    and inv: "eng_inv E (W + mset xs) F" and nf: "no_free E"
  shows "\<exists>E'. for_each f xs E = (Inr (), E') \<and> eng_inv E' W F \<and> no_free E' \<and> same_frame E E'"
proof -
  let ?I = "\<lambda>xs E'. eng_inv E' (W + mset xs) F \<and> no_free E' \<and> same_frame E E'"
  have "\<exists>E'. for_each f xs E = (Inr (), E') \<and> ?I [] E'"
  proof (rule for_each_rule [where I = ?I])
    fix x xs E1
    assume I: "?I (x # xs) E1"
    then have x: "x \<in># W + mset (x # xs)" and inv1: "eng_inv E1 (W + mset (x # xs)) F"
      by simp_all
    obtain k where k: "x = int k" "k < length (slots E1)"
      using acct_dom(1) [OF eng_invD(2) [OF inv1] x] nonneg_int_cases by (metis of_nat_less_iff)
    note c = consume_to_inv [OF inv1 k(2)] consume_to_frame [OF inv1 k(2)]
    have "eng_inv (consume_to k E1) (W + mset xs) F"
      using c(1) k(1) by simp
    then show "\<exists>E2. f x E1 = (Inr (), E2) \<and> ?I xs E2"
      using f [OF k(2)] k(1) c(3,4) I same_frame_trans by auto
  qed (use inv nf in simp)
  then show ?thesis by simp
qed

subsection \<open>Releasing one fanin\<close>

definition fanin_to :: "nat \<Rightarrow> Engine \<Rightarrow> Engine" where
  "fanin_to c E =
     (let s = slots E ! c; s' = bump_fanin s; E1 = upd_slot (int c) (\<lambda>_. s') E
      in if ts_state s' = READY \<and> ts_state s = PENDING then push_ready (worker_type s) (int c) E1 else E1)"

lemma release_fanin_eq:
  assumes "c < length (slots E)"
  shows "release_fanin (int c) E = (Inr (), fanin_to c E)"
proof -
  let ?s = "slots E ! c" and ?r = "fanin_released (slots E ! c) + 1"
  have "upd_slot (int c) (\<lambda>s. s\<lparr>ts_state := READY\<rparr>) (upd_slot (int c) (\<lambda>s. s\<lparr>fanin_released := ?r\<rparr>) E)
      = upd_slot (int c) (\<lambda>_. ?s\<lparr>fanin_released := ?r, ts_state := READY\<rparr>) E"
    by (simp add: upd_slot_twice)
  moreover have "upd_slot (int c) (\<lambda>s. s\<lparr>fanin_released := ?r\<rparr>) E = upd_slot (int c) (\<lambda>_. ?s\<lparr>fanin_released := ?r\<rparr>) E"
    by (rule upd_slot_cong) simp
  ultimately show ?thesis
    using slot_state_valid(2) [OF assms] by (auto simp: release_fanin_def fanin_to_def bump_fanin_def Let_def)
qed

lemma push_ready_queue:
  "rq_q (ready_queue_for t (push_ready t' k E)) = rq_q (ready_queue_for t E) @ (if t' = t then [k] else [])"
  by (cases t; cases t') (simp_all add: push_ready_def set_queue_def ready_queue_for_def rq_push_def)

lemma ready_queue_upd_slot [simp]: "ready_queue_for t (upd_slot k f E) = ready_queue_for t E"
  by (simp add: ready_queue_for_def split: WorkerType.split)

lemma fanin_to_simps:
  "slots (fanin_to c E) = (slots E)[c := bump_fanin (slots E ! c)]"
  "e_scope (fanin_to c E) = e_scope E" "e_wm (fanin_to c E) = e_wm E"
  "e_completion (fanin_to c E) = e_completion E" "e_tm (fanin_to c E) = e_tm E" "e_active (fanin_to c E) = e_active E"
  "e_ring (fanin_to c E) = e_ring (upd_slot (int c) (\<lambda>_. bump_fanin (slots E ! c)) E)"
  by (simp_all add: fanin_to_def Let_def)

text \<open>A slot that becomes ready enters the queue of its type.\<close>

lemma queue_inv_ready:
  assumes q: "queue_inv E" and ss: "slots E' = (slots E)[c := s']" and c: "c < length (slots E)"
    and old: "ts_state (slots E ! c) \<noteq> READY" and new: "ts_state s' = READY"
    and rq: "\<And>t. rq_q (ready_queue_for t E') = rq_q (ready_queue_for t E) @ (if worker_type s' = t then [int c] else [])"
  shows "queue_inv E'"
  unfolding queue_inv_def
proof
  fix t
  have d: "distinct (rq_q (ready_queue_for t E))"
    and s: "set (rq_q (ready_queue_for t E)) = {int k |k. k < length (slots E) \<and> ts_state (slots E ! k) = READY \<and> worker_type (slots E ! k) = t}"
    using q unfolding queue_inv_def by blast+
  have "int c \<notin> set (rq_q (ready_queue_for t E))"
    using s old by auto
  moreover have "{int k |k. k < length (slots E') \<and> ts_state (slots E' ! k) = READY \<and> worker_type (slots E' ! k) = t}
      = set (rq_q (ready_queue_for t E)) \<union> (if worker_type s' = t then {int c} else {})"
    unfolding s ss using c old new by (auto simp: nth_list_update_if)
  ultimately show "distinct (rq_q (ready_queue_for t E')) \<and> set (rq_q (ready_queue_for t E'))
      = {int k |k. k < length (slots E') \<and> ts_state (slots E' ! k) = READY \<and> worker_type (slots E' ! k) = t}"
    using d by (simp add: rq)
qed

end
