(* ===== verification/HierInvOps.thy ===== *)
theory HierInvOps
  imports HierInv
begin

text \<open>
  Every operation of the scheduler thread, the worker threads and the orchestrator keeps the engine
  invariant: completion of a task, dispatch, the worker loop, scope begin and end, submission,
  buffer allocation and drain.
\<close>

subsection \<open>Fanin loop\<close>

lemma bump_fanin_work [simp]:
  "output_keys (bump_fanin s) = output_keys s" "worker_type (bump_fanin s) = worker_type s"
  "is_group (bump_fanin s) = is_group s" "group_size (bump_fanin s) = group_size s"
  "sub_complete_count (bump_fanin s) = sub_complete_count s"
  by (simp_all add: bump_fanin_def Let_def group_size_def)

lemma bump_fanin_state:
  "ts_state (bump_fanin s) = ts_state s \<or> ts_state s = PENDING \<and> ts_state (bump_fanin s) = READY"
  by (simp add: bump_fanin_def Let_def)

lemma leak_upd:
  assumes "k < length (slots E)" and "slots E' = (slots E)[k := s']" and "e_active E' = e_active E"
    and "ts_state s' = CONSUMED \<longleftrightarrow> ts_state (slots E ! k) = CONSUMED"
  shows "leak E' = leak E"
  using unconsumed_upd [OF assms(1), of "\<lambda>s. ts_state s \<noteq> CONSUMED" s'] assms(2-4)
  by (simp add: leak_def unconsumed_def split: if_splits)

lemma ring_sync_upd:
  assumes "ring_sync E" and "e_ring E' = e_ring (upd_slot (int k) (\<lambda>_. s') E)" and "slot_pos s' = slot_pos (slots E ! k)"
    and "ts_state s' = CONSUMED \<longleftrightarrow> ts_state (slots E ! k) = CONSUMED"
  shows "ring_sync E'"
proof -
  have ss: "slots E' = (slots E)[k := s']"
    using assms(2) by (simp add: slots_def upd_slot_def)
  obtain G where "ring_inv (e_ring E) G"
    using assms(1) unfolding ring_sync_def by blast
  then have "ring_inv (e_ring E') G"
    using ring_upd_slot(1) [of "\<lambda>_. s'" E "int k" G] assms(2,3) by simp
  moreover have "slot_released (e_ring E') j = slot_released (e_ring E) j" if "j < length (slots E)" for j
    using ring_upd_slot(2) [of "\<lambda>_. s'" E "int k" j] that assms(2,3) by simp
  ultimately show ?thesis
    using assms(1,4) ss by (auto simp: ring_sync_def nth_list_update_if)
qed

lemma fanin_to_inv:
  assumes inv: "eng_inv E W F" and c: "c < length (slots E)" and F: "int c \<in># F" and nf: "no_free E"
  shows "eng_inv (fanin_to c E) W (F - {#int c#})" and "same_frame E (fanin_to c E)" and "no_free (fanin_to c E)"
proof -
  let ?E = "fanin_to c E" and ?s = "slots E ! c" and ?s' = "bump_fanin (slots E ! c)"
  note I = eng_invD [OF inv]
  have free: "ts_state ?s \<noteq> FREE"
    using nf c by (simp add: no_free_def)
  have p: "ts_state ?s = PENDING"
    using acct_bump_fanin(1) [OF I(2) c F free] .
  have st: "ts_state ?s' \<noteq> CONSUMED" "ts_state ?s' \<noteq> FREE"
    using bump_fanin_state [of ?s] p by auto
  have q: "queue_inv ?E"
  proof (cases "ts_state ?s' = READY")
    case True
    then have e: "?E = push_ready (worker_type ?s) (int c) (upd_slot (int c) (\<lambda>_. ?s') E)"
      using p by (simp add: fanin_to_def Let_def)
    show ?thesis
      by (rule queue_inv_ready [OF I(3) fanin_to_simps(1) c _ True]) (simp_all add: p e push_ready_queue)
  next
    case False
    then have "ready_queue_for t ?E = ready_queue_for t E" for t
      by (simp add: fanin_to_def Let_def)
    then show ?thesis
      using False p by (intro queue_inv_upd [OF I(3) fanin_to_simps(1)]) simp_all
  qed
  have leak: "leak ?E = leak E"
    using st p by (intro leak_upd [OF c fanin_to_simps(1)]) (simp_all add: fanin_to_simps)
  have "tm_inv ?E"
    using st by (intro tm_inv_upd [OF I(4) fanin_to_simps(1)]) (simp_all add: fanin_to_simps)
  moreover have "ring_sync ?E"
    using st p by (intro ring_sync_upd [OF I(5) fanin_to_simps(7)]) simp_all
  moreover have "work_inv ?E"
    by (rule work_inv_upd [OF I(6) fanin_to_simps(1,3,4)]) (use bump_fanin_state [of ?s] in \<open>auto intro: slot_work_cong\<close>)
  ultimately show "eng_inv ?E W (F - {#int c#})"
    using acct_bump_fanin(2) [OF I(2) c F free] graph_inv_upd [OF I(1), of ?s' c] q leak I(7)
    by (simp add: eng_inv_def fanin_to_simps)
  show "same_frame E ?E"
    using leak by (simp add: same_frame_def fanin_to_simps map_upd_same)
  show "no_free ?E"
    using no_free_upd [OF nf fanin_to_simps(1) st(2)] .
qed

lemma fanin_loop:
  assumes inv: "eng_inv E W (mset xs)" and nf: "no_free E"
  shows "\<exists>E'. for_each release_fanin xs E = (Inr (), E') \<and> eng_inv E' W {#} \<and> no_free E' \<and> same_frame E E'"
proof -
  let ?I = "\<lambda>xs E'. eng_inv E' W (mset xs) \<and> no_free E' \<and> same_frame E E'"
  have "\<exists>E'. for_each release_fanin xs E = (Inr (), E') \<and> ?I [] E'"
  proof (rule for_each_rule [where I = ?I])
    fix x xs E1
    assume I: "?I (x # xs) E1"
    then have x: "x \<in># mset (x # xs)" and inv1: "eng_inv E1 W (mset (x # xs))"
      by simp_all
    obtain k where k: "x = int k" "k < length (slots E1)"
      using acct_dom(2) [OF eng_invD(2) [OF inv1] x] nonneg_int_cases by (metis of_nat_less_iff)
    note c = fanin_to_inv [OF inv1 k(2)]
    have "eng_inv (fanin_to k E1) W (mset xs)"
      using c(1) k(1) I by simp
    then show "\<exists>E2. release_fanin x E1 = (Inr (), E2) \<and> ?I xs E2"
      using release_fanin_eq [OF k(2)] k(1) c(2,3) I same_frame_trans by auto
  qed (use inv nf in simp)
  then show ?thesis by simp
qed

subsection \<open>Completion\<close>

lemma complete_mark_inv:
  assumes inv: "eng_inv E W {#}" and nf: "no_free E" and q: "e_completion E = int k # ks" and k: "k < length (slots E)"
  defines "E1 \<equiv> upd_slot (int k) (\<lambda>s. s\<lparr>ts_state := COMPLETED\<rparr>) (E\<lparr>e_completion := ks\<rparr>)"
  shows "ts_state (slots E ! k) = RUNNING"
    and "eng_inv E1 (W + {#int k#} + mset (fanin_producers (slots E ! k))) (mset (fanout_consumers (slots E ! k)))"
    and "no_free E1" and "leak E1 = leak E"
proof -
  note I = eng_invD [OF inv]
  let ?s = "slots E ! k"
  have work: "slot_work ?s (flights (e_wm E) (int k)) True"
    using I(6) k q unfolding work_inv_def by (metis list.set_intros(1))
  then show run: "ts_state ?s = RUNNING"
    by (auto simp: slot_work_def)
  have fl: "flights (e_wm E) (int k) = 0"
    using work run by (auto simp: slot_work_def split: if_splits)
  have ss: "slots E1 = (slots E)[k := ?s\<lparr>ts_state := COMPLETED\<rparr>]"
    by (simp add: E1_def slots_def upd_slot_def)
  show leak: "leak E1 = leak E"
    using run by (intro leak_upd [OF k ss]) (simp_all add: E1_def)
  have "queue_inv E1"
  proof (rule queue_inv_upd [OF I(3) ss])
    show "ready_queue_for t E1 = ready_queue_for t E" for t
      by (simp add: E1_def ready_queue_for_def split: WorkerType.split)
  qed (simp_all add: run)
  moreover have "tm_inv E1"
    by (rule tm_inv_upd [OF I(4) ss]) (simp_all add: E1_def)
  moreover have "ring_sync E1"
  proof (rule ring_sync_upd [OF I(5)])
    show "e_ring E1 = e_ring (upd_slot (int k) (\<lambda>_. ?s\<lparr>ts_state := COMPLETED\<rparr>) E)"
      by (simp add: E1_def upd_slot_def slots_def)
  qed (simp_all add: run)
  moreover have "work_inv E1"
  proof -
    have comp: "e_completion E1 = ks" and wm: "e_wm E1 = e_wm E"
      by (simp_all add: E1_def)
    have d: "distinct (int k # ks)"
      using I(6) q unfolding work_inv_def by metis
    have old: "slot_work (slots E ! j) (flights (e_wm E) (int j)) (int j \<in> set (int k # ks))" if "j < length (slots E)" for j
      using I(6) q that unfolding work_inv_def by metis
    have "slot_work (slots E1 ! j) (flights (e_wm E) (int j)) (int j \<in> set ks)" if "j < length (slots E)" for j
    proof (cases "j = k")
      case True
      then show ?thesis
        using old [OF k] fl d k by (auto simp: ss slot_work_def group_size_def)
    next
      case False
      then show ?thesis
        using old [OF that] by (simp add: ss)
    qed
    moreover have "group_size (slots E1 ! j) = group_size (slots E ! j)" for j
      using k by (simp add: ss nth_list_update_if group_size_def)
    ultimately show ?thesis
      using I(6) d q unfolding work_inv_def comp wm by (simp add: ss)
  qed
  ultimately show "eng_inv E1 (W + {#int k#} + mset (fanin_producers ?s)) (mset (fanout_consumers ?s))"
    using acct_complete [OF I(2,1) k run] graph_inv_upd [OF I(1), of "?s\<lparr>ts_state := COMPLETED\<rparr>" k] leak I(7)
    by (simp add: eng_inv_def ss)
  show "no_free E1"
    using no_free_upd [OF nf ss] by simp
qed

lemma complete_one_inv:
  assumes inv: "engine_inv E" and q: "e_completion E = x # ks"
  shows "\<exists>E'. sched_complete_one E = (Inr True, E') \<and> engine_inv E' \<and> e_completion E' = ks
    \<and> e_wm E' = e_wm E \<and> leak E' = leak E \<and> e_scope E' = e_scope E"
proof -
  let ?W = "mset (concat (e_scope E))"
  have I: "eng_inv E ?W {#}" and nf: "no_free E"
    using inv by (simp_all add: engine_inv_def)
  have "0 \<le> x" "x < int (length (slots E))"
    using eng_invD(6) [OF I] q unfolding work_inv_def by (metis list.set_intros(1))+
  then obtain k where k: "x = int k" "k < length (slots E)"
    by (metis nonneg_int_cases of_nat_less_iff)
  let ?s = "slots E ! k"
  let ?E0 = "E\<lparr>e_completion := ks\<rparr>"
  let ?E1 = "upd_slot (int k) (\<lambda>s. s\<lparr>ts_state := COMPLETED\<rparr>) ?E0"
  note m = complete_mark_inv [OF I nf q [unfolded k(1)] k(2)]
  have sl: "slots ?E0 = slots E"
    by (simp add: slots_def)
  obtain E2 where E2: "for_each release_fanin (fanout_consumers ?s) ?E1 = (Inr (), E2)"
      "eng_inv E2 (?W + {#int k#} + mset (fanin_producers ?s)) {#}" "no_free E2" "same_frame ?E1 E2"
    using fanin_loop [OF m(2,3)] by blast
  have k2: "k < length (slots E2)"
    using same_frame_length [OF E2(4)] k(2) sl by simp
  have in2: "int k \<in># ?W + {#int k#} + mset (fanin_producers ?s)"
    by simp
  let ?E3 = "consume_to k E2"
  have E3: "eng_inv ?E3 (?W + mset (fanin_producers ?s)) {#}" "same_frame E2 ?E3" "no_free ?E3"
    using consume_to_inv(1) [OF E2(2) k2 in2] consume_to_frame [OF E2(2) k2 in2 E2(3)] by simp_all
  have pr: "fanin_producers (slots ?E3 ! k) = fanin_producers ?s"
    using same_frame_producers [OF same_frame_trans [OF E2(4) E3(2)], of k] k(2) sl by simp
  obtain E4 where E4: "for_each try_consume (fanin_producers ?s) ?E3 = (Inr (), E4)"
      "eng_inv E4 ?W {#}" "no_free E4" "same_frame ?E3 E4"
    using consume_loop [of try_consume, OF consume_eq(1) E3(1,3)] by blast
  have fr: "same_frame ?E1 E4"
    using same_frame_trans [OF same_frame_trans [OF E2(4) E3(2)] E4(4)] .
  have "on_task_complete (int k) ?E0 = (Inr (), E4)"
    using slot_state_valid(2) [of k ?E0] k(2) sl E2(1) consume_eq(1) [OF k2] E4(1) pr
    by (simp add: on_task_complete_def)
  moreover have "e_scope E4 = e_scope E" "e_completion E4 = ks" "e_wm E4 = e_wm E" "leak E4 = leak E"
    using fr m(4) by (simp_all add: same_frame_def)
  ultimately show ?thesis
    using q k(1) E4(2,3) by (simp add: sched_complete_one_def engine_inv_def)
qed

subsection \<open>Scopes\<close>

lemma ready_queue_scope [simp]: "ready_queue_for t (E\<lparr>e_scope := sc\<rparr>) = ready_queue_for t E"
  by (cases t) (simp_all add: ready_queue_for_def)

lemma scope_upd_simps [simp]:
  "slots (E\<lparr>e_scope := sc\<rparr>) = slots E" "queue_inv (E\<lparr>e_scope := sc\<rparr>) = queue_inv E"
  "tm_inv (E\<lparr>e_scope := sc\<rparr>) = tm_inv E" "ring_sync (E\<lparr>e_scope := sc\<rparr>) = ring_sync E"
  "work_inv (E\<lparr>e_scope := sc\<rparr>) = work_inv E" "leak (E\<lparr>e_scope := sc\<rparr>) = leak E"
  "no_free (E\<lparr>e_scope := sc\<rparr>) = no_free E"
  by (simp_all add: slots_def queue_inv_def tm_inv_def ring_sync_def work_inv_def leak_def
      unconsumed_def no_free_def)

lemma eng_inv_scope [simp]: "eng_inv (E\<lparr>e_scope := sc\<rparr>) W F = eng_inv E W F"
  by (simp add: eng_inv_def)

lemma scope_begin_inv:
  assumes "engine_inv E" and "orch_scope_begin E = (r, E')"
  shows "engine_inv E'"
proof (cases "scope_begin (e_scope E)")
  case (Inr sc)
  then have "E' = E\<lparr>e_scope := sc\<rparr>" and "concat sc = concat (e_scope E)"
    using assms(2) by (auto simp: orch_scope_begin_def scope_begin_def split: if_splits)
  then show ?thesis
    using assms(1) by (simp add: engine_inv_def)
qed (use assms in \<open>simp add: orch_scope_begin_def\<close>)

lemma scope_end_inv:
  assumes inv: "engine_inv E" and fr: "e_scope E = frame # rest"
  shows "\<exists>E'. orch_scope_end E = (Inr (), E') \<and> engine_inv E' \<and> e_scope E' = rest \<and> leak E' = leak E \<and> e_wm E' = e_wm E"
proof -
  have I: "eng_inv E (mset (concat rest) + mset frame) {#}" and nf: "no_free E"
    using inv fr by (simp_all add: engine_inv_def union_commute)
  obtain E1 where E1: "for_each release_ref frame E = (Inr (), E1)" "eng_inv E1 (mset (concat rest)) {#}"
      "no_free E1" "same_frame E E1"
    using consume_loop [of release_ref, OF consume_eq(2) I nf] by blast
  let ?E' = "E1\<lparr>e_scope := rest\<rparr>"
  have "orch_scope_end E = (Inr (), ?E')"
    using fr E1(1) by (simp add: orch_scope_end_def scope_end_def)
  moreover have "engine_inv ?E'"
    using E1(2,3) by (simp add: engine_inv_def)
  moreover have "leak ?E' = leak E" "e_wm ?E' = e_wm E"
    using E1(4) by (simp_all add: same_frame_def)
  ultimately show ?thesis
    by auto
qed

subsection \<open>Dispatch\<close>

definition aff_ok :: "TaskSlotState \<Rightarrow> bool" where
  "aff_ok s \<longleftrightarrow> affinities s = [] \<or> group_size s \<le> length (affinities s)"

text \<open>A worker assignment: one entry per member, each empty or a worker of the pool.\<close>

definition valid_workers :: "WorkerManager \<Rightarrow> TaskSlotState \<Rightarrow> nat option list \<Rightarrow> bool" where
  "valid_workers m s ws \<longleftrightarrow> length ws = group_size s
     \<and> (\<forall>w. Some w \<in> set ws \<longrightarrow> w < length (threads_of (worker_type s) m))"

lemma valid_workers_upd:
  "valid_workers m s ws \<Longrightarrow> w < length (threads_of (worker_type s) m) \<Longrightarrow> valid_workers m s (ws[i := Some w])"
  using set_update_subset_insert [of ws i "Some w"] by (auto simp: valid_workers_def)

lemma pin_workers_valid:
  assumes "valid_workers m s ws" and "pin_workers m s is ws = Inr (Some ws')"
  shows "valid_workers m s ws'"
  using assms
proof (induction "is" arbitrary: ws)
  case (Cons i "is")
  have upd: "valid_workers m s (ws[i := Some w])" if "w < length (threads_of (worker_type s) m)" for w
    using valid_workers_upd [OF Cons.prems(1) that] .
  show ?case
    using Cons.prems(2)
    by (auto simp: get_worker_def not_le intro: Cons.IH [OF upd] Cons.IH [OF Cons.prems(1)]
        split: sum.splits if_splits option.splits)
qed simp

lemma pick_valid:
  assumes "pick_idle_excluding t ex m = Some w"
  shows "w < length (threads_of t m)"
proof -
  obtain js where "filter (\<lambda>i. Some i \<notin> set ex) (idle_workers t m) = w # js"
    using assms by (auto simp: pick_idle_excluding_def split: list.splits)
  then have "w \<in> set (filter (\<lambda>i. Some i \<notin> set ex) (idle_workers t m))"
    by simp
  then show ?thesis
    by (simp add: idle_workers_def)
qed

lemma fill_workers_valid:
  assumes "valid_workers m s ws" and "fill_workers m s is ws = Some ws'" and "\<forall>i \<in> set is. i < length ws"
  shows "valid_workers m s ws' \<and> (\<forall>i. i \<in> set is \<or> i < length ws \<and> ws ! i \<noteq> None \<longrightarrow> ws' ! i \<noteq> None)"
  using assms
proof (induction "is" arbitrary: ws)
  case (Cons i "is")
  show ?case
  proof (cases "ws ! i \<noteq> None")
    case True
    then have "fill_workers m s is ws = Some ws'"
      using Cons.prems(2) by simp
    then show ?thesis
      using Cons.IH [OF Cons.prems(1)] Cons.prems(3) True by auto
  next
    case False
    then obtain w where w: "pick_idle_excluding (worker_type s) ws m = Some w"
        "fill_workers m s is (ws[i := Some w]) = Some ws'"
      using Cons.prems(2) by (auto split: option.splits)
    have "valid_workers m s (ws[i := Some w])"
      using valid_workers_upd [OF Cons.prems(1) pick_valid [OF w(1)]] .
    moreover have "\<forall>j \<in> set is. j < length (ws[i := Some w])"
      using Cons.prems(3) by simp
    ultimately have "valid_workers m s ws' \<and> (\<forall>j. j \<in> set is \<or> j < length ws \<and> ws[i := Some w] ! j \<noteq> None \<longrightarrow> ws' ! j \<noteq> None)"
      using Cons.IH [of "ws[i := Some w]"] w(2) by simp
    then show ?thesis
      using Cons.prems(3) False by (auto simp: nth_list_update_if)
  qed
qed simp

lemma assign_workers_valid:
  assumes "assign_workers m s = Inr (Some ws)"
  shows "length ws = group_size s" and "\<And>i. i < length ws \<Longrightarrow> \<exists>w. ws ! i = Some w \<and> w < length (threads_of (worker_type s) m)"
proof -
  let ?N = "group_size s"
  obtain ws0 where ws0: "pin_workers m s [0..<?N] (replicate ?N None) = Inr (Some ws0)"
      "fill_workers m s [0..<?N] ws0 = Some ws"
    using assms by (auto simp: assign_workers_def Let_def split: sum.splits option.splits)
  have v0: "valid_workers m s ws0"
    by (rule pin_workers_valid [OF _ ws0(1)]) (simp add: valid_workers_def)
  then have "length ws0 = ?N"
    by (simp add: valid_workers_def)
  then have v: "valid_workers m s ws \<and> (\<forall>i. i \<in> set [0..<?N] \<or> i < length ws0 \<and> ws0 ! i \<noteq> None \<longrightarrow> ws ! i \<noteq> None)"
    using fill_workers_valid [OF v0 ws0(2)] by simp
  then show len: "length ws = ?N"
    by (simp add: valid_workers_def)
  fix i assume i: "i < length ws"
  then obtain w where w: "ws ! i = Some w"
    using v len by auto
  moreover have "Some w \<in> set ws"
    using i w by (metis nth_mem)
  ultimately show "\<exists>w. ws ! i = Some w \<and> w < length (threads_of (worker_type s) m)"
    using v by (auto simp: valid_workers_def)
qed

lemma pin_workers_no_throw:
  assumes "aff_ok s" and "\<forall>i \<in> set is. i < group_size s"
  shows "\<exists>r. pin_workers m s is ws = Inr r"
  using assms(2)
proof (induction "is" arbitrary: ws)
  case (Cons i "is")
  have "\<exists>a. get_affinity s i = Inr a"
    using assms(1) Cons.prems by (auto simp: get_affinity_def aff_ok_def)
  then show ?case
    using Cons by (auto split: option.splits)
qed simp

lemma assign_workers_no_throw: "aff_ok s \<Longrightarrow> \<exists>r. assign_workers m s = Inr r"
  using pin_workers_no_throw [of s "[0..<group_size s]" m "replicate (group_size s) None"]
  by (auto simp: assign_workers_def Let_def split: option.splits)


text \<open>Dispatches in flight, counted over both pools.\<close>

lemma mset_concat_update:
  assumes "i < length ws"
  shows "mset (concat (map f (ws[i := w]))) + mset (f (ws ! i)) = mset (concat (map f ws)) + mset (f w)"
  using assms
proof (induction ws arbitrary: i)
  case (Cons a ws)
  then show ?case
    by (cases i) (auto simp: ac_simps)
qed simp

lemma threads_of_set [simp]: "threads_of t (set_threads t' ws m) = (if t = t' then ws else threads_of t m)"
  by (cases t; cases t') (simp_all add: threads_of_def set_threads_def)

lemma inflight_pools: "inflight m = mset (concat (map wt_queue (threads_of NEXT_LEVEL m)))
    + mset (concat (map wt_queue (threads_of SUB m)))"
  by (simp add: inflight_def threads_of_def)

lemma inflight_set:
  assumes "i < length (threads_of t m)"
  shows "inflight (set_threads t ((threads_of t m)[i := w]) m) + mset (wt_queue (threads_of t m ! i))
    = inflight m + mset (wt_queue w)"
  using mset_concat_update [OF assms, of wt_queue w]
  by (cases t) (auto simp: inflight_pools ac_simps)

lemma inflight_dispatch_to:
  assumes "w < length (threads_of t m)"
  shows "inflight (dispatch_to t k (i, Some w) m) = inflight m + {#\<lparr>wd_task_slot = k, wd_group_index = i\<rparr>#}"
    and "length (threads_of t' (dispatch_to t k (i, Some w) m)) = length (threads_of t' m)"
  using inflight_set [OF assms, of "wt_dispatch \<lparr>wd_task_slot = k, wd_group_index = i\<rparr> (threads_of t m ! w)"]
  by (simp_all add: dispatch_to_def wt_dispatch_def)

lemma inflight_dispatch_all:
  assumes "\<And>i. i < length ws \<Longrightarrow> \<exists>w. ws ! i = Some w \<and> w < length (threads_of t m)"
  shows "inflight (fold (dispatch_to t k) (enumerate n ws) m)
    = inflight m + mset (map (\<lambda>i. \<lparr>wd_task_slot = k, wd_group_index = i\<rparr>) [n..<n + length ws])"
  using assms
proof (induction ws arbitrary: n m)
  case (Cons x ws)
  obtain w where w: "x = Some w" "w < length (threads_of t m)"
    using Cons.prems [of 0] by auto
  let ?m = "dispatch_to t k (n, Some w) m"
  have "\<exists>w. ws ! i = Some w \<and> w < length (threads_of t ?m)" if "i < length ws" for i
    using Cons.prems [of "Suc i"] that inflight_dispatch_to(2) [OF w(2)] by simp
  note ih = Cons.IH [OF this, of "Suc n"]
  have u: "[n..<n + length (x # ws)] = n # [Suc n..<Suc n + length ws]"
    by (simp add: upt_conv_Cons del: upt_Suc)
  have "inflight (fold (dispatch_to t k) (enumerate n (x # ws)) m)
      = inflight ?m + mset (map (\<lambda>i. \<lparr>wd_task_slot = k, wd_group_index = i\<rparr>) [Suc n..<Suc n + length ws])"
    using ih w(1) by (simp del: upt_Suc)
  then show ?case
    unfolding u inflight_dispatch_to(1) [OF w(2)] by (simp del: upt_Suc)
qed simp

lemma dispatch_pop_inv:
  assumes inv: "engine_inv E" and pop: "try_pop (ready_queue_for t E) = Some (x, q)"
    and aff: "\<forall>s \<in> set (slots E). aff_ok s"
  shows "\<exists>cont E'. dispatch_one t x (set_queue t q E) = (Inr cont, E') \<and> engine_inv E' \<and> leak E' = leak E
    \<and> map affinities (slots E') = map affinities (slots E) \<and> map group_size (slots E') = map group_size (slots E)
    \<and> e_scope E' = e_scope E"
proof -
  have I: "eng_inv E (mset (concat (e_scope E))) {#}" and nf: "no_free E"
    using inv by (simp_all add: engine_inv_def)
  note I' = eng_invD [OF I]
  have rq: "rq_q (ready_queue_for t E) = x # rq_q q"
    using rq.pop_rest [OF pop] .
  have d: "distinct (x # rq_q q)"
    and st: "set (x # rq_q q) = {int k |k. k < length (slots E) \<and> ts_state (slots E ! k) = READY \<and> worker_type (slots E ! k) = t}"
    using I'(3) rq unfolding queue_inv_def by metis+
  then have "x \<in> {int k |k. k < length (slots E) \<and> ts_state (slots E ! k) = READY \<and> worker_type (slots E ! k) = t}"
    by (metis list.set_intros(1))
  then obtain k where k: "x = int k" "k < length (slots E)" "ts_state (slots E ! k) = READY" "worker_type (slots E ! k) = t"
    by blast
  let ?s = "slots E ! k" and ?E0 = "set_queue t q E"
  have fr0: "slots ?E0 = slots E" "e_wm ?E0 = e_wm E" "e_scope ?E0 = e_scope E" "e_tm ?E0 = e_tm E"
    "e_active ?E0 = e_active E" "e_completion ?E0 = e_completion E" "e_ring ?E0 = e_ring E"
    by (cases t; simp add: set_queue_def slots_def)+
  have other: "ready_queue_for t' ?E0 = ready_queue_for t' E" if "t' \<noteq> t" for t'
    using that by (cases t; cases t') (simp_all add: set_queue_def ready_queue_for_def)
  obtain r where r: "assign_workers (e_wm E) ?s = Inr r"
    using assign_workers_no_throw aff k(2) by (metis nth_mem)
  show ?thesis
  proof (cases r)
    case None
    let ?E' = "push_ready t x ?E0"
    have q': "rq_q (ready_queue_for t' ?E') = (if t' = t then rq_q q @ [x] else rq_q (ready_queue_for t' E))" for t'
      using other by (simp add: push_ready_queue)
    have "dispatch_one t x ?E0 = (Inr False, ?E')"
      using slot_state_valid(2) [of k ?E0] k fr0 r None by (simp add: dispatch_one_def)
    moreover have "queue_inv ?E'"
      using I'(3) d st unfolding queue_inv_def by (simp add: q' fr0)
    moreover have "tm_inv ?E'" "ring_sync ?E'" "work_inv ?E'" "leak ?E' = leak E" "no_free ?E'"
      using I'(4-6) nf by (simp_all add: tm_inv_def ring_sync_def work_inv_def leak_def unconsumed_def no_free_def fr0)
    ultimately show ?thesis
      using I'(1,2,7) by (auto simp: engine_inv_def eng_inv_def fr0)
  next
    case (Some ws)
    let ?E1 = "upd_slot x (\<lambda>s. s\<lparr>ts_state := RUNNING\<rparr>) ?E0"
    let ?m = "fold (dispatch_to t x) (enumerate 0 ws) (e_wm E)"
    let ?E' = "?E1\<lparr>e_wm := ?m\<rparr>" and ?s' = "?s\<lparr>ts_state := RUNNING\<rparr>"
    note aw = assign_workers_valid [OF r [unfolded Some]]
    have ex: "dispatch_one t x ?E0 = (Inr True, ?E')"
      using slot_state_valid(2) [of k ?E0] k fr0 r Some by (simp add: dispatch_one_def)
    have ss: "slots ?E' = (slots E)[k := ?s']"
      using fr0 k(1) by (simp add: slots_def upd_slot_def)
    have infl: "inflight ?m = inflight (e_wm E)
        + mset (map (\<lambda>i. \<lparr>wd_task_slot = x, wd_group_index = i\<rparr>) [0..<group_size ?s])"
      using inflight_dispatch_all [of ws t "e_wm E" x 0] aw k(4) by simp
    have fl: "flights ?m y = flights (e_wm E) y + (if y = x then group_size ?s else 0)" for y
    proof -
      have "image_mset wd_task_slot (mset (map (\<lambda>i. \<lparr>wd_task_slot = x, wd_group_index = i\<rparr>) [0..<group_size ?s]))
          = replicate_mset (group_size ?s) x"
        by (simp add: multiset.map_comp comp_def map_replicate_const flip: mset_map)
      then show ?thesis
        unfolding flights_def infl by simp
    qed
    have work0: "slot_work ?s (flights (e_wm E) x) (x \<in> set (e_completion E))"
      using I'(6) k unfolding work_inv_def by metis
    have "work_inv ?E'"
    proof -
      have gs: "group_size (slots ?E' ! j) = group_size (slots E ! j)" for j
        using k(2) by (simp add: ss nth_list_update_if group_size_def)
      have "slot_work (slots ?E' ! j) (flights ?m (int j)) (int j \<in> set (e_completion E))" if j: "j < length (slots E)" for j
      proof (cases "j = k")
        case True
        have "slots ?E' ! k = ?s'" "flights ?m (int k) = flights (e_wm E) (int k) + group_size ?s"
          using k(2) by (simp_all add: ss fl flip: k(1))
        then show ?thesis
          using work0 [unfolded k(1)] k(3) unfolding True by (auto simp: slot_work_def group_size_def)
      next
        case False
        have "int j \<noteq> x"
          using False k(1) by simp
        then have "slots ?E' ! j = slots E ! j" "flights ?m (int j) = flights (e_wm E) (int j)"
          using False by (simp_all add: ss fl)
        then show ?thesis
          using I'(6) j unfolding work_inv_def by simp
      qed
      moreover have "0 \<le> wd_task_slot d \<and> wd_task_slot d < int (length (slots E))
          \<and> wd_group_index d < group_size (slots E ! nat (wd_task_slot d))" if "d \<in># inflight ?m" for d
        using that I'(6) k unfolding infl work_inv_def by auto
      ultimately show ?thesis
        using I'(6) unfolding work_inv_def by (simp add: fr0 gs) (simp add: ss)
    qed
    moreover have "queue_inv ?E'"
      unfolding queue_inv_def
    proof
      fix t'
      have "rq_q (ready_queue_for t' ?E') = (if t' = t then rq_q q else rq_q (ready_queue_for t' E))"
        using other [of t'] by (cases t') (auto simp: ready_queue_for_def set_queue_def)
      moreover have "{int j |j. j < length (slots ?E') \<and> ts_state (slots ?E' ! j) = READY \<and> worker_type (slots ?E' ! j) = t'}
          = {int j |j. j < length (slots E) \<and> ts_state (slots E ! j) = READY \<and> worker_type (slots E ! j) = t'} - {x}"
        unfolding ss using k by (auto simp: nth_list_update_if)
      ultimately show "distinct (rq_q (ready_queue_for t' ?E')) \<and> set (rq_q (ready_queue_for t' ?E'))
          = {int j |j. j < length (slots ?E') \<and> ts_state (slots ?E' ! j) = READY \<and> worker_type (slots ?E' ! j) = t'}"
        using d st I'(3) k(4) k(1) unfolding queue_inv_def by (cases "t' = t") auto
    qed
    moreover have "tm_inv ?E'"
      by (rule tm_inv_upd [OF I'(4) ss]) (simp_all add: fr0)
    moreover have "ring_sync ?E'"
    proof (rule ring_sync_upd [OF I'(5)])
      show "e_ring ?E' = e_ring (upd_slot (int k) (\<lambda>_. ?s') E)"
        using fr0 k(1) by (simp add: upd_slot_def slots_def)
    qed (simp_all add: k)
    moreover have "leak ?E' = leak E"
      by (rule leak_upd [OF k(2) ss]) (simp_all add: fr0 k)
    moreover have "acct (slots ?E') (mset (concat (e_scope E))) {#}" "graph_inv (slots ?E')"
      unfolding ss using k acct_upd_neutral [OF I'(2), of ?s' k] graph_inv_upd [OF I'(1), of ?s' k]
      by (simp_all add: finished_def)
    moreover have "no_free ?E'"
      using no_free_upd [OF nf ss] by simp
    moreover have "map affinities (slots ?E') = map affinities (slots E)" "map group_size (slots ?E') = map group_size (slots E)"
      unfolding ss by (rule map_upd_same; simp add: group_size_def)+
    ultimately show ?thesis
      using ex I'(7) by (auto simp: engine_inv_def eng_inv_def fr0)
  qed
qed


lemma aff_ok_maps:
  assumes "map affinities ss' = map affinities ss" and "map group_size ss' = map group_size ss"
    and "\<forall>s \<in> set ss. aff_ok s"
  shows "\<forall>s \<in> set ss'. aff_ok s"
proof
  fix s assume "s \<in> set ss'"
  then obtain i where i: "i < length ss'" "s = ss' ! i"
    by (metis in_set_conv_nth)
  have "length ss' = length ss"
    using assms(1) map_eq_imp_length_eq by blast
  then have "affinities s = affinities (ss ! i)" "group_size s = group_size (ss ! i)" "ss ! i \<in> set ss"
    using i assms(1,2) by (metis length_map nth_map, metis length_map nth_map, simp)
  then show "aff_ok s"
    using assms(3) by (simp add: aff_ok_def)
qed

lemma drain_one_inv:
  assumes "engine_inv E" and "\<forall>s \<in> set (slots E). aff_ok s"
  shows "\<exists>E'. drain_one t E = (Inr (), E') \<and> engine_inv E' \<and> (\<forall>s \<in> set (slots E'). aff_ok s)
    \<and> leak E' = leak E \<and> e_scope E' = e_scope E"
  using assms
proof (induction t E rule: drain_one.induct)
  case (1 t E)
  show ?case
  proof (cases "try_pop (ready_queue_for t E)")
    case None
    then show ?thesis
      using 1(2,3) by (simp add: drain_one.simps)
  next
    case (Some kq)
    obtain x q where xq: "kq = (x, q)"
      by (cases kq)
    obtain cont E1 where E1: "dispatch_one t x (set_queue t q E) = (Inr cont, E1)" "engine_inv E1" "leak E1 = leak E"
        "map affinities (slots E1) = map affinities (slots E)" "map group_size (slots E1) = map group_size (slots E)"
        "e_scope E1 = e_scope E"
      using dispatch_pop_inv [OF 1(2) Some [unfolded xq] 1(3)] by blast
    have aff: "\<forall>s \<in> set (slots E1). aff_ok s"
      by (rule aff_ok_maps [OF E1(4,5) 1(3)])
    show ?thesis
    proof (cases cont)
      case True
      have "\<exists>E'. drain_one t E1 = (Inr (), E') \<and> engine_inv E' \<and> (\<forall>s \<in> set (slots E'). aff_ok s)
          \<and> leak E' = leak E1 \<and> e_scope E' = e_scope E1"
        using 1(1) [OF Some xq [symmetric] E1(1) [symmetric] refl True E1(2) aff] .
      then show ?thesis
        using Some xq E1(1,3,6) True by (subst drain_one.simps) simp
    next
      case False
      then show ?thesis
        using Some xq E1 aff by (subst drain_one.simps) simp
    qed
  qed
qed

lemma dispatch_ready_inv:
  assumes "engine_inv E" and "\<forall>s \<in> set (slots E). aff_ok s"
  shows "\<exists>E'. dispatch_ready E = (Inr (), E') \<and> engine_inv E' \<and> (\<forall>s \<in> set (slots E'). aff_ok s)
    \<and> leak E' = leak E \<and> e_scope E' = e_scope E"
proof -
  obtain E1 where E1: "drain_one NEXT_LEVEL E = (Inr (), E1)" "engine_inv E1" "\<forall>s \<in> set (slots E1). aff_ok s"
      "leak E1 = leak E" "e_scope E1 = e_scope E"
    using drain_one_inv [OF assms] by blast
  then show ?thesis
    using drain_one_inv [OF E1(2,3), of SUB] by (auto simp: dispatch_ready_def)
qed

subsection \<open>The worker loop\<close>

lemma report_error_threads [simp]: "threads_of t (report_error e m) = threads_of t m"
  by (cases t) (simp_all add: report_error_def threads_of_def)

lemma inflight_cong: "(\<And>t. threads_of t m = threads_of t m') \<Longrightarrow> inflight m = inflight m'"
  by (simp add: inflight_pools)

text \<open>Replacing the workers by others with fewer dispatches in flight, before the completion is recorded.\<close>

lemma worker_done_inv:
  assumes inv: "engine_inv E" and infl: "inflight (e_wm E) = add_mset d (inflight m)"
  shows "\<exists>E'. worker_done (wd_task_slot d) (E\<lparr>e_wm := m\<rparr>) = (Inr (), E') \<and> engine_inv E' \<and> e_wm E' = m
    \<and> leak E' = leak E \<and> map affinities (slots E') = map affinities (slots E)
    \<and> map group_size (slots E') = map group_size (slots E) \<and> e_scope E' = e_scope E"
proof -
  have I: "eng_inv E (mset (concat (e_scope E))) {#}" and nf: "no_free E"
    using inv by (simp_all add: engine_inv_def)
  note I' = eng_invD [OF I]
  let ?W = "mset (concat (e_scope E))"
  have "d \<in># inflight (e_wm E)"
    by (simp add: infl)
  then have d: "0 \<le> wd_task_slot d" "wd_task_slot d < int (length (slots E))"
    using I'(6) unfolding work_inv_def by blast+
  then obtain k where k: "wd_task_slot d = int k" "k < length (slots E)"
    by (metis nonneg_int_cases of_nat_less_iff)
  let ?s = "slots E ! k" and ?E0 = "E\<lparr>e_wm := m\<rparr>"
  have fl: "flights (e_wm E) y = flights m y + (if y = int k then 1 else 0)" for y
    by (simp add: flights_def infl k(1))
  have work: "slot_work (slots E ! j) (flights (e_wm E) (int j)) (int j \<in> set (e_completion E))" if "j < length (slots E)" for j
    using I'(6) that unfolding work_inv_def by blast
  have wk: "slot_work ?s (Suc (flights m (int k))) (int k \<in> set (e_completion E))"
    using work [OF k(2)] by (simp add: fl)
  then have run: "ts_state ?s = RUNNING"
    by (auto simp: slot_work_def)
  then have nd: "int k \<notin> set (e_completion E)"
    using wk by (auto simp: slot_work_def split: if_splits)
  define n where "n = sub_complete_count ?s + 1"
  define s' where "s' = (if is_group ?s then ?s\<lparr>sub_complete_count := n\<rparr> else ?s)"
  define last where "last \<longleftrightarrow> \<not> (is_group ?s \<and> n < int (group_size ?s))"
  define E' where "E' = (upd_slot (int k) (\<lambda>_. s') ?E0)\<lparr>e_completion := e_completion E @ (if last then [int k] else [])\<rparr>"
  have upd_self: "upd_slot (int k) (\<lambda>_. ?s) ?E0 = ?E0"
    by (simp add: upd_slot_def slots_def)
  have upd: "upd_slot (int k) (\<lambda>s. s\<lparr>sub_complete_count := n\<rparr>) ?E0 = upd_slot (int k) (\<lambda>_. ?s\<lparr>sub_complete_count := n\<rparr>) ?E0"
    by (rule upd_slot_cong) (simp add: slots_def)
  have "sched_slot_state (int k) ?E0 = Inr ?s"
    using slot_state_valid(2) [of k ?E0] k(2) by (simp add: slots_def)
  then have ex: "worker_done (wd_task_slot d) ?E0 = (Inr (), E')"
    unfolding worker_done_def k(1) by (simp add: Let_def E'_def s'_def last_def upd upd_self flip: n_def)
  have ss: "slots E' = (slots E)[k := s']"
    by (simp add: E'_def slots_def upd_slot_def)
  have s'f: "ts_state s' = ts_state ?s" "is_group s' = is_group ?s" "group_size s' = group_size ?s"
    "fanin_producers s' = fanin_producers ?s" "fanout_consumers s' = fanout_consumers ?s" "output_keys s' = output_keys ?s"
    "worker_type s' = worker_type ?s" "slot_pos s' = slot_pos ?s" "affinities s' = affinities ?s"
    "fanout_total s' = fanout_total ?s" "fanout_released s' = fanout_released ?s"
    "fanin_count s' = fanin_count ?s" "fanin_released s' = fanin_released ?s" "finished s' = finished ?s"
    by (simp_all add: s'_def group_size_def finished_def)
  have wm: "e_wm E' = m"
    by (simp add: E'_def)
  have "work_inv E'"
  proof -
    have gs: "group_size (slots E' ! j) = group_size (slots E ! j)" for j
      using k(2) s'f(3) by (simp add: ss nth_list_update_if)
    have "slot_work (slots E' ! j) (flights m (int j)) (int j \<in> set (e_completion E'))" if j: "j < length (slots E)" for j
    proof (cases "j = k")
      case True
      have sk: "slots E' ! k = s'"
        using k(2) by (simp add: ss)
      have ck: "int k \<in> set (e_completion E') \<longleftrightarrow> last"
        using nd by (simp add: E'_def)
      show ?thesis
        unfolding True sk ck using wk run nd
        by (cases "is_group ?s") (auto simp: slot_work_def last_def n_def s'_def group_size_def)
    next
      case False
      have "int j \<in> set (e_completion E') \<longleftrightarrow> int j \<in> set (e_completion E)"
        using False by (simp add: E'_def)
      then show ?thesis
        using work [OF j] False by (simp add: ss fl)
    qed
    moreover have "distinct (e_completion E')" "\<forall>x \<in> set (e_completion E'). 0 \<le> x \<and> x < int (length (slots E))"
      using I'(6) nd k(2) unfolding work_inv_def by (auto simp: E'_def)
    moreover have "0 \<le> wd_task_slot e \<and> wd_task_slot e < int (length (slots E))
        \<and> wd_group_index e < group_size (slots E ! nat (wd_task_slot e))" if "e \<in># inflight m" for e
      using I'(6) that unfolding work_inv_def infl by auto
    ultimately show ?thesis
      unfolding work_inv_def gs wm by (simp add: ss)
  qed
  moreover have "queue_inv E'"
  proof (rule queue_inv_upd [OF I'(3) ss])
    show "ready_queue_for t E' = ready_queue_for t E" for t
      by (cases t) (simp_all add: E'_def ready_queue_for_def)
  qed (simp_all add: s'f)
  moreover have "tm_inv E'"
    by (rule tm_inv_upd [OF I'(4) ss]) (simp_all add: E'_def s'f run)
  moreover have "ring_sync E'"
  proof (rule ring_sync_upd [OF I'(5)])
    show "e_ring E' = e_ring (upd_slot (int k) (\<lambda>_. s') E)"
      by (simp add: E'_def upd_slot_def slots_def)
  qed (simp_all add: s'f)
  moreover have leak: "leak E' = leak E"
    by (rule leak_upd [OF k(2) ss]) (simp_all add: s'f E'_def)
  moreover have "acct (slots E') ?W {#}" "graph_inv (slots E')"
    unfolding ss using acct_upd_neutral [OF I'(2), of s' k] graph_inv_upd [OF I'(1), of s' k] s'f by simp_all
  moreover have "no_free E'"
    using no_free_upd [OF nf ss] s'f run by simp
  moreover have "e_scope E' = e_scope E" "e_wm E' = m"
    by (simp_all add: E'_def)
  moreover have "map affinities (slots E') = map affinities (slots E)" "map group_size (slots E') = map group_size (slots E)"
    unfolding ss by (rule map_upd_same; simp add: s'f)+
  ultimately show ?thesis
    using ex I'(7) by (auto simp: engine_inv_def eng_inv_def)
qed

lemma worker_loop_inv:
  assumes inv: "engine_inv E" and i: "i < length (threads_of t (e_wm E))" and run: "worker_loop child t i E = (Some r, E')"
  shows "engine_inv E' \<and> leak E' = leak E \<and> map affinities (slots E') = map affinities (slots E)
    \<and> map group_size (slots E') = map group_size (slots E) \<and> e_scope E' = e_scope E
    \<and> (r = Inr () \<or> r = Inl UndefinedBehaviour \<and> E' = E)"
proof -
  let ?w = "threads_of t (e_wm E) ! i"
  obtain d ds where q: "wt_queue ?w = d # ds"
    using run by (auto simp: worker_loop_def Let_def split: list.splits)
  show ?thesis
  proof (cases "sched_slot_state (wd_task_slot d) E")
    case (Inl e)
    then show ?thesis
      using run q inv by (auto simp: worker_loop_def sched_slot_state_def split: option.splits)
  next
    case (Inr s)
    obtain res mb where dp: "dispatch_process child s (wd_group_index d) (wt_mailbox ?w) = (Some res, mb)"
      using run q Inr by (auto simp: worker_loop_def Let_def split: option.splits prod.splits)
    show ?thesis
    proof (cases "res = Inl UndefinedBehaviour")
      case True
      then show ?thesis
        using run q Inr dp inv by (auto simp: worker_loop_def)
    next
      case False
      let ?m1 = "case res of Inl e \<Rightarrow> report_error e (e_wm E) | Inr _ \<Rightarrow> e_wm E"
      let ?w' = "?w\<lparr>wt_mailbox := mb, wt_queue := ds, wt_idle := True\<rparr>"
      let ?m2 = "set_threads t ((threads_of t ?m1)[i := ?w']) ?m1"
      have th: "threads_of t' ?m1 = threads_of t' (e_wm E)" for t'
        by (simp split: sum.split)
      have "inflight ?m2 + mset (wt_queue ?w) = inflight (e_wm E) + mset ds"
        using inflight_set [of i t ?m1 ?w'] i inflight_cong [of ?m1 "e_wm E"] th by simp
      then have "inflight (e_wm E) = add_mset d (inflight ?m2)"
        using q by simp
      from worker_done_inv [OF inv this] obtain E2 where
        E2: "worker_done (wd_task_slot d) (E\<lparr>e_wm := ?m2\<rparr>) = (Inr (), E2)" "engine_inv E2" "leak E2 = leak E"
          "map affinities (slots E2) = map affinities (slots E)" "map group_size (slots E2) = map group_size (slots E)"
          "e_scope E2 = e_scope E"
        by blast
      have "worker_loop child t i E = (Some (Inr ()), E2)"
        using q Inr dp False E2(1) by (simp add: worker_loop_def Let_def)
      then show ?thesis
        using run E2 by simp
    qed
  qed
qed

end
