(* ===== verification/HierInvSubmit.thy ===== *)
theory HierInvSubmit
  imports HierInvOps
begin

text \<open>
  The orchestrator's calls that create slots: \<open>submit_impl\<close> and \<open>alloc\<close>, and \<open>drain\<close>. Ring allocation is
  used without releases during its wait (\<open>quiet\<close>): in the engine, releases are the scheduler's steps, so a
  submission that would block is simply not enabled until one of them has run.
\<close>

subsection \<open>Ring allocation without concurrent releases\<close>

definition quiet :: "wait_event list \<Rightarrow> bool" where
  "quiet evs \<longleftrightarrow> list_all (\<lambda>e. case e of Woken rs _ \<Rightarrow> rs = [] | TimedOut rs _ \<Rightarrow> rs = []) evs"

lemma env_step_quiet [simp]: "env_step [] sd R = (if sd then ring_shutdown R else R)"
  by (simp add: env_step_def)

lemma alloc_wait_stopped: "ring_shutdown_flag R \<Longrightarrow> alloc_wait evs ri a R = (Stopped, R)"
  by (subst alloc_wait.simps) simp

lemma ring_shutdown_flag_set [simp]: "ring_shutdown_flag (ring_shutdown R)"
  by (simp add: ring_shutdown_def)

lemma alloc_wait_quiet:
  assumes "quiet evs" and "alloc_wait evs ri a R = (res, R')"
  shows "case res of Got p e \<Rightarrow> bump_outcome ri a p e R [] R' | _ \<Rightarrow> R' = R \<or> R' = ring_shutdown R"
  using assms
proof (induction evs)
  case Nil
  then show ?case
    by (subst (asm) alloc_wait.simps) (auto simp: bump_outcome_def split: if_splits option.splits)
next
  case (Cons ev evs)
  consider (now) "ring_shutdown_flag R \<or> a = 0 \<or> try_bump_ring_heap_locked a (rings R ! ri) \<noteq> None"
    | (wait) "\<not> ring_shutdown_flag R" "a \<noteq> 0" "try_bump_ring_heap_locked a (rings R ! ri) = None"
    by blast
  then show ?case
  proof cases
    case now
    then show ?thesis
      using Cons.prems(2) by (subst (asm) alloc_wait.simps) (auto simp: bump_outcome_def split: if_splits)
  next
    case wait
    show ?thesis
    proof (cases ev)
      case (Woken rs sd)
      then have "rs = []" and q: "quiet evs"
        using Cons.prems(1) by (simp_all add: quiet_def)
      then have "alloc_wait evs ri a (if sd then ring_shutdown R else R) = (res, R')"
        using Cons.prems(2) wait Woken by (subst (asm) alloc_wait.simps) simp
      then show ?thesis
        using Cons.IH [OF q] by (cases sd) (auto simp: alloc_wait_stopped)
    next
      case (TimedOut rs sd)
      then have "rs = []"
        using Cons.prems(1) by (simp add: quiet_def)
      then show ?thesis
        using Cons.prems(2) wait TimedOut by (subst (asm) alloc_wait.simps) (auto split: if_splits)
    qed
  qed
qed

text \<open>The slot an allocation adds is unreleased, and it changes no other slot's release bit.\<close>

lemma alloc_commit_released:
  assumes inv: "ring_inv R G" and ri: "ri < MAX_RING_DEPTH" and out: "bump_outcome ri a p e R G R1"
    and com: "alloc_commit ri p e R1 = (ar, R')"
  shows "k < length (slot_states R) \<Longrightarrow> slot_released R' k = slot_released R k"
    and "\<not> slot_released R' (length (slot_states R))"
proof -
  note push = alloc_commit_push [OF com]
  have st: "slot_states R1 = slot_states R" and len: "length (rings R1) = length (rings R)"
    and rel: "\<And>j. hr_released (rings R1 ! j) = hr_released (rings R ! j)"
    using out by (auto simp: bump_outcome_def nth_list_update_if dest!: try_bump_frame split: if_splits)
  have ril: "ri < length (rings R1)"
    using ri len ring_invD(1) [OF inv] by simp
  show "\<not> slot_released R' (length (slot_states R))"
    using push st ril by (simp add: slot_released_def Let_def new_slot_state_def push_slot_def nth_append)
  assume k: "k < length (slot_states R)"
  let ?s = "slot_states R ! k"
  have "ring_slot_idx ?s < length (hr_released (rings R ! ring_idx ?s))"
    using ring_inv_slot [OF inv k] hr_invD(1) [OF ring_invD(3) [OF inv ring_inv_slot(1) [OF inv k]]] by simp
  then show "slot_released R' k = slot_released R k"
    using push st ril k rel
    by (auto simp: slot_released_def Let_def nth_append nth_list_update_if push_slot_def)
qed

definition slot_added :: "Ring \<Rightarrow> Ring \<Rightarrow> bool" where
  "slot_added R R' \<longleftrightarrow> (\<exists>G. ring_inv R' G)
     \<and> (\<exists>ri k. slot_states R' = slot_states R @ [new_slot_state ri k])
     \<and> (\<forall>k < length (slot_states R). slot_released R' k = slot_released R k)
     \<and> \<not> slot_released R' (length (slot_states R))"

definition ring_unchanged :: "Ring \<Rightarrow> Ring \<Rightarrow> bool" where
  "ring_unchanged R R' \<longleftrightarrow> R' = R \<or> R' = ring_shutdown R"

lemma ring_alloc_quiet:
  assumes inv: "ring_inv R G" and q: "quiet evs" and al: "ring_alloc evs bytes depth R = (res, R')"
  shows "case res of
      Some (Inr ar) \<Rightarrow> (if ar_slot ar = INVALID_SLOT then ring_unchanged R R'
         else slot_added R R' \<and> ar_slot ar = int (length (slot_states R)))
    | _ \<Rightarrow> ring_unchanged R R'"
proof -
  let ?ri = "ring_idx_for_scope depth" and ?a = "aligned_request bytes"
  obtain w R1 where w: "alloc_wait evs ?ri ?a R = (w, R1)"
    by fastforce
  note wr = alloc_wait_quiet [OF q w]
  note full = ring_alloc_result [OF inv al]
  show ?thesis
  proof (cases "bytes > 0 \<and> hr_size (rings R ! ?ri) = 0 \<or> ?a > hr_size (rings R ! ?ri)")
    case True
    then show ?thesis
      using al by (auto simp: ring_alloc_def Let_def ring_unchanged_def split: if_splits)
  next
    case False
    show ?thesis
    proof (cases w)
      case (Got p e)
      obtain ar R2 where com: "alloc_commit ?ri p e R1 = (ar, R2)"
        by fastforce
      have r: "res = Some (Inr ar)" "R' = R2"
        using al False w Got com by (auto simp: ring_alloc_def Let_def)
      have bo: "bump_outcome ?ri ?a p e R G R1"
        using wr Got by (simp add: bump_outcome_def)
      have slot: "ar_slot ar \<noteq> INVALID_SLOT"
        using alloc_commit_push [OF com] by (simp add: INVALID_SLOT_def)
      note rel = alloc_commit_released [OF inv ring_idx_for_scope_less bo com]
      show ?thesis
        using full slot rel r by (auto simp: slot_added_def)
    qed (use al False w wr in \<open>auto simp: ring_alloc_def Let_def INVALID_SLOT_def ring_unchanged_def\<close>)
  qed
qed


subsection \<open>Reserving the slot\<close>

lemma blank_new [simp]: "blank (new_slot_state ri k)"
  by (simp add: blank_def new_slot_state_def)

lemma flights_outside:
  assumes "work_inv E" and "\<not> (0 \<le> x \<and> x < int (length (slots E)))"
  shows "flights (e_wm E) x = 0" and "x \<notin> set (e_completion E)"
proof -
  have "x \<notin># image_mset wd_task_slot (inflight (e_wm E))"
    using assms unfolding work_inv_def by force
  then show "flights (e_wm E) x = 0"
    unfolding flights_def by (metis count_eq_zero_iff)
  show "x \<notin> set (e_completion E)"
    using assms unfolding work_inv_def by blast
qed

lemma add_slot_inv:
  assumes inv: "engine_inv E" and add: "slot_added (e_ring E) R"
  defines "E' \<equiv> E\<lparr>e_ring := R, e_active := e_active E + 1\<rparr>"
  shows "eng_inv E' (mset (concat (e_scope E))) {#}" and "leak E' = leak E"
    and "\<exists>ri k. slots E' = slots E @ [new_slot_state ri k]"
proof -
  obtain ri k where R: "slot_states R = slots E @ [new_slot_state ri k]"
    using add unfolding slot_added_def slots_def by blast
  let ?s = "new_slot_state ri k"
  have ss: "slots E' = slots E @ [?s]"
    using R by (simp add: E'_def slots_def)
  then show "\<exists>ri k. slots E' = slots E @ [new_slot_state ri k]"
    by blast
  have I: "eng_inv E (mset (concat (e_scope E))) {#}"
    using inv by (simp add: engine_inv_def)
  note I' = eng_invD [OF I]
  have free: "ts_state ?s = FREE"
    by (simp add: new_slot_state_def)
  have fr [simp]: "e_tm E' = e_tm E" "e_wm E' = e_wm E" "e_completion E' = e_completion E"
    "ready_queue_for t E' = ready_queue_for t E" for t
    by (cases t; simp add: E'_def ready_queue_for_def)+
  have q: "queue_inv E'"
    using I'(3) free unfolding queue_inv_def ss fr
    by (simp add: nth_append) (auto simp: less_Suc_eq)
  have tm: "tm_inv E'"
    using I'(4) unfolding tm_inv_def ss fr by (force simp: nth_append nat_less_iff)
  have sync: "ring_sync E'"
    using I'(5) add free unfolding ring_sync_def ss
    by (auto simp: E'_def slot_added_def nth_append less_Suc_eq slots_def)
  have w: "work_inv E'"
  proof -
    have "slot_work ?s 0 False"
      by (simp add: slot_work_def new_slot_state_def)
    then show ?thesis
      using I'(6) flights_outside [OF I'(6), of "int (length (slots E))"] unfolding work_inv_def ss fr
      by (force simp: nth_append nat_less_iff less_Suc_eq)
  qed
  show leak: "leak E' = leak E"
    using free by (simp add: leak_def unconsumed_def ss) (simp add: E'_def)
  show "eng_inv E' (mset (concat (e_scope E))) {#}"
    using graph_inv_append [OF I'(1), of ?s] acct_append [OF I'(2) I'(1), of ?s] q tm sync w leak I'(7)
    by (simp add: eng_inv_def ss)
qed

lemma queue_inv_same:
  assumes "queue_inv E" and "length (slots E') = length (slots E)" and "\<And>t. ready_queue_for t E' = ready_queue_for t E"
    and "\<And>k t. k < length (slots E) \<Longrightarrow> ts_state (slots E' ! k) = READY \<and> worker_type (slots E' ! k) = t
      \<longleftrightarrow> ts_state (slots E ! k) = READY \<and> worker_type (slots E ! k) = t"
  shows "queue_inv E'"
proof -
  have "{int k |k. k < length (slots E') \<and> ts_state (slots E' ! k) = READY \<and> worker_type (slots E' ! k) = t}
      = {int k |k. k < length (slots E) \<and> ts_state (slots E ! k) = READY \<and> worker_type (slots E ! k) = t}" for t
    using assms(2,4) by (metis (no_types, lifting))
  then show ?thesis
    using assms(1,3) by (simp add: queue_inv_def)
qed

text \<open>Filling in the new slot while it is free: only the tensor map and the payload change.\<close>

lemma free_upd_inv:
  assumes inv: "eng_inv E W F" and n: "n < length (slots E)" and free: "ts_state (slots E ! n) = FREE"
    and s': "ts_state s' = FREE" "slot_pos s' = slot_pos (slots E ! n)" "sub_complete_count s' = 0"
      "is_group s' \<Longrightarrow> 0 < group_size s'"
    and acc: "fanin_producers s' = fanin_producers (slots E ! n)" "fanout_consumers s' = fanout_consumers (slots E ! n)"
      "fanout_total s' = fanout_total (slots E ! n)" "fanout_released s' = fanout_released (slots E ! n)"
      "fanin_count s' = fanin_count (slots E ! n)" "fanin_released s' = fanin_released (slots E ! n)"
    and tm: "tm_inv ((upd_slot (int n) (\<lambda>_. s') E)\<lparr>e_tm := tm\<rparr>)"
  defines "E' \<equiv> (upd_slot (int n) (\<lambda>_. s') E)\<lparr>e_tm := tm\<rparr>"
  shows "eng_inv E' W F" and "leak E' = leak E"
proof -
  note I = eng_invD [OF inv]
  have fr [simp]: "e_wm E' = e_wm E" "e_completion E' = e_completion E" "e_active E' = e_active E"
    "ready_queue_for t E' = ready_queue_for t E" for t
    by (cases t; simp add: E'_def ready_queue_for_def)+
  have ss: "slots E' = (slots E)[n := s']"
    by (simp add: E'_def) (simp add: slots_def upd_slot_def)
  have q: "queue_inv E'"
    by (rule queue_inv_same [OF I(3)]) (use free s'(1) in \<open>auto simp: ss nth_list_update_if\<close>)
  have sync: "ring_sync E'"
    by (rule ring_sync_upd [OF I(5), of _ n s']) (use s' free in \<open>simp_all add: E'_def\<close>)
  have "slot_work (slots E ! n) (flights (e_wm E) (int n)) (int n \<in> set (e_completion E))"
    using I(6) n unfolding work_inv_def by blast
  then have none: "flights (e_wm E) (int n) = 0" "int n \<notin> set (e_completion E)"
    using free by (simp_all add: slot_work_def)
  then have notin: "int n \<notin># image_mset wd_task_slot (inflight (e_wm E))"
    unfolding flights_def by (metis count_eq_zero_iff)
  have w: "work_inv E'"
  proof -
    have "slot_work s' 0 False"
      using s' by (simp add: slot_work_def)
    then have "\<forall>k < length (slots E'). slot_work (slots E' ! k) (flights (e_wm E') (int k)) (int k \<in> set (e_completion E'))"
      using I(6) none unfolding work_inv_def ss fr by (simp add: nth_list_update_if)
    moreover have "n \<noteq> nat (wd_task_slot d)" if "d \<in># inflight (e_wm E)" for d
      using notin I(6) that unfolding work_inv_def by force
    ultimately show ?thesis
      using I(6) unfolding work_inv_def ss fr by (simp add: nth_list_update_if)
  qed
  show leak: "leak E' = leak E"
    by (rule leak_upd [OF n ss]) (use s' free in simp_all)
  have "finished s' = finished (slots E ! n)"
    using s' free by (simp add: finished_def)
  then show "eng_inv E' W F"
    using graph_inv_upd [OF I(1) acc(1,2)] acct_upd_neutral [OF I(2) _ acc] q sync w leak I(7) tm s' free
    by (simp add: eng_inv_def ss) (simp add: E'_def)
qed


subsection \<open>Output slabs\<close>

lemma sum_outputs_append:
  "sum_outputs (xs @ ys) acc = (case sum_outputs xs acc of Inl e \<Rightarrow> Inl e | Inr a \<Rightarrow> sum_outputs ys a)"
  by (induction xs acc rule: sum_outputs.induct) (auto split: sum.splits)

lemma assign_outputs_ok:
  assumes "sum_outputs (zip tags ts) acc = Inr a"
  shows "\<exists>us off'. assign_outputs base tags ts off = Inr (us, off') \<and> length us = length ts"
  using assms
proof (induction base tags ts off arbitrary: acc rule: assign_outputs.induct)
  case (1 base tag tags t ts off)
  show ?case
  proof (cases "tag \<noteq> OUTPUT \<or> ct_data t \<noteq> 0")
    case True
    then show ?thesis
      using 1(1) [OF True, of acc] 1(3) by auto
  next
    case False
    then obtain b where "output_alloc_bytes t = Inr b" "sum_outputs (zip tags ts) (acc + b) = Inr a"
      using 1(3) by (auto split: sum.splits)
    then show ?thesis
      using 1(2) [OF False, of b "acc + b"] False by auto
  qed
qed auto

lemma assign_all_ok:
  assumes "sum_outputs (concat (map (\<lambda>a. zip (ta_tags a) (ta_tensors a)) as)) acc = Inr a"
  shows "\<exists>bs. assign_all base as off = Inr bs \<and> length bs = length as"
  using assms
proof (induction as arbitrary: acc off)
  case (Cons x as)
  obtain b where b: "sum_outputs (zip (ta_tags x) (ta_tensors x)) acc = Inr b"
      "sum_outputs (concat (map (\<lambda>a. zip (ta_tags a) (ta_tensors a)) as)) b = Inr a"
    using Cons.prems by (auto simp: sum_outputs_append split: sum.splits)
  obtain us off' where "assign_outputs base (ta_tags x) (ta_tensors x) off = Inr (us, off')"
    using assign_outputs_ok [OF b(1)] by blast
  then show ?case
    using Cons.IH [OF b(2), of off'] by auto
qed simp

subsection \<open>Dependency inference\<close>

text \<open>What the inference loop has found, against the tensor map it started from.\<close>

definition deps_ok :: "TaskSlot \<Rightarrow> TensorMap \<Rightarrow> deps \<Rightarrow> bool" where
  "deps_ok slot tm0 d \<longleftrightarrow> (case d of (producers, tm, keys) \<Rightarrow>
     distinct producers \<and> slot \<notin> set producers \<and> (\<forall>p \<in> set producers. \<exists>key. tm0 key = Some p)
     \<and> (\<forall>key. tm key = (if key \<in> set keys then Some slot else tm0 key)))"

lemma infer_tensor_ok:
  assumes "deps_ok slot tm0 d"
  shows "deps_ok slot tm0 (infer_tensor slot w tt d)"
proof -
  obtain producers tm keys where d: "d = (producers, tm, keys)"
    using prod_cases3 by blast
  obtain tag t where tt: "tt = (tag, t)"
    by fastforce
  have ok: "distinct producers" "slot \<notin> set producers" "\<forall>p \<in> set producers. \<exists>key. tm0 key = Some p"
      "\<And>key. tm key = (if key \<in> set keys then Some slot else tm0 key)"
    using assms by (auto simp: deps_ok_def d)
  have found: "\<exists>key. tm0 key = Some (tm_lookup tm key')" if "tm_lookup tm key' \<noteq> INVALID_SLOT" "tm_lookup tm key' \<noteq> slot" for key'
    using that ok(4) [of key'] by (auto simp: tm_lookup_def split: option.splits if_splits)
  show ?thesis
    using ok found by (cases tag) (auto simp: infer_tensor_def d tt deps_ok_def Let_def add_unique_producer_def tm_insert_def)
qed

lemma infer_deps_ok: "deps_ok slot tm (infer_deps slot args affs tm)"
proof -
  have group: "deps_ok slot tm (infer_group slot affs ga d)" if "deps_ok slot tm d" for ga d
    using that unfolding infer_group_def
    by (cases ga) (auto intro: fold_invariant [where P = "deps_ok slot tm" and Q = "\<lambda>_. True"] infer_tensor_ok)
  have "deps_ok slot tm ([], tm, [])"
    by (simp add: deps_ok_def)
  then show ?thesis
    unfolding infer_deps_def
    by (intro fold_invariant [where P = "deps_ok slot tm" and Q = "\<lambda>_. True"]) (simp_all add: group)
qed


end
