(* ===== verification/HierInvWire.thy ===== *)
theory HierInvWire
  imports HierInvSubmit
begin

text \<open>
  The second half of a submission, its wiring to the inferred producers and its publication, then the
  whole of \<open>submit_impl\<close>, \<open>alloc\<close> and \<open>drain\<close> against the engine invariant.
\<close>

subsection \<open>Wiring\<close>

text \<open>The fields of a slot that are written by the submission only.\<close>

definition payload where
  "payload s = (worker_type s, callable_id s, ts_config s, task_args s, task_args_list s, is_group s,
     affinities s, output_keys s, slot_pos s)"

lemma payload_eqD:
  assumes "payload s' = payload s"
  shows "worker_type s' = worker_type s" "output_keys s' = output_keys s" "is_group s' = is_group s"
    "slot_pos s' = slot_pos s" "group_size s' = group_size s" "affinities s' = affinities s"
    "callable_id s' = callable_id s" "ts_config s' = ts_config s"
  using assms by (simp_all add: payload_def group_size_def)

text \<open>A rewiring: no slot changes its payload, its state or its group count.\<close>

definition control :: "TaskSlotState \<Rightarrow> _" where
  "control s = (payload s, ts_state s, sub_complete_count s)"

lemma control_maps:
  assumes "map control xs = map control ys"
  shows "map payload xs = map payload ys" and "map ts_state xs = map ts_state ys"
  using arg_cong [OF assms, of "map fst"] arg_cong [OF assms, of "map (fst \<circ> snd)"]
  by (simp_all add: comp_def control_def)

lemma rewire_inv:
  assumes inv: "eng_inv E W F" and same: "map control ss = map control (slots E)"
    and g: "graph_inv ss" and a: "acct ss W F"
  defines "E' \<equiv> E\<lparr>e_ring := (e_ring E)\<lparr>slot_states := ss\<rparr>\<rparr>"
  shows "eng_inv E' W F" and "leak E' = leak E"
proof -
  note I = eng_invD [OF inv]
  have ss: "slots E' = ss" and len: "length ss = length (slots E)"
    using map_eq_imp_length_eq [OF same] by (simp_all add: E'_def slots_def)
  have ctl: "control (ss ! k) = control (slots E ! k)" if "k < length (slots E)" for k
    using same that len by (metis nth_map)
  have c: "payload (ss ! k) = payload (slots E ! k)" "ts_state (ss ! k) = ts_state (slots E ! k)"
      "sub_complete_count (ss ! k) = sub_complete_count (slots E ! k)" if "k < length (slots E)" for k
    using ctl [OF that] by (simp_all add: control_def)
  have fr [simp]: "e_tm E' = e_tm E" "e_wm E' = e_wm E" "e_completion E' = e_completion E" "e_active E' = e_active E"
    "ready_queue_for t E' = ready_queue_for t E" for t
    by (cases t; simp add: E'_def ready_queue_for_def)+
  have q: "queue_inv E'"
    by (rule queue_inv_same [OF I(3)]) (simp_all add: ss len c payload_eqD(1) [OF c(1)])
  have tm: "tm_inv E'"
    using I(4) unfolding tm_inv_def ss fr len by (simp add: nat_less_iff c payload_eqD(2) [OF c(1)])
  have pos: "map slot_pos ss = map slot_pos (slots E)"
    using payload_eqD(4) [OF c(1)] len by (intro nth_equalityI) simp_all
  have sync: "ring_sync E'"
    using I(5) ring_inv_slots [of "e_ring E" _ ss] slot_released_slots [of ss "e_ring E"] pos len c
    unfolding ring_sync_def ss by (auto simp: E'_def slots_def)
  have "slot_work (ss ! k) fl dn = slot_work (slots E ! k) fl dn" if "k < length (slots E)" for k fl dn
    using c [OF that] payload_eqD [OF c(1) [OF that]] by (simp add: slot_work_def)
  then have w: "work_inv E'"
    using I(6) payload_eqD(5) [OF c(1)] unfolding work_inv_def ss fr len by (simp add: nat_less_iff)
  have "map ts_state ss = map ts_state (slots E)"
    using c len by (intro nth_equalityI) simp_all
  then have "map (\<lambda>s. s \<noteq> CONSUMED) (map ts_state ss) = map (\<lambda>s. s \<noteq> CONSUMED) (map ts_state (slots E))"
    by simp
  then have "length (filter id (map (\<lambda>s. ts_state s \<noteq> CONSUMED) ss)) = length (filter id (map (\<lambda>s. ts_state s \<noteq> CONSUMED) (slots E)))"
    by (simp add: comp_def)
  then show leak: "leak E' = leak E"
    by (simp add: leak_def unconsumed_def ss filter_map comp_def)
  show "eng_inv E' W F"
    using g a q tm sync w leak I(7) by (simp add: eng_inv_def ss)
qed

lemma control_wire: "p < n \<Longrightarrow> n < length ss \<Longrightarrow> map control (wire n p ss) = map control ss"
  by (rule nth_equalityI) (simp_all add: wire_nth control_def payload_def slot_pos_def)

text \<open>Slot \<open>n\<close> is the last one and under construction.\<close>

definition building :: "nat \<Rightarrow> Engine \<Rightarrow> bool" where
  "building n E \<longleftrightarrow> length (slots E) = Suc n \<and> ts_state (slots E ! n) = FREE
     \<and> fanout_total (slots E ! n) = 0 \<and> fanout_released (slots E ! n) = 0"

lemma wire_producer_eq:
  assumes b: "building n E" and p: "p < n" and alive: "ts_state (slots E ! p) \<noteq> CONSUMED"
  shows "wire_producer (int n) (int p) (E, l) =
    (Inr (), (E\<lparr>e_ring := (e_ring E)\<lparr>slot_states := wire n p (slots E)\<rparr>\<rparr>,
       if ts_state (slots E ! p) \<noteq> COMPLETED then l + 1 else l))"
  using assms slot_state_valid(1) [of p E]
  by (simp add: wire_producer_def building_def wire_def Let_def) (simp add: upd_slot_def slots_def)

definition wired :: "nat \<Rightarrow> TaskSlot list \<Rightarrow> Engine \<Rightarrow> Engine \<Rightarrow> bool" where
  "wired n ps E E' \<longleftrightarrow> (\<exists>ss. E' = E\<lparr>e_ring := (e_ring E)\<lparr>slot_states := ss\<rparr>\<rparr>
     \<and> map control ss = map control (slots E) \<and> fanin_producers (ss ! n) = ps)"

lemma wire_loop:
  assumes inv: "eng_inv E W {#}" and b: "building n E" and none: "fanin_producers (slots E ! n) = []"
    and ps: "distinct ps" "\<forall>p \<in> set ps. 0 \<le> p \<and> p < int n \<and> ts_state (slots E ! nat p) \<noteq> CONSUMED"
  shows "\<exists>E'. for_each (wire_producer (int n)) ps (E, 0) = (Inr (), (E', int (nlive (slots E') n)))
    \<and> eng_inv E' W {#} \<and> leak E' = leak E \<and> building n E' \<and> wired n ps E E'"
proof -
  let ?I = "\<lambda>xs El. \<exists>E' ys. El = (E', int (nlive (slots E') n)) \<and> ys @ xs = ps
    \<and> eng_inv E' W {#} \<and> leak E' = leak E \<and> building n E' \<and> wired n ys E E'"
  have "\<exists>El. for_each (wire_producer (int n)) ps (E, 0) = (Inr (), El) \<and> ?I [] El"
  proof (rule for_each_rule [where I = ?I])
    show "?I ps (E, 0)"
      using inv b none by (auto simp: nlive_def wired_def slots_def intro!: exI [of _ "slot_states (e_ring E)"])
    fix x xs El
    assume "?I (x # xs) El"
    then obtain E' ys where E': "El = (E', int (nlive (slots E') n))" "ys @ x # xs = ps"
        "eng_inv E' W {#}" "leak E' = leak E" "building n E'" "wired n ys E E'"
      by blast
    have x: "0 \<le> x" "x < int n" "ts_state (slots E ! nat x) \<noteq> CONSUMED" "x \<notin> set ys"
      using ps E'(2) by auto
    define p where "p = nat x"
    have p: "x = int p" "p < n"
      using x by (auto simp: p_def)
    obtain ss where ss: "E' = E\<lparr>e_ring := (e_ring E)\<lparr>slot_states := ss\<rparr>\<rparr>" "map control ss = map control (slots E)"
        "fanin_producers (ss ! n) = ys" "slots E' = ss"
      using E'(6) by (auto simp: wired_def slots_def)
    have n: "length ss = Suc n" "ts_state (ss ! n) = FREE" "n < length ss"
      using E'(5) ss(4) by (auto simp: building_def)
    have "control (ss ! p) = control (slots E ! p)"
      using ss(2) n p map_eq_imp_length_eq [OF ss(2)] by (metis less_SucI nth_map)
    then have alive: "ts_state (ss ! p) \<noteq> CONSUMED"
      using x(3) p_def by (simp add: control_def)
    note I' = eng_invD [OF E'(3)]
    have g: "graph_inv (wire n p ss)" and a: "acct (wire n p ss) W {#}"
      using graph_inv_wire [of ss n p] acct_wire [of ss W "{#}" n p] I'(1,2) ss n p x alive by simp_all
    let ?E2 = "E'\<lparr>e_ring := (e_ring E')\<lparr>slot_states := wire n p ss\<rparr>\<rparr>"
    have sl: "slots ?E2 = wire n p ss"
      by (simp add: slots_def)
    have "wire_producer (int n) x El = (Inr (), (?E2, int (nlive (slots ?E2) n)))"
      using wire_producer_eq [OF E'(5) p(2)] alive ss(4) p E'(1) nlive_wire [OF p(2) n(3)] sl
      by (simp add: finished_def)
    moreover have "eng_inv ?E2 W {#}" "leak ?E2 = leak E"
      using rewire_inv [OF E'(3), of "wire n p ss"] control_wire [OF p(2) n(3)] g a ss(4) E'(4) by simp_all
    moreover have "building n ?E2"
      using E'(5) n p unfolding building_def sl ss(4) by (simp add: wire_nth)
    moreover have "wired n (ys @ [x]) E ?E2"
      using ss n p control_wire [OF p(2) n(3)] by (auto simp: wired_def wire_nth intro!: exI [of _ "wire n p ss"])
    ultimately show "\<exists>El'. wire_producer (int n) x El = (Inr (), El') \<and> ?I xs El'"
      using E'(2) by (intro exI [of _ "(?E2, int (nlive (slots ?E2) n))"]) (auto intro!: exI [of _ "ys @ [x]"])
  qed
  then show ?thesis by auto
qed


subsection \<open>Publication\<close>

lemma concat_register: "sc \<noteq> [] \<Longrightarrow> mset (concat (register_task k sc)) = mset (concat sc) + {#k#}"
  by (cases sc) (simp_all add: register_task_def)

definition scope_ref :: "Engine \<Rightarrow> int" where
  "scope_ref E = (if scope_depth (e_scope E) > 0 then 1 else 0)"

lemma scope_ref_01: "scope_ref E = 0 \<or> scope_ref E = 1"
  by (simp add: scope_ref_def)

lemma submit_publish_simps:
  fixes E :: Engine and n :: nat and wtype :: WorkerType
  assumes b: "building n E"
  defines "E' \<equiv> submit_publish wtype (int n) (int (nlive (slots E) n)) E"
  shows "e_ring E' = e_ring (upd_slot (int n) (\<lambda>_. publish (scope_ref E) (slots E) n) E)"
    and "slots E' = (slots E)[n := publish (scope_ref E) (slots E) n]"
    and "e_scope E' = (if e_scope E = [] then [] else register_task (int n) (e_scope E))"
    and "e_tm E' = e_tm E" "e_wm E' = e_wm E" "e_completion E' = e_completion E" "e_active E' = e_active E"
    and "rq_q (ready_queue_for t E') = rq_q (ready_queue_for t E) @ (if nlive (slots E) n = 0 \<and> wtype = t then [int n] else [])"
proof -
  have n: "n < length (slots E)"
    using b by (simp add: building_def)
  show r: "e_ring E' = e_ring (upd_slot (int n) (\<lambda>_. publish (scope_ref E) (slots E) n) E)"
    using n by (simp add: E'_def submit_publish_def Let_def publish_def scope_ref_def)
      (simp add: upd_slot_def slots_def)
  show "slots E' = (slots E)[n := publish (scope_ref E) (slots E) n]"
    using r by (simp add: slots_def upd_slot_def)
  show "e_scope E' = (if e_scope E = [] then [] else register_task (int n) (e_scope E))"
    by (simp add: E'_def submit_publish_def Let_def scope_depth_def)
  show "e_tm E' = e_tm E" "e_wm E' = e_wm E" "e_completion E' = e_completion E" "e_active E' = e_active E"
    by (simp_all add: E'_def submit_publish_def Let_def)
  show "rq_q (ready_queue_for t E') = rq_q (ready_queue_for t E) @ (if nlive (slots E) n = 0 \<and> wtype = t then [int n] else [])"
    by (simp add: E'_def submit_publish_def Let_def push_ready_queue)
qed

lemma publish_fields:
  "payload (publish r ss n) = payload (ss ! n)" "sub_complete_count (publish r ss n) = sub_complete_count (ss ! n)"
  "fanin_producers (publish r ss n) = fanin_producers (ss ! n)" "fanout_consumers (publish r ss n) = fanout_consumers (ss ! n)"
  "ts_state (publish r ss n) = (if nlive ss n = 0 then READY else PENDING)"
  by (simp_all add: publish_def payload_def slot_pos_def)

lemma publish_inv:
  assumes inv: "eng_inv E (mset (concat (e_scope E))) {#}" and b: "building n E" and wt: "worker_type (slots E ! n) = wtype"
  defines "E' \<equiv> submit_publish wtype (int n) (int (nlive (slots E) n)) E"
  shows "eng_inv E' (mset (concat (e_scope E'))) {#}" and "leak E' = leak E"
proof -
  let ?s = "slots E ! n" and ?s' = "publish (scope_ref E) (slots E) n"
  note I = eng_invD [OF inv]
  note simps = submit_publish_simps [OF b, where wtype = wtype, folded E'_def]
  note pay = payload_eqD [OF publish_fields(1), of "scope_ref E" "slots E" n]
  have n: "n < length (slots E)" and free: "ts_state ?s = FREE"
    using b by (simp_all add: building_def)
  have tm: "tm_inv E'"
    by (rule tm_inv_upd [OF I(4) simps(2)]) (simp_all add: pay simps publish_fields)
  have sync: "ring_sync E'"
    by (rule ring_sync_upd [OF I(5) simps(1)]) (simp_all add: pay publish_fields free)
  have w: "work_inv E'"
    by (rule work_inv_upd [OF I(6) simps(2,5,6)])
      (use free in \<open>simp_all add: pay slot_work_def publish_fields\<close>)
  show leak: "leak E' = leak E"
    by (rule leak_upd [OF n simps(2,7)]) (simp add: publish_fields free)
  have q: "queue_inv E'"
  proof (cases "nlive (slots E) n = 0")
    case True
    then show ?thesis
      by (intro queue_inv_ready [OF I(3) simps(2) n]) (simp_all add: publish_fields free simps pay wt)
  next
    case False
    have "rq_q (ready_queue_for t E') = rq_q (ready_queue_for t E)" for t
      using False simps(8) by simp
    moreover have "{int k |k. k < length (slots E') \<and> ts_state (slots E' ! k) = READY \<and> worker_type (slots E' ! k) = t}
      = {int k |k. k < length (slots E) \<and> ts_state (slots E ! k) = READY \<and> worker_type (slots E ! k) = t}" for t
      using False free by (intro Collect_cong ex_cong1) (auto simp: simps(2) nth_list_update_if publish_fields)
    ultimately show ?thesis
      using I(3) by (simp add: queue_inv_def)
  qed
  have "acct (slots E') (mset (concat (e_scope E)) + (if scope_ref E = 1 then {#int n#} else {#})) {#}"
    unfolding simps(2) by (rule acct_publish [OF I(2,1)]) (use b scope_ref_01 in \<open>simp_all add: building_def\<close>)
  moreover have "mset (concat (e_scope E')) = mset (concat (e_scope E)) + (if scope_ref E = 1 then {#int n#} else {#})"
    by (simp add: simps scope_ref_def scope_depth_def concat_register)
  moreover have "graph_inv (slots E')"
    unfolding simps(2) by (rule graph_inv_upd [OF I(1)]) (simp_all add: publish_fields)
  ultimately show "eng_inv E' (mset (concat (e_scope E'))) {#}"
    using q tm sync w leak I(7) by (simp add: eng_inv_def)
qed

subsection \<open>Submission\<close>

lemma ring_unchanged_slots: "ring_unchanged R R' \<Longrightarrow> slot_states R' = slot_states R"
  by (auto simp: ring_unchanged_def ring_shutdown_def)

lemma unchanged_inv:
  assumes inv: "engine_inv E" and R: "ring_unchanged (e_ring E) R" and a: "e_active E \<le> a"
  shows "engine_inv (E\<lparr>e_ring := R, e_active := a\<rparr>)"
proof -
  let ?E = "E\<lparr>e_ring := R, e_active := a\<rparr>"
  have I: "eng_inv E (mset (concat (e_scope E))) {#}" "no_free E"
    using inv by (simp_all add: engine_inv_def)
  note I' = eng_invD [OF I(1)]
  have ss: "slots ?E = slots E" and rq: "ready_queue_for t ?E = ready_queue_for t E" for t
    using ring_unchanged_slots [OF R] by (simp add: slots_def) (cases t; simp add: ready_queue_for_def)
  have "ring_inv R G" "slot_released R k = slot_released (e_ring E) k" if "ring_inv (e_ring E) G" for G k
    using R that ring_inv_shutdown
    by (auto simp: ring_unchanged_def slot_released_def ring_shutdown_def)
  then have "ring_sync ?E"
    using I'(5) ss by (auto simp: ring_sync_def)
  moreover have "queue_inv ?E" "tm_inv ?E" "work_inv ?E" "0 \<le> leak ?E"
    using I'(3,4,6,7) a ss rq by (simp_all add: queue_inv_def tm_inv_def work_inv_def leak_def unconsumed_def)
  ultimately show ?thesis
    using I' I(2) ss by (simp add: engine_inv_def eng_inv_def no_free_def)
qed

lemma reserve_result:
  assumes inv: "ring_inv (e_ring E) G" and q: "quiet evs" and r: "reserve_outputs_and_slot evs args_list E = (res, E')"
  shows "\<exists>R. E' = E\<lparr>e_ring := R\<rparr> \<and> (case res of
      Some (Inr (ar, args)) \<Rightarrow> (if ar_slot ar = INVALID_SLOT then ring_unchanged (e_ring E) R
         else slot_added (e_ring E) R \<and> ar_slot ar = int (length (slots E)) \<and> length args = length args_list)
    | _ \<Rightarrow> ring_unchanged (e_ring E) R)"
proof (cases "sum_outputs (concat (map (\<lambda>a. zip (ta_tags a) (ta_tensors a)) args_list)) 0")
  case (Inl e)
  then show ?thesis
    using r by (intro exI [of _ "e_ring E"]) (auto simp: reserve_outputs_and_slot_def ring_unchanged_def)
next
  case (Inr n)
  obtain al R where al: "ring_alloc evs n (int (current_depth (e_scope E))) (e_ring E) = (al, R)"
    by fastforce
  note al' = ring_alloc_quiet [OF inv q al]
  have "\<forall>base. \<exists>b. assign_all base args_list 0 = Inr b \<and> length b = length args_list"
    using assign_all_ok [OF Inr] by blast
  then obtain bs where "\<And>base. assign_all base args_list 0 = Inr (bs base) \<and> length (bs base) = length args_list"
    by metis
  then show ?thesis
    using r al al' Inr
    by (intro exI [of _ R]) (auto simp: reserve_outputs_and_slot_def slots_def split: option.splits sum.splits if_splits)
qed


text \<open>What a submission leaves of the rest of the engine.\<close>

definition submit_frame :: "Engine \<Rightarrow> Engine \<Rightarrow> bool" where
  "submit_frame E E' \<longleftrightarrow> e_wm E' = e_wm E \<and> e_completion E' = e_completion E
     \<and> map payload (take (length (slots E)) (slots E')) = map payload (slots E)
     \<and> map ts_state (take (length (slots E)) (slots E')) = map ts_state (slots E)"

lemma store_args_fields [simp]:
  "ts_state (store_args args affs s) = ts_state s" "slot_pos (store_args args affs s) = slot_pos s"
  "sub_complete_count (store_args args affs s) = sub_complete_count s"
  "fanin_producers (store_args args affs s) = fanin_producers s" "fanout_consumers (store_args args affs s) = fanout_consumers s"
  "fanout_total (store_args args affs s) = fanout_total s" "fanout_released (store_args args affs s) = fanout_released s"
  "fanin_count (store_args args affs s) = fanin_count s" "fanin_released (store_args args affs s) = fanin_released s"
  "output_keys (store_args args affs s) = output_keys s" "worker_type (store_args args affs s) = worker_type s"
  "affinities (store_args args affs s) = affs" "callable_id (store_args args affs s) = callable_id s"
  "ts_config (store_args args affs s) = ts_config s"
  by (simp_all add: store_args_def slot_pos_def)

lemma store_args_group:
  "group_size (store_args args affs s) = length args" "is_group (store_args args affs s) = (length args \<noteq> 1)"
  by (simp_all add: store_args_def group_size_def)

definition slot_args :: "TaskSlotState \<Rightarrow> TaskArgs list" where
  "slot_args s = (if is_group s then task_args_list s else [task_args s])"

lemma slot_args_store: "args \<noteq> [] \<Longrightarrow> slot_args (store_args args affs s) = args"
  by (cases args) (auto simp: slot_args_def store_args_def)

lemma slot_args_payload: "payload s' = payload s \<Longrightarrow> slot_args s' = slot_args s"
  by (simp add: payload_def slot_args_def)

definition new_task :: "WorkerType \<Rightarrow> int \<Rightarrow> CallConfig \<Rightarrow> TensorKey list \<Rightarrow> TaskArgs list \<Rightarrow> int list \<Rightarrow> TaskSlotState \<Rightarrow> TaskSlotState" where
  "new_task wtype cid cfg keys args affs s = store_args args affs ((slot_reset s)\<lparr>worker_type := wtype, callable_id := cid,
     ts_config := cfg, output_keys := keys\<rparr>)"

lemma submit_enter_cases:
  assumes inv: "ring_inv (e_ring E) G" and q: "quiet evs"
    and r: "submit_enter evs wtype cid cfg args_list affs E = (Some res, E1)"
  shows "case res of
      Inl e \<Rightarrow> \<exists>R a. E1 = E\<lparr>e_ring := R, e_active := a\<rparr> \<and> ring_unchanged (e_ring E) R \<and> e_active E \<le> a
    | Inr (slot, ps) \<Rightarrow> \<exists>R args tm keys E2. slot_added (e_ring E) R \<and> slot = int (length (slots E))
         \<and> args_list \<noteq> [] \<and> length args = length args_list
         \<and> infer_deps slot args affs (e_tm E) = (ps, tm, keys) \<and> E2 = E\<lparr>e_ring := R, e_active := e_active E + 1\<rparr>
         \<and> E1 = (upd_slot slot (\<lambda>_. new_task wtype cid cfg keys args affs (slots E2 ! nat slot)) E2)\<lparr>e_tm := tm\<rparr>"
proof (cases "args_list = [] \<or> (\<exists>e. validate cfg = Inl e) \<or> has_error (e_wm E)")
  case True
  then have "\<exists>e. res = Inl e" "E1 = E"
    using r by (auto simp: submit_enter_def split: sum.splits if_splits)
  then show ?thesis
    by (auto simp: ring_unchanged_def intro!: exI [of _ "e_ring E"] exI [of _ "e_active E"])
next
  case False
  then obtain v where v: "args_list \<noteq> []" "validate cfg = Inr v" "\<not> has_error (e_wm E)"
    by (meson sumE)
  let ?E = "E\<lparr>e_active := e_active E + 1\<rparr>"
  obtain rr E2 where rr: "reserve_outputs_and_slot evs args_list ?E = (rr, E2)"
    by fastforce
  obtain R where R: "E2 = ?E\<lparr>e_ring := R\<rparr>" "case rr of
      Some (Inr (ar, args)) \<Rightarrow> (if ar_slot ar = INVALID_SLOT then ring_unchanged (e_ring ?E) R
         else slot_added (e_ring ?E) R \<and> ar_slot ar = int (length (slots ?E)) \<and> length args = length args_list)
    | _ \<Rightarrow> ring_unchanged (e_ring ?E) R"
    using reserve_result [OF _ q rr] inv by auto
  have E2: "E2 = E\<lparr>e_ring := R, e_active := e_active E + 1\<rparr>"
    using R(1) by simp
  consider (err) e where "rr = Some (Inl e)" | (ok) ar args where "rr = Some (Inr (ar, args))"
    using r v rr by (cases rr) (auto simp: submit_enter_def Let_def split: sum.splits)
  then show ?thesis
  proof cases
    case err
    then show ?thesis
      using r v rr R E2 by (auto simp: submit_enter_def Let_def intro!: exI [of _ R] exI [of _ "e_active E + 1"])
  next
    case ok
    show ?thesis
    proof (cases "ar_slot ar = INVALID_SLOT")
      case True
      then show ?thesis
        using r v rr R E2 ok by (auto simp: submit_enter_def Let_def intro!: exI [of _ R] exI [of _ "e_active E"])
    next
      case False
      let ?n = "length (slots E)"
      have sl: "slot_added (e_ring E) R" "ar_slot ar = int ?n" "length args = length args_list"
        using R(2) ok False by (simp_all add: slots_def)
      obtain ps tm keys where inf: "infer_deps (int ?n) args affs (e_tm E) = (ps, tm, keys)"
        using prod_cases3 by blast
      have "slots E2 = slots E @ [slots E2 ! ?n]"
        using sl(1) E2 by (auto simp: slot_added_def slots_def)
      then have "orch_slot_state (int ?n) E2 = Inr (slots E2 ! ?n)"
        by (intro slot_state_valid(1)) (metis length_append_singleton lessI)
      then have "E1 = (upd_slot (int ?n) (\<lambda>_. new_task wtype cid cfg keys args affs (slots E2 ! ?n)) E2)\<lparr>e_tm := tm\<rparr>"
          "res = Inr (int ?n, ps)"
        using r v rr ok False sl(2) inf E2
        by (simp_all add: submit_enter_def Let_def upd_slot_twice new_task_def) (auto simp: upd_slot_def slots_def)
      then show ?thesis
        using sl inf v(1) E2 by auto
    qed
  qed
qed


text \<open>The slot \<open>submit_enter\<close> hands to the wiring loop.\<close>

lemma new_task_fields:
  shows "ts_state (new_task wtype cid cfg keys args affs s) = FREE" "slot_pos (new_task wtype cid cfg keys args affs s) = slot_pos s"
    "sub_complete_count (new_task wtype cid cfg keys args affs s) = 0"
    "fanin_producers (new_task wtype cid cfg keys args affs s) = []" "fanout_consumers (new_task wtype cid cfg keys args affs s) = []"
    "fanout_total (new_task wtype cid cfg keys args affs s) = 0" "fanout_released (new_task wtype cid cfg keys args affs s) = 0"
    "fanin_count (new_task wtype cid cfg keys args affs s) = 0" "fanin_released (new_task wtype cid cfg keys args affs s) = 0"
    "output_keys (new_task wtype cid cfg keys args affs s) = keys" "worker_type (new_task wtype cid cfg keys args affs s) = wtype"
    "affinities (new_task wtype cid cfg keys args affs s) = affs" "group_size (new_task wtype cid cfg keys args affs s) = length args"
    "callable_id (new_task wtype cid cfg keys args affs s) = cid" "ts_config (new_task wtype cid cfg keys args affs s) = cfg"
  by (simp_all add: new_task_def slot_reset_def store_args_group) (simp add: slot_pos_def)

lemma submit_enter_inv:
  assumes inv: "engine_inv E" and q: "quiet evs"
    and r: "submit_enter evs wtype cid cfg args_list affs E = (Some (Inr (slot, ps)), E1)"
  defines "n \<equiv> length (slots E)"
  shows "\<exists>s. slot = int n \<and> eng_inv E1 (mset (concat (e_scope E))) {#} \<and> leak E1 = leak E \<and> building n E1
    \<and> slots E1 = slots E @ [s] \<and> fanin_producers s = [] \<and> worker_type s = wtype \<and> affinities s = affs
    \<and> group_size s = length args_list \<and> e_scope E1 = e_scope E \<and> e_wm E1 = e_wm E \<and> e_completion E1 = e_completion E
    \<and> distinct ps \<and> (\<forall>p \<in> set ps. 0 \<le> p \<and> p < int n \<and> ts_state (slots E ! nat p) \<noteq> CONSUMED)
    \<and> callable_id s = cid \<and> ts_config s = cfg \<and> infer_deps slot (slot_args s) affs (e_tm E) = (ps, e_tm E1, output_keys s)"
proof -
  have I: "eng_inv E (mset (concat (e_scope E))) {#}"
    using inv by (simp add: engine_inv_def)
  note I' = eng_invD [OF I]
  obtain G where G: "ring_inv (e_ring E) G"
    using I'(5) by (auto simp: ring_sync_def)
  obtain R args tm keys E2 where R: "slot_added (e_ring E) R" "slot = int n" "args_list \<noteq> []" "length args = length args_list"
      "infer_deps slot args affs (e_tm E) = (ps, tm, keys)" "E2 = E\<lparr>e_ring := R, e_active := e_active E + 1\<rparr>"
      "E1 = (upd_slot (int n) (\<lambda>_. new_task wtype cid cfg keys args affs (slots E2 ! n)) E2)\<lparr>e_tm := tm\<rparr>"
    using submit_enter_cases [OF G q r] unfolding n_def by auto
  note add = add_slot_inv [OF inv R(1), folded R(6)]
  obtain ri k where s2: "slots E2 = slots E @ [new_slot_state ri k]"
    using add(3) by blast
  let ?new = "new_slot_state ri k"
  let ?s = "new_task wtype cid cfg keys args affs ?new"
  have n2: "slots E2 ! n = ?new" "length (slots E2) = Suc n"
    by (simp_all add: s2 n_def)
  have "slots E1 = (slots E2)[n := ?s]"
    unfolding R(7) n2 by (simp add: slots_def upd_slot_def)
  then have s1: "slots E1 = slots E @ [?s]"
    by (simp add: s2 n_def)
  note nt = new_task_fields [of wtype cid cfg keys args affs ?new]
  have deps: "distinct ps" "slot \<notin> set ps" "\<forall>p \<in> set ps. \<exists>key. e_tm E key = Some p"
      "\<And>key. tm key = (if key \<in> set keys then Some slot else e_tm E key)"
    using infer_deps_ok [of slot "e_tm E" args affs] R(5) by (auto simp: deps_ok_def)
  have tm: "tm_inv E1"
    unfolding tm_inv_def s1
  proof (intro allI impI)
    fix key p assume "e_tm E1 key = Some p"
    then have "tm key = Some p"
      using R(7) by simp
    then consider "key \<in> set keys" "p = int n" | "e_tm E key = Some p"
      using deps(4) [of key] R(2) by (auto split: if_splits)
    then show "0 \<le> p \<and> p < int (length (slots E @ [?s])) \<and> key \<in> set (output_keys ((slots E @ [?s]) ! nat p))
        \<and> ts_state ((slots E @ [?s]) ! nat p) \<noteq> CONSUMED"
    proof cases
      case 1
      then show ?thesis by (simp add: n_def nt)
    next
      case 2
      then show ?thesis
        using I'(4) unfolding tm_inv_def by (force simp: nth_append nat_less_iff)
    qed
  qed
  have fields: "fanin_producers ?new = []" "fanout_consumers ?new = []" "fanout_total ?new = 0" "fanout_released ?new = 0"
      "fanin_count ?new = 0" "fanin_released ?new = 0" "ts_state ?new = FREE"
    by (simp_all add: new_slot_state_def)
  have pos: "is_group ?s \<Longrightarrow> 0 < group_size ?s"
    using R(3,4) by (simp add: nt)
  have "eng_inv E1 (mset (concat (e_scope E))) {#} \<and> leak E1 = leak E2"
    using free_upd_inv [OF add(1), of n ?s tm] tm pos unfolding R(7) n2 by (simp add: nt fields)
  moreover have "0 \<le> p \<and> p < int n \<and> ts_state (slots E ! nat p) \<noteq> CONSUMED" if "p \<in> set ps" for p
    using deps(3) that I'(4) unfolding tm_inv_def n_def by blast
  moreover have "building n E1"
    by (simp add: building_def s1 n_def nt)
  moreover have "e_scope E1 = e_scope E" "e_wm E1 = e_wm E" "e_completion E1 = e_completion E"
    using R(6,7) by simp_all
  moreover have "slot_args ?s = args"
    using R(3,4) unfolding new_task_def by (intro slot_args_store) auto
  then have "infer_deps slot (slot_args ?s) affs (e_tm E) = (ps, e_tm E1, output_keys ?s)"
    using R(5,7) by (simp add: nt)
  ultimately show ?thesis
    using add(2) R(2,4) deps(1) s1 nt by auto
qed


text \<open>
  The whole submission. On success the new slot is wired to exactly the producers the inference found, with
  one consumer entry in each; on a failure the slots are as before.
\<close>

lemma submit_impl_inv:
  assumes inv: "engine_inv E" and q: "quiet evs"
    and r: "submit_impl evs wtype cid cfg args_list affs E = (Some res, E')"
  shows "engine_inv E' \<and> (case res of
      Inl e \<Rightarrow> slots E' = slots E \<and> leak E \<le> leak E' \<and> e_wm E' = e_wm E
    | Inr slot \<Rightarrow> slot = int (length (slots E)) \<and> leak E' = leak E \<and> submit_frame E E'
        \<and> length (slots E') = Suc (length (slots E))
        \<and> (let s = slots E' ! length (slots E) in worker_type s = wtype \<and> callable_id s = cid \<and> ts_config s = cfg
             \<and> affinities s = affs \<and> group_size s = length args_list
             \<and> infer_deps slot (slot_args s) affs (e_tm E) = (fanin_producers s, e_tm E', output_keys s)
             \<and> ts_state s = (if nlive (slots E') (length (slots E)) = 0 then READY else PENDING)
             \<and> e_scope E' = (if e_scope E = [] then [] else register_task slot (e_scope E))))"
proof -
  have I: "eng_inv E (mset (concat (e_scope E))) {#}" and nf: "no_free E"
    using inv by (simp_all add: engine_inv_def)
  obtain G where G: "ring_inv (e_ring E) G"
    using eng_invD(5) [OF I] by (auto simp: ring_sync_def)
  let ?n = "length (slots E)"
  obtain er E1 where er: "submit_enter evs wtype cid cfg args_list affs E = (Some er, E1)"
    using r by (cases "submit_enter evs wtype cid cfg args_list affs E")
      (auto simp: submit_impl_def split: option.splits)
  show ?thesis
  proof (cases er)
    case (Inl e)
    then have "res = Inl e" "E' = E1"
      using r er by (simp_all add: submit_impl_def)
    moreover obtain R a where "E1 = E\<lparr>e_ring := R, e_active := a\<rparr>" "ring_unchanged (e_ring E) R" "e_active E \<le> a"
      using submit_enter_cases [OF G q er] Inl by auto
    ultimately show ?thesis
      using unchanged_inv [OF inv] ring_unchanged_slots by (auto simp: slots_def leak_def unconsumed_def)
  next
    case (Inr x)
    obtain ps where x: "x = (fst x, ps)"
      by (metis prod.collapse)
    obtain s where s: "fst x = int ?n" "eng_inv E1 (mset (concat (e_scope E))) {#}" "leak E1 = leak E" "building ?n E1"
        "slots E1 = slots E @ [s]" "fanin_producers s = []" "worker_type s = wtype" "affinities s = affs"
        "group_size s = length args_list" "e_scope E1 = e_scope E" "e_wm E1 = e_wm E" "e_completion E1 = e_completion E"
        "distinct ps" "\<forall>p \<in> set ps. 0 \<le> p \<and> p < int ?n \<and> ts_state (slots E ! nat p) \<noteq> CONSUMED"
        "callable_id s = cid" "ts_config s = cfg" "infer_deps (int ?n) (slot_args s) affs (e_tm E) = (ps, e_tm E1, output_keys s)"
      using submit_enter_inv [OF inv q, of wtype cid cfg args_list affs "fst x" ps E1] er Inr x by auto
    have ps: "\<forall>p \<in> set ps. 0 \<le> p \<and> p < int ?n \<and> ts_state (slots E1 ! nat p) \<noteq> CONSUMED"
      using s(14) by (auto simp: s(5) nth_append)
    have none: "fanin_producers (slots E1 ! ?n) = []"
      using s(5,6) by simp
    obtain E2 where E2: "for_each (wire_producer (int ?n)) ps (E1, 0) = (Inr (), (E2, int (nlive (slots E2) ?n)))"
        "eng_inv E2 (mset (concat (e_scope E))) {#}" "leak E2 = leak E1" "building ?n E2" "wired ?n ps E1 E2"
      using wire_loop [OF s(2,4) none s(13) ps] by blast
    obtain ss where ss: "E2 = E1\<lparr>e_ring := (e_ring E1)\<lparr>slot_states := ss\<rparr>\<rparr>" "map control ss = map control (slots E1)"
        "fanin_producers (ss ! ?n) = ps" "slots E2 = ss"
      using E2(5) by (auto simp: wired_def slots_def)
    have len: "length ss = Suc ?n"
      using map_eq_imp_length_eq [OF ss(2)] s(5) by simp
    have ctl: "control (ss ! k) = control (slots E1 ! k)" if "k < Suc ?n" for k
      using ss(2) that len by (metis length_map nth_map)
    have E': "res = Inr (int ?n)" "E' = submit_publish wtype (int ?n) (int (nlive (slots E2) ?n)) E2"
      using r er Inr x s(1) E2(1) by (auto simp: submit_impl_def split: prod.splits)
    have sc: "e_scope E2 = e_scope E"
      using ss(1) s(10) by simp
    have wt: "worker_type (slots E2 ! ?n) = wtype"
      using ctl [of ?n] s(5,7) ss(4) payload_eqD(1) [of "ss ! ?n" s] by (simp add: control_def)
    note pub = publish_inv [OF E2(2) [folded sc] E2(4) wt, folded E'(2)]
    note simps = submit_publish_simps [OF E2(4), where wtype = wtype, folded E'(2)]
    let ?p = "publish (scope_ref E2) (slots E2) ?n"
    have "no_free E'"
    proof -
      have "ts_state (slots E' ! k) \<noteq> FREE" if "k < Suc ?n" for k
        using that ctl [OF that] nf len
        by (auto simp: simps(2) ss(4) nth_list_update_if publish_fields control_def s(5) nth_append no_free_def less_Suc_eq)
      then show ?thesis
        using len by (auto simp: no_free_def in_set_conv_nth simps(2) ss(4))
    qed
    moreover have pay: "payload (slots E' ! ?n) = payload s"
      using ctl [of ?n] s(5) len by (simp add: simps(2) ss(4) publish_fields control_def)
    note p = payload_eqD(1,2,5-8) [OF pay] slot_args_payload [OF pay]
    moreover have "map control (take ?n (slots E')) = map control (slots E)"
      using ctl len s(5) by (intro nth_equalityI) (simp_all add: simps(2) ss(4) nth_append)
    then have "map payload (take ?n (slots E')) = map payload (slots E)"
        "map ts_state (take ?n (slots E')) = map ts_state (slots E)"
      by (rule control_maps)+
    moreover have "e_wm E' = e_wm E" "e_completion E' = e_completion E"
      using s(11,12) ss(1) by (simp_all add: simps)
    moreover have "length (slots E') = Suc ?n"
      using len by (simp add: simps(2) ss(4))
    moreover have "leak E' = leak E"
      using pub(2) E2(3) s(3) by simp
    moreover have "finished ?p = finished (ss ! ?n)"
      using E2(4) by (simp add: building_def publish_fields finished_def ss(4))
    then have "nlive (slots E') ?n = nlive ss ?n"
      unfolding simps(2) ss(4) by (intro counts_upd_same) (simp_all add: publish_fields)
    then have "ts_state (slots E' ! ?n) = (if nlive (slots E') ?n = 0 then READY else PENDING)"
      using len by (simp add: simps(2) ss(4) publish_fields)
    moreover have "e_scope E' = (if e_scope E = [] then [] else register_task (int ?n) (e_scope E))"
      by (simp add: simps(3) sc)
    moreover have "fanin_producers (slots E' ! ?n) = ps" "e_tm E' = e_tm E1"
      using len ss by (simp_all add: simps publish_fields)
    ultimately show ?thesis
      using pub(1) E'(1) s(7-9,15-17) p by (simp add: engine_inv_def submit_frame_def Let_def)
  qed
qed

end
