(* ===== verification/HierInvAlloc.thy ===== *)
theory HierInvAlloc
  imports HierInvWire
begin

text \<open>
  Buffer allocation and drain against the engine invariant, and the fact that the operations of the
  scheduler and the workers never rewrite what a submission stored in a slot (its payload).
\<close>

subsection \<open>Buffer allocation\<close>

lemma publish_alloc_fields:
  "payload (publish_alloc r s) = payload s" "sub_complete_count (publish_alloc r s) = sub_complete_count s"
  "fanin_producers (publish_alloc r s) = fanin_producers s" "fanout_consumers (publish_alloc r s) = fanout_consumers s"
  "ts_state (publish_alloc r s) = COMPLETED"
  by (simp_all add: publish_alloc_def payload_def slot_pos_def)

definition alloc_publish :: "nat \<Rightarrow> Engine \<Rightarrow> Engine" where
  "alloc_publish n E = (upd_slot (int n) (\<lambda>_. publish_alloc (scope_ref E) (slots E ! n)) E)
     \<lparr>e_scope := (if e_scope E = [] then [] else register_task (int n) (e_scope E))\<rparr>"

lemma alloc_publish_simps:
  "slots (alloc_publish n E) = (slots E)[n := publish_alloc (scope_ref E) (slots E ! n)]"
  "e_tm (alloc_publish n E) = e_tm E" "e_wm (alloc_publish n E) = e_wm E" "e_active (alloc_publish n E) = e_active E"
  "e_completion (alloc_publish n E) = e_completion E" "ready_queue_for t (alloc_publish n E) = ready_queue_for t E"
  "e_ring (alloc_publish n E) = e_ring (upd_slot (int n) (\<lambda>_. publish_alloc (scope_ref E) (slots E ! n)) E)"
  "e_scope (alloc_publish n E) = (if e_scope E = [] then [] else register_task (int n) (e_scope E))"
  by (simp_all add: alloc_publish_def)

lemma alloc_publish_inv:
  assumes inv: "eng_inv E (mset (concat (e_scope E))) {#}" and len: "length (slots E) = Suc n"
    and b: "blank (slots E ! n)"
  shows "eng_inv (alloc_publish n E) (mset (concat (e_scope (alloc_publish n E)))) {#}"
    and "leak (alloc_publish n E) = leak E"
proof -
  let ?E' = "alloc_publish n E" and ?s' = "publish_alloc (scope_ref E) (slots E ! n)"
  note I = eng_invD [OF inv]
  note simps = alloc_publish_simps [where n = n and E = E]
  note pay = payload_eqD [OF publish_alloc_fields(1), of "scope_ref E" "slots E ! n"]
  have n: "n < length (slots E)" and free: "ts_state (slots E ! n) = FREE"
    using len b by (simp_all add: blank_def)
  have "tm_inv ?E'"
    by (rule tm_inv_upd [OF I(4) simps(1)]) (simp_all add: pay simps publish_alloc_fields)
  moreover have "ring_sync ?E'"
    by (rule ring_sync_upd [OF I(5) simps(7)]) (simp_all add: pay publish_alloc_fields free)
  moreover have "work_inv ?E'"
    by (rule work_inv_upd [OF I(6) simps(1,3,5)])
      (use free in \<open>simp_all add: pay slot_work_def publish_alloc_fields\<close>)
  moreover have "queue_inv ?E'"
    by (rule queue_inv_same [OF I(3)]) (use free in \<open>auto simp: simps nth_list_update_if publish_alloc_fields\<close>)
  moreover have "acct (slots ?E') (mset (concat (e_scope E)) + (if scope_ref E = 1 then {#int n#} else {#})) {#}"
    unfolding simps(1) by (rule acct_publish_alloc [OF I(2,1) len b scope_ref_01])
  moreover have "mset (concat (e_scope ?E')) = mset (concat (e_scope E)) + (if scope_ref E = 1 then {#int n#} else {#})"
    by (simp add: simps scope_ref_def scope_depth_def concat_register)
  moreover have "graph_inv (slots ?E')"
    unfolding simps(1) by (rule graph_inv_upd [OF I(1)]) (simp_all add: publish_alloc_fields)
  moreover show leak: "leak ?E' = leak E"
    by (rule leak_upd [OF n simps(1,4)]) (simp add: publish_alloc_fields free)
  ultimately show "eng_inv ?E' (mset (concat (e_scope ?E'))) {#}"
    using I(7) by (simp add: eng_inv_def)
qed

text \<open>What a successful \<open>alloc\<close> returns and leaves.\<close>

definition alloc_done :: "Engine \<Rightarrow> ContinuousTensor \<Rightarrow> Engine \<Rightarrow> bool" where
  "alloc_done E t E' \<longleftrightarrow> leak E' = leak E \<and> submit_frame E E' \<and> length (slots E') = Suc (length (slots E))
     \<and> ts_state (slots E' ! length (slots E)) = COMPLETED \<and> affinities (slots E' ! length (slots E)) = []
     \<and> (ct_data t \<noteq> 0 \<longrightarrow> tm_lookup (e_tm E') \<lparr>tk_ptr = ct_data t, tk_worker = -1\<rparr> = int (length (slots E)))"

lemma tm_insert_Some: "tm_insert k v m key = Some p \<longleftrightarrow> (if key = k then p = v else m key = Some p)"
  by (auto simp: tm_insert_def)

lemma alloc_slot_inv:
  assumes inv: "engine_inv E" and add: "slot_added (e_ring E) R"
    and keys: "keys = (if ptr \<noteq> 0 then [\<lparr>tk_ptr = ptr, tk_worker = -1\<rparr>] else [])"
    and tm: "tm = (if ptr \<noteq> 0 then tm_insert \<lparr>tk_ptr = ptr, tk_worker = -1\<rparr> (int (length (slots E))) (e_tm E) else e_tm E)"
  defines "E2 \<equiv> E\<lparr>e_ring := R, e_active := e_active E + 1\<rparr>" and "n \<equiv> length (slots E)"
  defines "E3 \<equiv> (upd_slot (int n) (\<lambda>_. (slots E2 ! n)\<lparr>output_keys := keys\<rparr>) E2)\<lparr>e_tm := tm\<rparr>"
  shows "engine_inv (alloc_publish n E3) \<and> leak (alloc_publish n E3) = leak E \<and> submit_frame E (alloc_publish n E3)
    \<and> length (slots (alloc_publish n E3)) = Suc n \<and> ts_state (slots (alloc_publish n E3) ! n) = COMPLETED
    \<and> affinities (slots (alloc_publish n E3) ! n) = []"
proof -
  note add' = add_slot_inv [OF inv add, folded E2_def]
  obtain ri k where s2: "slots E2 = slots E @ [new_slot_state ri k]"
    using add'(3) by blast
  let ?new = "new_slot_state ri k"
  let ?s = "?new\<lparr>output_keys := keys\<rparr>"
  have n2: "slots E2 ! n = ?new" "length (slots E2) = Suc n"
    by (simp_all add: s2 n_def)
  have E3_eq: "E3 = (upd_slot (int n) (\<lambda>_. ?s) E2)\<lparr>e_tm := tm\<rparr>"
    unfolding E3_def n2 ..
  have "slots E3 = (slots E2)[n := ?s]"
    unfolding E3_eq by (simp add: slots_def upd_slot_def)
  then have s3: "slots E3 = slots E @ [?s]"
    by (simp add: s2 n_def)
  have I: "eng_inv E (mset (concat (e_scope E))) {#}" and nf: "no_free E"
    using inv by (simp_all add: engine_inv_def)
  have new: "ts_state ?new = FREE" "sub_complete_count ?new = 0" "\<not> is_group ?new" "blank ?s" "slot_pos ?s = slot_pos ?new"
    by (simp_all add: new_slot_state_def blank_def slot_pos_def)
  have tmi: "tm_inv E3"
    unfolding tm_inv_def s3
  proof (intro allI impI)
    fix key p assume "e_tm E3 key = Some p"
    then have "tm key = Some p"
      by (simp add: E3_eq)
    then have "key \<in> set keys \<and> p = int n \<or> e_tm E key = Some p"
      using tm keys by (simp add: tm_insert_Some n_def split: if_splits)
    then consider "key \<in> set keys" "p = int n" | "e_tm E key = Some p"
      by blast
    then show "0 \<le> p \<and> p < int (length (slots E @ [?s])) \<and> key \<in> set (output_keys ((slots E @ [?s]) ! nat p))
        \<and> ts_state ((slots E @ [?s]) ! nat p) \<noteq> CONSUMED"
    proof cases
      case 1
      then show ?thesis using new by (simp add: n_def)
    next
      case 2
      then show ?thesis
        using eng_invD(4) [OF I] unfolding tm_inv_def by (force simp: nth_append nat_less_iff)
    qed
  qed
  have sc: "e_scope E3 = e_scope E"
    by (simp add: E3_def E2_def)
  have nl: "n < length (slots E2)" and fr: "ts_state (slots E2 ! n) = FREE"
    using n2 new by simp_all
  have E3: "eng_inv E3 (mset (concat (e_scope E3))) {#}" "leak E3 = leak E2"
    unfolding sc unfolding E3_eq
    by (rule free_upd_inv [OF add'(1) nl fr]; simp add: n2 new flip: E3_eq; fact?)+
  note pub = alloc_publish_inv [OF E3(1), of n]
  note simps = alloc_publish_simps [where n = n and E = E3]
  have len: "length (slots E3) = Suc n" "slots E3 ! n = ?s"
    by (simp_all add: s3 n_def)
  have sl: "slots (alloc_publish n E3) = slots E @ [publish_alloc (scope_ref E3) ?s]"
    using simps(1) len s3 by (simp add: n_def)
  then have "no_free (alloc_publish n E3)"
    using nf by (simp add: no_free_def publish_alloc_fields)
  moreover have "submit_frame E (alloc_publish n E3)"
    using sl by (simp add: submit_frame_def simps(3,5)) (simp add: E3_def E2_def)
  ultimately show ?thesis
    using pub len new E3(2) add'(2) sl payload_eqD(6) [OF publish_alloc_fields(1), of "scope_ref E3" ?s]
    by (simp add: engine_inv_def publish_alloc_fields n_def new_slot_state_def)
qed


lemma orch_alloc_inv:
  assumes inv: "engine_inv E" and q: "quiet evs" and r: "orch_alloc evs shape dtype E = (Some res, E')"
  shows "engine_inv E' \<and> (case res of Inl e \<Rightarrow> slots E' = slots E \<and> leak E' = leak E \<and> e_wm E' = e_wm E | Inr t \<Rightarrow> alloc_done E t E')"
proof (cases "length shape > CONTINUOUS_TENSOR_MAX_DIMS \<or> (\<exists>e. get_element_size dtype = Inl e)")
  case True
  then have "\<exists>e. res = Inl e" "E' = E"
    using r by (auto simp: orch_alloc_def split: if_splits sum.splits)
  then show ?thesis
    using inv by auto
next
  case False
  then obtain es where es: "\<not> length shape > CONTINUOUS_TENSOR_MAX_DIMS" "get_element_size dtype = Inr es"
    by (meson sumE)
  let ?b = "align_up (fold (\<lambda>d n. n * ucast d) shape (1 :: u64) * es) HEAP_ALIGN" and ?n = "length (slots E)"
  obtain ar R where ar: "ring_alloc evs ?b (int (current_depth (e_scope E))) (e_ring E) = (Some ar, R)"
    using r es by (cases "ring_alloc evs ?b (int (current_depth (e_scope E))) (e_ring E)")
      (auto simp: orch_alloc_def Let_def split: option.splits)
  obtain G where G: "ring_inv (e_ring E) G"
    using inv by (auto simp: engine_inv_def eng_inv_def ring_sync_def)
  note al = ring_alloc_quiet [OF G q ar]
  show ?thesis
  proof (cases "\<exists>a. ar = Inr a \<and> ar_slot a \<noteq> INVALID_SLOT")
    case False
    then have "\<exists>e. res = Inl e" "E' = E\<lparr>e_ring := R\<rparr>"
      using r es ar by (cases ar; auto simp: orch_alloc_def Let_def)+
    moreover have R: "ring_unchanged (e_ring E) R"
      using al False by (cases ar) auto
    moreover have "engine_inv (E\<lparr>e_ring := R\<rparr>)"
      using unchanged_inv [OF inv R, of "e_active E"] by simp
    ultimately show ?thesis
      using ring_unchanged_slots [OF R] by (auto simp: slots_def leak_def unconsumed_def)
  next
    case True
    then obtain a where a: "ar = Inr a" "ar_slot a \<noteq> INVALID_SLOT"
      by blast
    have add: "slot_added (e_ring E) R" and sl: "ar_slot a = int ?n"
      using al a by (simp_all add: slots_def)
    let ?ptr = "ar_heap_ptr a" and ?key = "\<lparr>tk_ptr = ar_heap_ptr a, tk_worker = -1\<rparr> :: TensorKey"
    let ?keys = "if ?ptr \<noteq> 0 then [?key] else []" and ?tm = "if ?ptr \<noteq> 0 then tm_insert ?key (int ?n) (e_tm E) else e_tm E"
    let ?E2 = "E\<lparr>e_ring := R, e_active := e_active E + 1\<rparr>"
    let ?E3 = "(upd_slot (int ?n) (\<lambda>_. (slots ?E2 ! ?n)\<lparr>output_keys := ?keys\<rparr>) ?E2)\<lparr>e_tm := ?tm\<rparr>"
    obtain ri k where R: "slot_states R = slots E @ [new_slot_state ri k]"
      using add by (auto simp: slot_added_def slots_def)
    have valid: "orch_slot_state (int ?n) (E\<lparr>e_ring := R\<rparr>) = Inr (new_slot_state ri k)"
      using slot_state_valid(1) [of ?n "E\<lparr>e_ring := R\<rparr>"] R by (simp add: slots_def)
    have "slot_reset (new_slot_state ri k) = new_slot_state ri k"
      by (rule slot_reset_new)
    then have E': "E' = alloc_publish ?n ?E3" "\<exists>t. res = Inr t \<and> ct_data t = ?ptr"
      using r es ar a sl valid R
      by (auto simp: orch_alloc_def Let_def alloc_publish_def upd_slot_def slots_def publish_alloc_def
          scope_ref_def scope_depth_def new_slot_state_def)
    have "e_tm E' = ?tm"
      unfolding E'(1) alloc_publish_simps by simp
    then show ?thesis
      using alloc_slot_inv [OF inv add refl refl, of ?ptr, folded E'(1)] E'(2)
      by (auto simp: alloc_done_def tm_lookup_def tm_insert_def)
  qed
qed

subsection \<open>Drain\<close>

text \<open>With no active task every slot is consumed, so nothing in the engine refers to a slot any more.\<close>

lemma idle_engine:
  assumes inv: "engine_inv E" and zero: "e_active E = 0"
  shows "\<forall>k < length (slots E). ts_state (slots E ! k) = CONSUMED" and "e_tm E = Map.empty" and "concat (e_scope E) = []"
    and "rq_q (ready_queue_for t E) = []" and "e_completion E = []" and "inflight (e_wm E) = {#}" and "leak E = 0"
proof -
  have I: "eng_inv E (mset (concat (e_scope E))) {#}"
    using inv by (simp add: engine_inv_def)
  note I' = eng_invD [OF I]
  have un: "unconsumed E = 0"
    using I'(7) zero by (simp add: leak_def)
  then show "leak E = 0"
    using zero by (simp add: leak_def)
  show c: "\<forall>k < length (slots E). ts_state (slots E ! k) = CONSUMED"
    using un by (auto simp: unconsumed_def filter_empty_conv)
  have "e_tm E key = None" for key
    using I'(4) c unfolding tm_inv_def by (metis nat_less_iff option.exhaust)
  then show "e_tm E = Map.empty"
    by blast
  have "x \<notin> set (concat (e_scope E))" for x
  proof
    assume "x \<in> set (concat (e_scope E))"
    then have x: "x \<in># mset (concat (e_scope E))"
      by (simp only: set_mset_mset)
    then have "0 \<le> x \<and> x < int (length (slots E))"
      by (rule acct_dom(1) [OF I'(2)])
    then show False
      using consumed_settled(1) [OF I'(2), of "nat x"] c x by (metis count_eq_zero_iff int_nat_eq nat_less_iff)
  qed
  then show "concat (e_scope E) = []"
    by (meson last_in_set)
  have "set (rq_q (ready_queue_for t E)) = {}"
    using I'(3) c unfolding queue_inv_def by auto
  then show "rq_q (ready_queue_for t E) = []"
    by simp
  have w: "flights (e_wm E) (int k) = 0" "int k \<notin> set (e_completion E)" if "k < length (slots E)" for k
    using I'(6) c that unfolding work_inv_def by (auto simp: slot_work_def)
  have "x \<notin> set (e_completion E)" for x
    using flights_outside(2) [OF I'(6), of x] w(2) [of "nat x"] by (cases "0 \<le> x \<and> x < int (length (slots E))") (auto simp: nat_less_iff)
  then show "e_completion E = []"
    by (meson last_in_set)
  have "flights (e_wm E) x = 0" for x
    using flights_outside(1) [OF I'(6), of x] w(1) [of "nat x"] by (cases "0 \<le> x \<and> x < int (length (slots E))") (auto simp: nat_less_iff)
  then have "image_mset wd_task_slot (inflight (e_wm E)) = {#}"
    by (intro multiset_eqI) (simp add: flights_def)
  then show "inflight (e_wm E) = {#}"
    by simp
qed

lemma drain_inv:
  assumes inv: "engine_inv E" and r: "drain E = (Some res, E')"
  shows "engine_inv E' \<and> slots E' = [] \<and> e_active E' = 0 \<and> (\<forall>k < length (slots E). ts_state (slots E ! k) = CONSUMED)
    \<and> e_scope E' = e_scope E \<and> e_wm E' = e_wm E \<and> leak E' = leak E
    \<and> res = (if has_error (e_wm E) then Inl (case take_error (e_wm E) of Some e \<Rightarrow> e | None \<Rightarrow> UndefinedBehaviour) else Inr ())"
proof -
  have zero: "e_active E = 0"
    using r by (simp add: drain_def split: if_splits)
  note idle = idle_engine [OF inv zero]
  obtain G where G: "ring_inv (e_ring E) G" and sync: "\<forall>k < length (slots E). slot_released (e_ring E) k"
    using inv idle(1) by (auto simp: engine_inv_def eng_inv_def ring_sync_def)
  then have "\<not> list_ex (\<lambda>r. hr_last_alive r \<noteq> length (hr_released r)) (rings (e_ring E))"
    using drained_iff [OF G] ring_invD(1) [OF G] by (auto simp: list_ex_iff in_set_conv_nth slots_def)
  then obtain R where R: "reset_to_empty (e_ring E) = (Inr (), R)" "slot_states R = []"
    by (simp add: reset_to_empty_def)
  have E': "E' = E\<lparr>e_ring := R\<rparr>" "res = (if has_error (e_wm E) then Inl (case take_error (e_wm E) of Some e \<Rightarrow> e | None \<Rightarrow> UndefinedBehaviour) else Inr ())"
    using r zero R(1) by (auto simp: drain_def Let_def split: if_splits)
  have ss: "slots E' = []" and rq: "rq_q (ready_queue_for t E') = []" for t
    using E' R(2) idle(4) [of t] by (simp_all add: slots_def) (cases t; simp add: ready_queue_for_def)
  have "ring_sync E'"
    using ring_inv_reset [OF G R(1)] E'(1) ss by (auto simp: ring_sync_def)
  moreover have "queue_inv E'" "tm_inv E'" "work_inv E'" "0 \<le> leak E'" "no_free E'"
    using idle ss rq E'(1) zero by (simp_all add: queue_inv_def tm_inv_def work_inv_def leak_def unconsumed_def no_free_def)
  moreover have "graph_inv (slots E')" "acct (slots E') (mset (concat (e_scope E'))) {#}"
    using ss idle(3) E'(1) by (auto simp: graph_inv_def acct_def)
  ultimately show ?thesis
    using E' ss idle(1,7) zero by (simp add: engine_inv_def eng_inv_def leak_def unconsumed_def)
qed


subsection \<open>Payloads are never rewritten\<close>

lemma payload_upd [simp]:
  "(\<And>s. payload (f s) = payload s) \<Longrightarrow> map payload ((slots E)[k := f (slots E ! k)]) = map payload (slots E)"
  by (rule map_upd_same)

lemma slots_frame [simp]:
  "slots (E\<lparr>e_tm := a\<rparr>) = slots E" "slots (E\<lparr>e_active := b\<rparr>) = slots E" "slots (E\<lparr>e_completion := c\<rparr>) = slots E"
  "slots (E\<lparr>e_wm := m\<rparr>) = slots E" "slots (set_queue t q E) = slots E"
  "slots (E\<lparr>e_ring := ring_release k (e_ring E)\<rparr>) = slots E"
  by (simp_all add: slots_def) (cases t; simp add: set_queue_def)

lemma payload_stores [simp]:
  "payload (s\<lparr>ts_state := v\<rparr>) = payload s" "payload (s\<lparr>fanout_released := r\<rparr>) = payload s"
  "payload (s\<lparr>fanin_released := r\<rparr>) = payload s" "payload (s\<lparr>sub_complete_count := r\<rparr>) = payload s"
  by (simp_all add: payload_def slot_pos_def)

abbreviation payloads where "payloads E \<equiv> map payload (slots E)"

text \<open>A field that the stores of a completion do not touch is the same in every slot afterwards.\<close>

definition untouched :: "(TaskSlotState \<Rightarrow> 'a) \<Rightarrow> bool" where
  "untouched g \<longleftrightarrow> (\<forall>s v. g (s\<lparr>ts_state := v\<rparr>) = g s) \<and> (\<forall>s r. g (s\<lparr>fanout_released := r\<rparr>) = g s)
     \<and> (\<forall>s r. g (s\<lparr>fanin_released := r\<rparr>) = g s)"

lemma untouched_fields: "untouched payload" "untouched fanin_producers" "untouched fanout_consumers"
  by (simp_all add: untouched_def)

lemma map_upd_slot:
  assumes "\<And>s. g (f s) = g s"
  shows "map g ((slots E)[k := f (slots E ! k)]) = map g (slots E)"
  by (rule map_upd_same) (rule assms)

lemma consume_untouched:
  assumes "untouched g"
  shows "map g (slots (snd (on_consumed k E))) = map g (slots E)" "map g (slots (snd (try_consume k E))) = map g (slots E)"
    "map g (slots (snd (release_ref k E))) = map g (slots E)" "map g (slots (snd (release_fanin k E))) = map g (slots E)"
proof -
  have u: "g (s\<lparr>ts_state := v\<rparr>) = g s" "g (s\<lparr>fanout_released := r\<rparr>) = g s" "g (s\<lparr>fanin_released := r\<rparr>) = g s" for s v r
    using assms by (simp_all add: untouched_def)
  show c: "map g (slots (snd (on_consumed k E))) = map g (slots E)" for E
    by (simp add: on_consumed_def Let_def split: sum.split) (simp add: slots_def upd_slot_def map_upd_same u)
  show "map g (slots (snd (try_consume k E))) = map g (slots E)"
    by (simp add: try_consume_def Let_def c map_upd_slot u split: sum.split)
  show "map g (slots (snd (release_ref k E))) = map g (slots E)"
    by (simp add: release_ref_def Let_def c map_upd_slot u split: sum.split)
  show "map g (slots (snd (release_fanin k E))) = map g (slots E)"
    by (simp add: release_fanin_def Let_def map_upd_slot u split: sum.split) (simp add: map_upd_same nth_list_update_if u)
qed

lemma on_task_complete_untouched:
  assumes g: "untouched g"
  shows "map g (slots (snd (on_task_complete k E))) = map g (slots E)"
proof (cases "sched_slot_state k E")
  case (Inr s)
  note f = for_each_keeps [of "\<lambda>E. map g (slots E)" release_fanin, OF consume_untouched(4) [OF g]]
    and t = for_each_keeps [of "\<lambda>E. map g (slots E)" try_consume, OF consume_untouched(2) [OF g]]
  let ?E = "upd_slot k (\<lambda>s. s\<lparr>ts_state := COMPLETED\<rparr>) E"
  obtain r1 E1 where 1: "for_each release_fanin (fanout_consumers s) ?E = (r1, E1)"
    by fastforce
  have "map g (slots ?E) = map g (slots E)"
    using g by (simp add: map_upd_same untouched_def)
  then have e1: "map g (slots E1) = map g (slots E)"
    using f [of "fanout_consumers s" ?E] 1 by simp
  obtain r2 E2 where 2: "try_consume k E1 = (r2, E2)"
    by fastforce
  have "map g (slots E2) = map g (slots E)"
    using consume_untouched(2) [OF g, of k E1] 2 e1 by simp
  then show ?thesis
    using Inr 1 2 e1 t by (simp add: on_task_complete_def split: sum.split)
qed (simp add: on_task_complete_def)

lemma complete_one_payloads: "payloads (snd (sched_complete_one E)) = payloads E"
  using on_task_complete_untouched [OF untouched_fields(1)]
  by (auto simp: sched_complete_one_def split: list.split prod.split sum.split) (metis slots_frame(3) snd_conv)+

lemma scope_end_payloads: "payloads (snd (orch_scope_end E)) = payloads E"
  using for_each_keeps [of payloads release_ref, OF consume_untouched(3) [OF untouched_fields(1)]]
  by (auto simp: orch_scope_end_def scope_end_def split: list.split prod.split sum.split) (metis snd_conv)+

lemma aff_ok_payloads:
  assumes "map payload ss' = map payload ss" and "\<forall>s \<in> set ss. aff_ok s"
  shows "\<forall>s \<in> set ss'. aff_ok s"
proof (rule aff_ok_maps [OF _ _ assms(2)])
  have len: "length ss' = length ss"
    using assms(1) map_eq_imp_length_eq by blast
  have "payload (ss' ! k) = payload (ss ! k)" if "k < length ss" for k
    using assms(1) that len by (metis nth_map)
  note p = payload_eqD [OF this]
  show "map affinities ss' = map affinities ss" "map group_size ss' = map group_size ss"
    using p(5,6) len by (auto intro!: nth_equalityI)
qed

end
