(* ===== verification/HierSteps.thy ===== *)
theory HierSteps
  imports HierInvAlloc
begin

text \<open>
  The interleavings of the host engine: one rule per call of the orchestrator, the scheduler and a worker
  thread, each run to its end, in any order. Every reachable state satisfies the engine invariant, and the
  safety properties of the engine follow from it. Finer interleavings, inside a submission, are the subject
  of theory \<open>HierRaces\<close>.
\<close>

subsection \<open>The error slot of the worker manager\<close>

definition error_view :: "WorkerManager \<Rightarrow> exn option \<times> bool" where
  "error_view m = (first_error m, has_error_flag m)"

definition err_ok :: "WorkerManager \<Rightarrow> bool" where
  "err_ok m \<longleftrightarrow> (has_error_flag m \<longleftrightarrow> first_error m \<noteq> None)"

lemma err_ok_view: "error_view m' = error_view m \<Longrightarrow> err_ok m \<Longrightarrow> err_ok m'"
  by (simp add: error_view_def err_ok_def)

lemma error_view_threads [simp]: "error_view (set_threads t ws m) = error_view m"
  by (cases t) (simp_all add: set_threads_def error_view_def)

lemma error_view_dispatch [simp]: "error_view (fold (dispatch_to t k) iws m) = error_view m"
  by (induction iws arbitrary: m) (auto simp: dispatch_to_def split: option.split)

lemma e_wm_set_queue [simp]: "e_wm (set_queue t q E) = e_wm E"
  by (cases t) (simp_all add: set_queue_def)

lemma dispatch_one_view: "error_view (e_wm (snd (dispatch_one t k E))) = error_view (e_wm E)"
  by (simp add: dispatch_one_def Let_def split: sum.split option.split)

lemma drain_one_view: "error_view (e_wm (snd (drain_one t E))) = error_view (e_wm E)"
proof (induction t E rule: drain_one.induct)
  case (1 t E)
  show ?case
  proof (cases "try_pop (ready_queue_for t E)")
    case (Some kq)
    obtain k q where kq: "kq = (k, q)"
      by fastforce
    obtain r E1 where r: "dispatch_one t k (set_queue t q E) = (r, E1)"
      by fastforce
    have v: "error_view (e_wm E1) = error_view (e_wm E)"
      using dispatch_one_view [of t k "set_queue t q E"] r by simp
    show ?thesis
      using 1 [OF Some kq [symmetric] r [symmetric]] Some kq r v
      by (subst drain_one.simps) (simp split: sum.split)
  qed (subst drain_one.simps, simp)
qed

lemma err_ok_worker_loop:
  assumes "err_ok (e_wm E)" and "worker_loop child t i E = (r, E')"
  shows "err_ok (e_wm E')"
proof -
  have dn: "e_wm (snd (worker_done k E1)) = e_wm E1" for k E1
    by (simp add: worker_done_def Let_def split: sum.split)
  have rep: "err_ok (report_error e m)" if "err_ok m" for e m
    using that by (auto simp: report_error_def err_ok_def)
  have set: "err_ok (set_threads t ws m)" if "err_ok m" for ws m
    using that err_ok_view error_view_threads by blast
  show ?thesis
    using assms(2) rep set assms(1)
    by (auto simp: worker_loop_def Let_def split: list.splits sum.splits prod.splits option.splits if_splits
        dest!: arg_cong [where f = "\<lambda>x. e_wm (snd x)"] simp: dn) metis+
qed

lemma wm_same_inv:
  assumes "engine_inv E" and "inflight m = inflight (e_wm E)"
  shows "engine_inv (E\<lparr>e_wm := m\<rparr>)"
proof -
  have fl: "flights m = flights (e_wm E)"
    using assms(2) by (simp add: flights_def fun_eq_iff)
  have "queue_inv (E\<lparr>e_wm := m\<rparr>) = queue_inv E"
    by (simp add: queue_inv_def ready_queue_for_def split: WorkerType.split)
  then show ?thesis
    using assms fl by (simp add: engine_inv_def eng_inv_def tm_inv_def ring_sync_def work_inv_def leak_def
        unconsumed_def no_free_def)
qed

lemma inflight_clear [simp]: "inflight (wm_clear_error m) = inflight m"
  by (simp add: wm_clear_error_def inflight_def)

lemma inflight_control:
  assumes "wm_control msg cmd w m = (r, m')"
  shows "inflight m' = inflight m" and "error_view m' = error_view m"
proof -
  show "error_view m' = error_view m"
    using assms by (auto simp: wm_control_def error_view_def split: option.splits prod.splits)
  have "map wt_queue (next_level_threads m') = map wt_queue (next_level_threads m)" "sub_threads m' = sub_threads m"
    using assms by (auto simp: wm_control_def map_upd_same split: option.splits prod.splits)
  then show "inflight m' = inflight m"
    by (simp add: inflight_def)
qed


subsection \<open>Steps and reachable states\<close>

text \<open>
  A call of the orchestrator's thread, the scheduler thread or a worker thread, from its first statement to
  its last. The children's answers, the ring's wait events without releases, and the order are arbitrary;
  group submissions give no affinities or one per member. A call that still blocks is not a step.
\<close>

inductive engine_step :: "Engine \<Rightarrow> Engine \<Rightarrow> bool" where
  submit: "quiet evs \<Longrightarrow> affs = [] \<or> length args_list \<le> length affs \<Longrightarrow>
     submit_impl evs wtype cid cfg args_list affs E = (Some r, E') \<Longrightarrow> engine_step E E'"
| alloc: "quiet evs \<Longrightarrow> orch_alloc evs shape dtype E = (Some t, E') \<Longrightarrow> engine_step E E'"
| scope_begin: "orch_scope_begin E = (u, E') \<Longrightarrow> engine_step E E'"
| scope_end: "orch_scope_end E = (u, E') \<Longrightarrow> engine_step E E'"
| drain: "drain E = (Some d, E') \<Longrightarrow> engine_step E E'"
| clear_error: "engine_step E (orch_clear_error E)"
| malloc: "orch_malloc child w n E = (Some p, E') \<Longrightarrow> engine_step E E'"
| free: "orch_free child w p E = (Some u, E') \<Longrightarrow> engine_step E E'"
| copy_to: "orch_copy_to child w dst src n E = (Some u, E') \<Longrightarrow> engine_step E E'"
| copy_from: "orch_copy_from child w dst src n E = (Some u, E') \<Longrightarrow> engine_step E E'"
| complete: "sched_complete_one E = (b, E') \<Longrightarrow> engine_step E E'"
| dispatch: "dispatch_ready E = (u, E') \<Longrightarrow> engine_step E E'"
| work: "i < length (threads_of t (e_wm E)) \<Longrightarrow> worker_loop child t i E = (Some (Inr ()), E') \<Longrightarrow> engine_step E E'"

inductive_cases engine_stepE: "engine_step E E'"

definition idle_manager :: "WorkerManager \<Rightarrow> bool" where
  "idle_manager m \<longleftrightarrow> list_all (\<lambda>w. wt_queue w = []) (next_level_threads m @ sub_threads m)
     \<and> first_error m = None \<and> \<not> has_error_flag m"

inductive reachable :: "Engine \<Rightarrow> bool" where
  init: "ring_init heap_bytes timeout mmap new_ring = (Inr (), R) \<Longrightarrow> idle_manager m \<Longrightarrow> reachable (init_engine R m)"
| step: "reachable E \<Longrightarrow> engine_step E E' \<Longrightarrow> reachable E'"

definition engine_ok :: "Engine \<Rightarrow> bool" where
  "engine_ok E \<longleftrightarrow> engine_inv E \<and> (\<forall>s \<in> set (slots E). aff_ok s) \<and> err_ok (e_wm E)"

lemma engine_okI: "engine_inv E \<Longrightarrow> \<forall>s \<in> set (slots E). aff_ok s \<Longrightarrow> err_ok (e_wm E) \<Longrightarrow> engine_ok E"
  by (simp add: engine_ok_def)

lemma init_ok:
  assumes "ring_init hb tmo mm new_ring = (Inr (), R)" and "idle_manager m"
  shows "engine_ok (init_engine R m)"
proof -
  let ?E = "init_engine R m"
  have len: "length (rings new_ring) = MAX_RING_DEPTH"
    by (simp add: new_ring_def)
  have G: "ring_inv R (replicate MAX_RING_DEPTH [])"
    by (rule ring_init_inv [OF assms(1) len])
  have "slot_states R = []"
    using assms(1) by (auto simp: ring_init_def Let_def split: if_splits prod.splits)
  then have ss: "slots ?E = []"
    by (simp add: slots_def init_engine_def)
  have infl: "inflight m = {#}"
    using assms(2) by (auto simp: idle_manager_def inflight_def list_all_iff)
  have "ready_queue_for t ?E = \<lparr>rq_q = [], rq_shutdown = False\<rparr>" for t
    by (cases t) (simp_all add: ready_queue_for_def init_engine_def)
  then have "queue_inv ?E"
    by (simp add: queue_inv_def ss)
  moreover have "tm_inv ?E" "work_inv ?E" "no_free ?E" "ring_sync ?E" "0 \<le> leak ?E"
    using ss infl G by (auto simp: tm_inv_def work_inv_def no_free_def ring_sync_def leak_def unconsumed_def init_engine_def)
  ultimately show ?thesis
    using ss assms(2) by (simp add: engine_ok_def engine_inv_def eng_inv_def graph_inv_def acct_def init_engine_def
        err_ok_def idle_manager_def)
qed

lemma submit_frame_aff:
  assumes "submit_frame E E'" and "length (slots E') = Suc (length (slots E))" and "\<forall>s \<in> set (slots E). aff_ok s"
    and "aff_ok (slots E' ! length (slots E))"
  shows "\<forall>s \<in> set (slots E'). aff_ok s"
proof -
  let ?n = "length (slots E)"
  have "\<forall>s \<in> set (take ?n (slots E')). aff_ok s"
    using assms(1,3) aff_ok_payloads unfolding submit_frame_def by blast
  moreover have "slots E' = take ?n (slots E') @ [slots E' ! ?n]"
    using assms(2) by (metis lessI take_Suc_conv_app_nth take_all_iff order_refl)
  ultimately show ?thesis
    using assms(4) by (metis Un_iff set_append empty_iff insert_iff list.simps(15) list.set(1))
qed


lemma control_ok:
  assumes ok: "engine_ok E" and r: "orch_control op cmd w E = (c, E')"
  shows "engine_ok E'"
proof -
  obtain r' m where m: "wm_control (''Orchestrator::'' @ op @ '': invalid worker_id'') (\<lambda>i. cmd) w (e_wm E) = (r', m)"
    by fastforce
  then have E': "E' = E\<lparr>e_wm := m\<rparr>"
    using r by (simp add: orch_control_def)
  show ?thesis
    using ok wm_same_inv [OF _ inflight_control(1) [OF m]] err_ok_view [OF inflight_control(2) [OF m]]
    by (simp add: E' engine_ok_def)
qed

lemmas control_defs = orch_malloc_def orch_free_def orch_copy_to_def orch_copy_from_def

lemma complete_one_ok:
  assumes ok: "engine_ok E"
  shows "\<exists>b E'. sched_complete_one E = (Inr b, E') \<and> engine_ok E' \<and> (b \<longleftrightarrow> e_completion E \<noteq> [])"
proof (cases "e_completion E")
  case Nil
  then show ?thesis
    using ok by (auto simp: sched_complete_one_def)
next
  case (Cons x ks)
  have "engine_inv E"
    using ok by (simp add: engine_ok_def)
  from complete_one_inv [OF this Cons] obtain E' where E': "sched_complete_one E = (Inr True, E')" "engine_inv E'" "e_wm E' = e_wm E"
    by blast
  moreover have "map payload (slots E') = map payload (slots E)"
    using complete_one_payloads [of E] E'(1) by simp
  then have "\<forall>s \<in> set (slots E'). aff_ok s"
    using aff_ok_payloads ok unfolding engine_ok_def by blast
  ultimately show ?thesis
    using ok Cons by (auto simp: engine_ok_def)
qed

lemma dispatch_ready_ok:
  assumes ok: "engine_ok E"
  shows "\<exists>E'. dispatch_ready E = (Inr (), E') \<and> engine_ok E'"
proof -
  obtain E' where E': "dispatch_ready E = (Inr (), E')" "engine_inv E'" "\<forall>s \<in> set (slots E'). aff_ok s"
    using dispatch_ready_inv [of E] ok unfolding engine_ok_def by blast
  have "error_view (e_wm E') = error_view (e_wm E)"
    using drain_one_view [of NEXT_LEVEL E] drain_one_view [of SUB "snd (drain_one NEXT_LEVEL E)"] E'(1)
    by (auto simp: dispatch_ready_def split: prod.splits sum.splits)
  then show ?thesis
    using E' ok err_ok_view by (auto simp: engine_ok_def)
qed

lemma engine_step_ok:
  assumes "engine_step E E'" and ok: "engine_ok E"
  shows "engine_ok E'"
proof -
  have inv: "engine_inv E" and aff: "\<forall>s \<in> set (slots E). aff_ok s" and err: "err_ok (e_wm E)"
    using ok by (simp_all add: engine_ok_def)
  from assms(1) show ?thesis
  proof cases
    case (submit evs affs args_list wtype cid cfg r)
    note sub = submit_impl_inv [OF inv submit(1,3)]
    show ?thesis
    proof (cases r)
      case (Inl e)
      then show ?thesis
        using sub Inl aff err by (simp add: engine_ok_def)
    next
      case (Inr slot)
      then have fr: "submit_frame E E'" "length (slots E') = Suc (length (slots E))"
          "affinities (slots E' ! length (slots E)) = affs" "group_size (slots E' ! length (slots E)) = length args_list"
        using sub by (auto simp: Let_def)
      then have "aff_ok (slots E' ! length (slots E))"
        using submit(2) by (auto simp: aff_ok_def)
      then show ?thesis
        using sub submit_frame_aff [OF fr(1,2) aff] fr(1) err by (simp add: engine_ok_def submit_frame_def)
    qed
  next
    case (alloc evs shape dtype t)
    note al = orch_alloc_inv [OF inv alloc(1,2)]
    show ?thesis
    proof (cases t)
      case (Inl e)
      then show ?thesis
        using al Inl aff err by (simp add: engine_ok_def)
    next
      case (Inr x)
      then have d: "alloc_done E x E'" and fr: "submit_frame E E'" "length (slots E') = Suc (length (slots E))"
        using al by (simp_all add: alloc_done_def)
      have "aff_ok (slots E' ! length (slots E))"
        using d by (simp add: aff_ok_def alloc_done_def)
      then show ?thesis
        using al submit_frame_aff [OF fr aff] fr(1) err by (simp add: engine_ok_def submit_frame_def)
    qed
  next
    case (scope_begin u)
    then have "slots E' = slots E" "e_wm E' = e_wm E"
      by (auto simp: orch_scope_begin_def split: sum.splits)
    then show ?thesis
      using scope_begin_inv [OF inv scope_begin] aff err by (simp add: engine_ok_def)
  next
    case (scope_end u)
    have p: "payloads E' = payloads E"
      using scope_end_payloads [of E] scope_end by simp
    show ?thesis
    proof (cases "e_scope E")
      case Nil
      then have "E' = E"
        using scope_end by (simp add: orch_scope_end_def scope_end_def)
      then show ?thesis
        using ok by simp
    next
      case (Cons frame rest)
      then show ?thesis
        using scope_end_inv [OF inv Cons] scope_end aff_ok_payloads [OF p aff] err by (simp add: engine_ok_def)
    qed
  next
    case (drain d)
    then show ?thesis
      using drain_inv [OF inv drain] err by (simp add: engine_ok_def)
  next
    case clear_error
    then show ?thesis
      using wm_same_inv [OF inv inflight_clear] aff
      by (simp add: engine_ok_def orch_clear_error_def) (simp add: err_ok_def wm_clear_error_def)
  next
    case (complete b)
    then show ?thesis
      using complete_one_ok [OF ok] by auto
  next
    case (dispatch u)
    then show ?thesis
      using dispatch_ready_ok [OF ok] by auto
  next
    case (work i t child)
    then show ?thesis
      using worker_loop_inv [OF inv work] aff_ok_maps [OF _ _ aff] err_ok_worker_loop [OF err work(2)]
      unfolding engine_ok_def by blast
  qed (use control_ok [OF ok] in \<open>auto simp: control_defs\<close>)
qed


lemma reachable_ok: "reachable E \<Longrightarrow> engine_ok E"
  by (induction rule: reachable.induct) (auto intro: init_ok engine_step_ok)

lemma reachable_inv:
  assumes "reachable E"
  shows "engine_inv E" and "eng_inv E (mset (concat (e_scope E))) {#}" and "no_free E"
  using reachable_ok [OF assms] by (simp_all add: engine_ok_def engine_inv_def)

end
