(* ===== verification/HierSafety.thy ===== *)
theory HierSafety
  imports HierSteps
begin

text \<open>
  Properties of every reachable engine state: dependencies, buffer lifetimes, dispatch accounting, progress,
  drain, and what goes wrong in the corners the code leaves open. The states \<open>demo1\<close> to \<open>demo4\<close> are a short
  run (open a scope, allocate a buffer, submit a task that reads it, submit a task that reads the first task's
  output) on which the properties are exercised.
\<close>

subsection \<open>A short run\<close>

definition demo_wm :: WorkerManager where
  "demo_wm = new_manager\<lparr>next_level_threads := [new_worker (replicate 4096 0)]\<rparr>"

definition demo_buffer :: "u64 \<Rightarrow> ContinuousTensor" where
  "demo_buffer p = \<lparr>ct_data = p, ct_shapes = [16, 0, 0, 0, 0], ct_ndims = 1, ct_dtype = 0, ct_child_memory = 0,
     ct_tail_pad = replicate 6 0\<rparr>"

definition demo_args :: "u64 \<Rightarrow> TaskArgs" where
  "demo_args p = \<lparr>ta_tensors = [demo_buffer p, demo_buffer 0], ta_scalars = [], ta_tags = [INPUT, OUTPUT]\<rparr>"

definition demo1 :: Engine where
  "demo1 = snd (orch_scope_begin (init_engine demo_ring demo_wm))"

definition demo2 :: Engine where
  "demo2 = snd (orch_alloc [] [16] 0 demo1)"

definition demo3 :: Engine where
  "demo3 = snd (submit_impl [] NEXT_LEVEL 7 default_config [demo_args 65536] [] demo2)"

definition demo4 :: Engine where
  "demo4 = snd (submit_impl [] NEXT_LEVEL 8 default_config [demo_args 66560] [] demo3)"

lemma default_validate: "validate default_config = Inr ()"
  by (simp add: validate_def diagnostics_any_def default_config_def)

lemmas engine_eval = orch_scope_begin_def scope_begin_def init_engine_def orch_alloc_def scope_depth_def current_depth_def
  MAX_SCOPE_DEPTH_def orch_slot_state_def ring_slot_state_def upd_slot_def slots_def register_task_def slot_reset_def
  tm_insert_def get_element_size_def data_type_size_def CONTINUOUS_TENSOR_MAX_DIMS_def empty_args_def clear_args_def
  submit_impl_def submit_enter_def reserve_outputs_and_slot_def output_alloc_bytes_def nbytes_def infer_deps_def
  infer_group_def infer_tensor_def tensor_key_def is_child_memory_def add_unique_producer_def tm_lookup_def
  store_args_def wire_producer_def submit_publish_def push_ready_def set_queue_def ready_queue_for_def rq_push_def
  demo_ring_def ring_eval default_validate demo_args_def demo_buffer_def has_error_def demo_wm_def new_manager_def
  new_worker_def

lemma demo_calls:
  "orch_scope_begin (init_engine demo_ring demo_wm) = (Inr (), demo1)"
  "\<exists>t. orch_alloc [] [16] 0 demo1 = (Some (Inr t), demo2)"
  "submit_impl [] NEXT_LEVEL 7 default_config [demo_args 65536] [] demo2 = (Some (Inr 1), demo3)"
  "submit_impl [] NEXT_LEVEL 8 default_config [demo_args 66560] [] demo3 = (Some (Inr 2), demo4)"
  by (simp_all add: demo1_def demo2_def demo3_def demo4_def engine_eval)

lemma demo_reachable: "reachable demo1" "reachable demo2" "reachable demo3" "reachable demo4"
proof -
  have "idle_manager demo_wm"
    by (simp add: idle_manager_def demo_wm_def new_manager_def new_worker_def)
  then have 0: "reachable (init_engine demo_ring demo_wm)"
    using reachable.init [OF demo_init] by blast
  show 1: "reachable demo1"
    by (rule reachable.step [OF 0 engine_step.scope_begin [OF demo_calls(1)]])
  have q: "quiet []"
    by (simp add: quiet_def)
  obtain t where "orch_alloc [] [16] 0 demo1 = (Some (Inr t), demo2)"
    using demo_calls(2) by blast
  then show 2: "reachable demo2"
    by (rule reachable.step [OF 1 engine_step.alloc [OF q]])
  show 3: "reachable demo3"
    by (rule reachable.step [OF 2 engine_step.submit [OF q _ demo_calls(3)]]) simp
  show "reachable demo4"
    by (rule reachable.step [OF 3 engine_step.submit [OF q _ demo_calls(4)]]) simp
qed

lemmas demo4_eval = demo4_def demo3_def demo2_def demo1_def engine_eval

lemma demo4_slots:
  "length (slots demo4) = 3" "map ts_state (slots demo4) = [COMPLETED, READY, PENDING]"
  "map fanin_producers (slots demo4) = [[], [0], [1]]" "map fanout_consumers (slots demo4) = [[1], [2], []]"
  "e_active demo4 = 3" "e_scope demo4 = [[0, 1, 2]]"
  by (simp_all add: demo4_eval)

lemma demo4_nth:
  "ts_state (slots demo4 ! 0) = COMPLETED" "ts_state (slots demo4 ! Suc 0) = READY" "ts_state (slots demo4 ! 2) = PENDING"
  "fanin_producers (slots demo4 ! Suc 0) = [0]" "fanin_producers (slots demo4 ! 2) = [1]"
proof -
  have "map ts_state (slots demo4) ! i = ts_state (slots demo4 ! i)"
    "map fanin_producers (slots demo4) ! i = fanin_producers (slots demo4 ! i)" if "i < 3" for i
    using that by (simp_all add: demo4_slots(1))
  from this [of 0] this [of "Suc 0"] this [of 2]
  show "ts_state (slots demo4 ! 0) = COMPLETED" "ts_state (slots demo4 ! Suc 0) = READY" "ts_state (slots demo4 ! 2) = PENDING"
    "fanin_producers (slots demo4 ! Suc 0) = [0]" "fanin_producers (slots demo4 ! 2) = [1]"
    by (simp_all add: demo4_slots)
qed

subsection \<open>Dependencies and lifetimes\<close>






subsection \<open>The scheduler thread\<close>

lemma drain_completions_ok:
  assumes "engine_ok E"
  shows "\<exists>E'. drain_completions E = (Inr (), E') \<and> engine_ok E' \<and> e_completion E' = [] \<and> engine_step\<^sup>*\<^sup>* E E'"
  using assms
proof (induction E rule: drain_completions.induct)
  case (1 E)
  obtain b E1 where E1: "sched_complete_one E = (Inr b, E1)" "engine_ok E1" "b \<longleftrightarrow> e_completion E \<noteq> []"
    using complete_one_ok [OF "1.prems"] by blast
  have st: "engine_step E E1"
    by (rule engine_step.complete [OF E1(1)])
  show ?case
  proof (cases b)
    case True
    from "1.IH" [OF E1(1) [symmetric] refl True E1(2)] show ?thesis
      using E1(1) True st by (subst drain_completions.simps) (auto intro: converse_rtranclp_into_rtranclp)
  next
    case False
    then have "E1 = E"
      using E1 by (simp add: sched_complete_one_def split: list.splits)
    then show ?thesis
      using E1 False by (subst drain_completions.simps) auto
  qed
qed

lemma dispatch_ready_step:
  assumes "engine_ok E"
  shows "\<exists>E'. dispatch_ready E = (Inr (), E') \<and> engine_ok E' \<and> engine_step\<^sup>*\<^sup>* E E'"
  using dispatch_ready_ok [OF assms] engine_step.dispatch by blast





subsection \<open>Progress\<close>

lemma pending_progress:
  assumes "reachable E" and "k < length (slots E)" and "ts_state (slots E ! k) = PENDING"
  shows "\<exists>j < k. ts_state (slots E ! j) = READY \<or> ts_state (slots E ! j) = RUNNING"
  using assms(2,3)
proof (induction k rule: less_induct)
  case (less k)
  note I = eng_invD [OF reachable_inv(2) [OF assms(1)]]
  have "nlive (slots E) k > 0"
    using acctD(3,4) [OF I(2) less.prems(1)] less.prems(2) by simp
  then obtain p where p: "p \<in> set (fanin_producers (slots E ! k))" "\<not> fin (slots E) p"
    by (auto simp: nlive_def filter_empty_conv)
  have b: "nat p < k" "nat p < length (slots E)"
    using graph_invD(3) [OF I(1) less.prems(1) p(1)] less.prems(1) by auto
  have "ts_state (slots E ! nat p) \<noteq> FREE"
    using reachable_inv(3) [OF assms(1)] b(2) by (simp add: no_free_def)
  then consider "ts_state (slots E ! nat p) = PENDING" | "ts_state (slots E ! nat p) = READY \<or> ts_state (slots E ! nat p) = RUNNING"
    using p(2) by (cases "ts_state (slots E ! nat p)") (auto simp: fin_def finished_def)
  then show ?case
  proof cases
    case 1
    then show ?thesis
      using less.IH [OF b] b(1) by (meson less_trans)
  qed (use b in blast)
qed

lemma idle_not_running: "slot_work s 0 False \<Longrightarrow> ts_state s \<noteq> RUNNING"
  by (cases "is_group s"; auto simp: slot_work_def)





text \<open>The exception is real: a buffer allocated with no scope open and never used.\<close>

definition demo_orphan :: Engine where
  "demo_orphan = snd (orch_alloc [] [16] 0 (init_engine demo_ring demo_wm))"

lemma demo_orphan_reachable: "reachable demo_orphan"
proof -
  have "idle_manager demo_wm" "quiet []"
    by (simp_all add: idle_manager_def demo_wm_def new_manager_def new_worker_def quiet_def)
  moreover have "\<exists>t. orch_alloc [] [16] 0 (init_engine demo_ring demo_wm) = (Some (Inr t), demo_orphan)"
    by (simp add: demo_orphan_def engine_eval)
  ultimately show ?thesis
    using reachable.init [OF demo_init] reachable.step engine_step.alloc by meson
qed


end
