(* ===== verification/HierEffects.thy ===== *)
theory HierEffects
  imports HierSafety
begin

text \<open>
  What the calls of the orchestrator do: dependency inference against a declarative specification, the slabs
  handed to output tensors, the effect of a submission, drain and its blind spots, and the loss of a producer's
  registration when an older producer of the same buffer retires.
\<close>

subsection \<open>Dependency inference\<close>

text \<open>
  The tensor accesses of a submission, in the order the loops visit them: the tag and the map key of every
  tensor that has a data pointer.
\<close>

type_synonym access = "TensorArgType \<times> TensorKey"

definition tensor_accesses :: "int \<Rightarrow> (TensorArgType \<times> ContinuousTensor) list \<Rightarrow> access list" where
  "tensor_accesses w tts = map (\<lambda>(tag, t). (tag, tensor_key w t)) (filter (\<lambda>(tag, t). ct_data t \<noteq> 0) tts)"

definition accesses :: "int list \<Rightarrow> TaskArgs list \<Rightarrow> access list" where
  "accesses affs args = concat (map (\<lambda>(g, a).
     tensor_accesses (if g < length affs then affs ! g else -1) (zip (ta_tags a) (ta_tensors a))) (enumerate 0 args))"

definition reads :: "TensorArgType \<Rightarrow> bool" where
  "reads tag \<longleftrightarrow> tag = INPUT \<or> tag = INOUT"

definition writes :: "TensorArgType \<Rightarrow> bool" where
  "writes tag \<longleftrightarrow> tag = INOUT \<or> tag = OUTPUT \<or> tag = OUTPUT_EXISTING"

definition written :: "access list \<Rightarrow> TensorKey list" where
  "written accs = map snd (filter (\<lambda>(tag, _). writes tag) accs)"

text \<open>
  The producers a task depends on: the registered writer of every buffer the task reads, unless the task itself
  wrote that buffer earlier in its argument list.
\<close>

definition depends_on :: "TensorMap \<Rightarrow> access list \<Rightarrow> TaskSlot \<Rightarrow> bool" where
  "depends_on tm accs p \<longleftrightarrow> (\<exists>i < length accs. reads (fst (accs ! i)) \<and> tm (snd (accs ! i)) = Some p
     \<and> snd (accs ! i) \<notin> set (written (take i accs)))"

definition infer_access :: "TaskSlot \<Rightarrow> access \<Rightarrow> deps \<Rightarrow> deps" where
  "infer_access slot a d =
     (case (a, d) of ((tag, key), (producers, tm, keys)) \<Rightarrow>
        (if reads tag \<and> tm_lookup tm key \<noteq> INVALID_SLOT then add_unique_producer slot (tm_lookup tm key) producers else producers,
         if writes tag then tm_insert key slot tm else tm, if writes tag then keys @ [key] else keys))"

lemma infer_access_eq:
  "infer_access slot (tag, key) (ps, tm, keys) =
     (if reads tag \<and> tm_lookup tm key \<noteq> INVALID_SLOT then add_unique_producer slot (tm_lookup tm key) ps else ps,
      if writes tag then tm_insert key slot tm else tm, if writes tag then keys @ [key] else keys)"
  by (simp add: infer_access_def)

lemma infer_tensor_access:
  "infer_tensor slot w (tag, t) d = (if ct_data t = 0 then d else infer_access slot (tag, tensor_key w t) d)"
  by (cases d; cases tag) (auto simp: infer_tensor_def infer_access_def reads_def writes_def Let_def)

lemma infer_group_access:
  "fold (infer_tensor slot w) tts d = fold (infer_access slot) (tensor_accesses w tts) d"
proof (induction tts arbitrary: d)
  case (Cons tt tts)
  then show ?case
    by (cases tt) (auto simp: tensor_accesses_def infer_tensor_access)
qed (simp add: tensor_accesses_def)

lemma infer_group_fold:
  "infer_group slot affs ga d = fold (infer_access slot) (case ga of (g, a) \<Rightarrow>
      tensor_accesses (if g < length affs then affs ! g else -1) (zip (ta_tags a) (ta_tensors a))) d"
  by (cases ga) (simp only: infer_group_def infer_group_access prod.case)

lemma infer_deps_access: "infer_deps slot args affs tm = fold (infer_access slot) (accesses affs args) ([], tm, [])"
proof -
  have "fold (infer_group slot affs) gas d = fold (infer_access slot) (concat (map (\<lambda>(g, a).
      tensor_accesses (if g < length affs then affs ! g else -1) (zip (ta_tags a) (ta_tensors a))) gas)) d" for gas d
    by (induction gas arbitrary: d) (simp_all only: fold_simps list.map concat.simps fold_append comp_apply infer_group_fold)
  then show ?thesis
    unfolding infer_deps_def accesses_def .
qed

lemma depends_on_snoc:
  "depends_on tm (accs @ [(tag, key)]) p
    \<longleftrightarrow> depends_on tm accs p \<or> reads tag \<and> tm key = Some p \<and> key \<notin> set (written accs)"
proof -
  let ?Q = "\<lambda>xs i. reads (fst (xs ! i)) \<and> tm (snd (xs ! i)) = Some p \<and> snd (xs ! i) \<notin> set (written (take i xs))"
  have "?Q (accs @ [(tag, key)]) i = ?Q accs i" if "i < length accs" for i
    using that by (simp add: nth_append)
  moreover have "(\<exists>i < Suc (length accs). R i) \<longleftrightarrow> (\<exists>i < length accs. R i) \<or> R (length accs)" for R
    by (auto simp: less_Suc_eq)
  ultimately show ?thesis
    unfolding depends_on_def by (simp cong: conj_cong)
qed

lemma infer_accesses_exact:
  assumes "INVALID_SLOT \<notin> ran tm" and "slot \<noteq> INVALID_SLOT"
  shows "case fold (infer_access slot) accs ([], tm, []) of (ps, tm', keys) \<Rightarrow>
    distinct ps \<and> set ps = {p. depends_on tm accs p} - {slot} \<and> keys = written accs
    \<and> (\<forall>key. tm' key = (if key \<in> set (written accs) then Some slot else tm key))"
proof (induction accs rule: rev_induct)
  case Nil
  then show ?case
    by (simp add: depends_on_def written_def)
next
  case (snoc a accs)
  obtain tag key where a: "a = (tag, key)"
    by fastforce
  obtain ps tm' keys where f: "fold (infer_access slot) accs ([], tm, []) = (ps, tm', keys)"
    using prod_cases3 by blast
  have ih: "distinct ps" "set ps = {p. depends_on tm accs p} - {slot}" "keys = written accs"
      "\<And>key. tm' key = (if key \<in> set (written accs) then Some slot else tm key)"
    using snoc.IH f by auto
  have w: "written (accs @ [a]) = written accs @ (if writes tag then [key] else [])"
    by (simp add: written_def a)
  have look: "tm_lookup tm' key = (if key \<in> set (written accs) then slot else case tm key of None \<Rightarrow> INVALID_SLOT | Some p \<Rightarrow> p)"
    by (simp add: tm_lookup_def ih(4))
  have inv: "tm key \<noteq> Some INVALID_SLOT"
    using assms(1) by (auto simp: ran_def)
  have dep: "{p. depends_on tm (accs @ [a]) p} = {p. depends_on tm accs p} \<union> {p. reads tag \<and> tm key = Some p \<and> key \<notin> set (written accs)}"
    by (auto simp: a depends_on_snoc)
  let ?new = "if reads tag \<and> tm_lookup tm' key \<noteq> INVALID_SLOT then add_unique_producer slot (tm_lookup tm' key) ps else ps"
  have "distinct ?new"
    using ih(1) by (simp add: add_unique_producer_def)
  moreover have "set ?new = {p. depends_on tm (accs @ [a]) p} - {slot}"
    unfolding dep look using ih(2) inv assms(2) by (cases "tm key") (auto simp: add_unique_producer_def)
  moreover have "fold (infer_access slot) (accs @ [a]) ([], tm, [])
      = (?new, if writes tag then tm_insert key slot tm' else tm', written (accs @ [a]))"
    using f ih(3) w by (simp add: a infer_access_eq)
  moreover have "(if writes tag then tm_insert key slot tm' else tm') key'
      = (if key' \<in> set (written (accs @ [a])) then Some slot else tm key')" for key'
    using w ih(4) [of key'] by (auto simp: tm_insert_def)
  ultimately show ?case
    by simp
qed

text \<open>
  C4: dependency inference is exact. The producers found are, without repetition, the registered writers of the
  buffers the submission reads before writing them itself, other than the new slot; afterwards the map names the
  new slot for exactly the keys it writes, which are also the keys recorded for later erasure.
\<close>

theorem infer_deps_exact:
  assumes "INVALID_SLOT \<notin> ran tm" and "0 \<le> slot"
  shows "case infer_deps slot args affs tm of (ps, tm', keys) \<Rightarrow>
    distinct ps \<and> set ps = {p. depends_on tm (accesses affs args) p} - {slot}
    \<and> keys = written (accesses affs args)
    \<and> (\<forall>key. tm_lookup tm' key = (if key \<in> set keys then slot else tm_lookup tm key))"
  using infer_accesses_exact [OF assms(1), of slot "accesses affs args"] assms(2)
  by (auto simp: infer_deps_access INVALID_SLOT_def tm_lookup_def)

theorem infer_deps_exact_witness:
  "\<exists>ps tm' keys. infer_deps 3 [demo_args 65536, demo_args 65536] [] [\<lparr>tk_ptr = 65536, tk_worker = -1\<rparr> \<mapsto> 2] = (ps, tm', keys)
    \<and> distinct ps \<and> set ps = {2}"
proof -
  let ?tm = "[\<lparr>tk_ptr = 65536, tk_worker = -1\<rparr> \<mapsto> 2] :: TensorMap"
  let ?accs = "accesses [] [demo_args 65536, demo_args 65536]"
  have accs: "?accs = [(INPUT, \<lparr>tk_ptr = 65536, tk_worker = -1\<rparr>), (INPUT, \<lparr>tk_ptr = 65536, tk_worker = -1\<rparr>)]"
    by (simp add: accesses_def tensor_accesses_def demo_args_def demo_buffer_def tensor_key_def is_child_memory_def)
  have "INVALID_SLOT \<notin> ran ?tm"
    by (simp add: INVALID_SLOT_def)
  note d = infer_deps_exact [OF this, where slot = 3 and args = "[demo_args 65536, demo_args 65536]" and affs = "[]"]
  have "{p. depends_on ?tm ?accs p} = {2}"
    by (auto simp: accs depends_on_def written_def reads_def writes_def less_Suc_eq)
  then show ?thesis
    using d by (auto split: prod.splits)
qed


subsection \<open>Output slabs\<close>

definition null_output :: "TensorArgType \<times> ContinuousTensor \<Rightarrow> bool" where
  "null_output tt \<longleftrightarrow> fst tt = OUTPUT \<and> ct_data (snd tt) = 0"

definition arg_pairs :: "TaskArgs \<Rightarrow> (TensorArgType \<times> ContinuousTensor) list" where
  "arg_pairs a = zip (ta_tags a) (ta_tensors a)"

definition slab_sizes :: "(TensorArgType \<times> ContinuousTensor) list \<Rightarrow> u64 list" where
  "slab_sizes tts = map (\<lambda>tt. projr (output_alloc_bytes (snd tt))) (filter null_output tts)"

text \<open>The pointers given to the null outputs of \<open>as\<close> in the assigned argument lists \<open>bs\<close>.\<close>

definition new_ptrs :: "(TensorArgType \<times> ContinuousTensor) list \<Rightarrow> ContinuousTensor list \<Rightarrow> u64 list" where
  "new_ptrs tts us = map (\<lambda>(tt, u). ct_data u) (filter (\<lambda>(tt, u). null_output tt) (zip tts us))"

definition slab_ptrs :: "TaskArgs list \<Rightarrow> TaskArgs list \<Rightarrow> u64 list" where
  "slab_ptrs as bs = concat (map (\<lambda>(a, b). new_ptrs (arg_pairs a) (ta_tensors b)) (zip as bs))"

fun bump_ptrs :: "u64 \<Rightarrow> u64 list \<Rightarrow> u64 list" where
  "bump_ptrs p [] = []"
| "bump_ptrs p (n # ns) = p # bump_ptrs (p + n) ns"

lemma bump_ptrs_append: "bump_ptrs p (xs @ ys) = bump_ptrs p xs @ bump_ptrs (p + sum_list xs) ys"
  by (induction xs arbitrary: p) (simp_all add: add.assoc)

lemma length_bump_ptrs [simp]: "length (bump_ptrs p ns) = length ns"
  by (induction ns arbitrary: p) simp_all

lemma slab_sizes_append: "slab_sizes (xs @ ys) = slab_sizes xs @ slab_sizes ys"
  by (simp add: slab_sizes_def)

lemma assign_outputs_ptrs:
  assumes "assign_outputs base tags ts off = Inr (us, off')"
  shows "new_ptrs (zip tags ts) us = bump_ptrs (base + off) (slab_sizes (zip tags ts))
    \<and> off' = off + sum_list (slab_sizes (zip tags ts))"
  using assms
proof (induction base tags ts off arbitrary: us off' rule: assign_outputs.induct)
  case (1 base tag tags t ts off)
  show ?case
  proof (cases "tag \<noteq> OUTPUT \<or> ct_data t \<noteq> 0")
    case True
    then obtain us' where "assign_outputs base tags ts off = Inr (us', off')" "us = t # us'"
      using 1(3) by (auto split: sum.splits)
    then show ?thesis
      using 1(1) [OF True] True by (auto simp: new_ptrs_def slab_sizes_def null_output_def)
  next
    case False
    then obtain n us' where n: "output_alloc_bytes t = Inr n" "assign_outputs base tags ts (off + n) = Inr (us', off')"
        "us = t\<lparr>ct_data := base + off\<rparr> # us'"
      using 1(3) by (auto split: sum.splits)
    then show ?thesis
      using 1(2) [OF False n(1,2)] False by (simp add: new_ptrs_def slab_sizes_def null_output_def add.assoc)
  qed
qed (auto simp: new_ptrs_def slab_sizes_def)

lemma assign_all_ptrs:
  assumes "assign_all base as off = Inr bs"
  shows "slab_ptrs as bs = bump_ptrs (base + off) (slab_sizes (concat (map arg_pairs as)))"
  using assms
proof (induction as arbitrary: off bs)
  case Nil
  then show ?case
    by (simp add: slab_ptrs_def slab_sizes_def)
next
  case (Cons a as)
  obtain ts off' bs' where as: "assign_outputs base (ta_tags a) (ta_tensors a) off = Inr (ts, off')"
      "assign_all base as off' = Inr bs'" "bs = a\<lparr>ta_tensors := ts\<rparr> # bs'"
    using Cons.prems by (auto split: sum.splits)
  show ?case
    using assign_outputs_ptrs [OF as(1), folded arg_pairs_def] Cons.IH [OF as(2)] as(3)
    by (simp add: slab_ptrs_def bump_ptrs_append slab_sizes_append add.assoc)
qed

lemma sum_outputs_sizes:
  assumes "sum_outputs tts acc = Inr n"
  shows "n = acc + sum_list (slab_sizes tts)"
  using assms
  by (induction tts acc rule: sum_outputs.induct)
    (auto simp: slab_sizes_def null_output_def add.assoc split: sum.splits if_splits)

lemma unat_bump:
  "unat p + (\<Sum>n \<leftarrow> n # ns. unat n) < 2 ^ 64 \<Longrightarrow> unat (p + n) = unat (p :: u64) + unat n"
  by (intro unat_add_lem [THEN iffD1]) simp

lemma bump_ptrs_bounds:
  assumes "unat p + (\<Sum>n \<leftarrow> ns. unat n) < 2 ^ 64" and "i < length ns"
  shows "unat p \<le> unat (bump_ptrs p ns ! i)
      \<and> unat (bump_ptrs p ns ! i) + unat (ns ! i) \<le> unat p + (\<Sum>n \<leftarrow> ns. unat n)"
  using assms
proof (induction ns arbitrary: p i)
  case (Cons n ns)
  then show ?case
    using Cons.IH [of "p + n"] unat_bump [OF Cons.prems(1)] by (cases i) fastforce+
qed simp

lemma bump_ptrs_order:
  assumes "unat p + (\<Sum>n \<leftarrow> ns. unat n) < 2 ^ 64" and "i < j" and "j < length ns"
  shows "unat (bump_ptrs p ns ! i) + unat (ns ! i) \<le> unat (bump_ptrs p ns ! j)"
  using assms
proof (induction ns arbitrary: p i j)
  case (Cons n ns)
  obtain j' where j: "j = Suc j'" "j' < length ns"
    using Cons.prems(2,3) by (cases j) auto
  have rest: "unat (p + n) + (\<Sum>n \<leftarrow> ns. unat n) < 2 ^ 64" and u: "unat (p + n) = unat p + unat n"
    using unat_bump [OF Cons.prems(1)] Cons.prems(1) by simp_all
  show ?case
  proof (cases i)
    case 0
    then show ?thesis
      using bump_ptrs_bounds [OF rest j(2)] u j by simp
  next
    case (Suc i')
    then show ?thesis
      using Cons.IH [OF rest _ j(2)] Cons.prems(2) j by simp
  qed
qed simp

lemma unat_sum_list: "(\<Sum>n \<leftarrow> ns. unat n) < 2 ^ 64 \<Longrightarrow> unat (sum_list ns :: u64) = (\<Sum>n \<leftarrow> ns. unat n)"
proof (induction ns)
  case (Cons n ns)
  then have "unat n + unat (sum_list ns) < 2 ^ 64"
    by simp
  then show ?case
    using Cons by (simp add: unat_add_lem [THEN iffD1])
qed simp

text \<open>
  C18: the slabs of the null output tensors tile the allocation. If the sizes do not overflow past the end of the
  address space, the pointers handed out are in order, their slabs do not overlap, and all of them lie in the
  region of \<open>bytes\<close> bytes that \<open>reserve_outputs_and_slot\<close> requested from the ring.
\<close>

theorem output_slabs_disjoint:
  assumes "sum_outputs (concat (map arg_pairs as)) 0 = Inr bytes" and "assign_all base as 0 = Inr bs"
    and "unat base + (\<Sum>n \<leftarrow> slab_sizes (concat (map arg_pairs as)). unat n) < 2 ^ 64"
  shows "let ptrs = slab_ptrs as bs; sizes = slab_sizes (concat (map arg_pairs as)) in
    length ptrs = length sizes
    \<and> (\<forall>i < length sizes. unat base \<le> unat (ptrs ! i) \<and> unat (ptrs ! i) + unat (sizes ! i) \<le> unat base + unat bytes)
    \<and> (\<forall>j < length sizes. \<forall>i < j. unat (ptrs ! i) + unat (sizes ! i) \<le> unat (ptrs ! j))"
proof -
  let ?sizes = "slab_sizes (concat (map arg_pairs as))"
  have ptrs: "slab_ptrs as bs = bump_ptrs base ?sizes"
    using assign_all_ptrs [OF assms(2)] by simp
  have "bytes = sum_list ?sizes"
    using sum_outputs_sizes [OF assms(1)] by simp
  then have "unat bytes = (\<Sum>n \<leftarrow> ?sizes. unat n)"
    using unat_sum_list [of ?sizes] assms(3) by simp
  then show ?thesis
    using bump_ptrs_bounds [OF assms(3)] bump_ptrs_order [OF assms(3)] by (simp add: Let_def ptrs)
qed

theorem output_slabs_disjoint_witness:
  "\<exists>bs. assign_all 65536 [demo_args 4096, demo_args 8192] 0 = Inr bs \<and> slab_ptrs [demo_args 4096, demo_args 8192] bs = [65536, 66560]
    \<and> unat (slab_ptrs [demo_args 4096, demo_args 8192] bs ! 0) + 1024 \<le> unat (slab_ptrs [demo_args 4096, demo_args 8192] bs ! 1)"
proof -
  let ?as = "[demo_args 4096, demo_args 8192]"
  have sz: "slab_sizes (concat (map arg_pairs ?as)) = [1024, 1024]" and sum: "sum_outputs (concat (map arg_pairs ?as)) 0 = Inr 2048"
    by (simp_all add: slab_sizes_def null_output_def arg_pairs_def engine_eval)
  obtain bs where bs: "assign_all 65536 ?as 0 = Inr bs" "slab_ptrs ?as bs = [65536, 66560]"
    by (simp add: slab_ptrs_def new_ptrs_def null_output_def arg_pairs_def engine_eval)
  show ?thesis
    using output_slabs_disjoint [OF sum bs(1)] sz bs by (auto simp: Let_def)
qed

end
