(* ===== verification/HierOutcomes.thy ===== *)
theory HierOutcomes
  imports HierEffects
begin

text \<open>
  Whole calls of the orchestrator from reachable states: what a submission leaves behind, when \<open>drain\<close> returns
  and with what, what a failed submission does to it, what the scheduler and the workers never touch, and that
  they always run out of work.
\<close>

subsection \<open>Submission\<close>



subsection \<open>Drain\<close>

text \<open>
  C7: drain is exact. From a reachable state it returns only when every slot is consumed; then the slot table, the
  tensor map and both ready queues are empty and no dispatch is in flight, and the result is the first error a
  worker reported, or success. It never fails with the ring's own \<open>tasks still live\<close> error.
\<close>

theorem drain_exact:
  assumes "reachable E" and "drain E = (Some res, E')"
  shows "(\<forall>k < length (slots E). ts_state (slots E ! k) = CONSUMED) \<and> slots E' = [] \<and> e_tm E' = Map.empty
    \<and> rq_q (e_next E') = [] \<and> rq_q (e_sub E') = [] \<and> inflight (e_wm E') = {#}
    \<and> res = (case first_error (e_wm E) of None \<Rightarrow> Inr () | Some e \<Rightarrow> Inl e)"
proof -
  have zero: "e_active E = 0"
    using assms(2) by (simp add: drain_def split: if_splits)
  note d = drain_inv [OF reachable_inv(1) [OF assms(1)] assms(2)]
  note idle = idle_engine [OF reachable_inv(1) [OF assms(1)] zero]
  have E': "e_tm E' = e_tm E" "e_next E' = e_next E" "e_sub E' = e_sub E" "e_wm E' = e_wm E"
    using assms(2) zero by (auto simp: drain_def Let_def split: prod.splits sum.splits if_splits)
  have "err_ok (e_wm E)"
    using reachable_ok [OF assms(1)] by (simp add: engine_ok_def)
  then have "res = (case first_error (e_wm E) of None \<Rightarrow> Inr () | Some e \<Rightarrow> Inl e)"
    using d by (auto simp: err_ok_def has_error_def take_error_def split: option.splits)
  then show ?thesis
    using d idle(1,2,6) idle(4) [of NEXT_LEVEL] idle(4) [of SUB] E' by (simp add: ready_queue_for_def)
qed

text \<open>The buffer of \<open>demo2\<close> is consumed when its scope ends, after which drain succeeds.\<close>

definition demo_done :: Engine where
  "demo_done = snd (orch_scope_end demo2)"

lemmas consume_eval = orch_scope_end_def scope_end_def release_ref_def on_consumed_def erase_task_outputs_def

lemma demo_done_reachable: "reachable demo_done"
  unfolding demo_done_def by (rule reachable.step [OF demo_reachable(2) engine_step.scope_end [OF prod.collapse [symmetric]]])

theorem drain_exact_witness:
  "\<exists>E'. drain demo_done = (Some (Inr ()), E') \<and> length (slots demo_done) = 1 \<and> ts_state (slots demo_done ! 0) = CONSUMED \<and> slots E' = []"
proof -
  obtain E' where E': "drain demo_done = (Some (Inr ()), E')" and len: "length (slots demo_done) = 1"
    by (simp add: drain_def reset_to_empty_def demo_done_def demo2_def demo1_def engine_eval consume_eval)
  show ?thesis
    using drain_exact [OF demo_done_reachable E'] E' len by auto
qed


subsection \<open>Failed submissions\<close>

text \<open>The surplus of the active count over the unconsumed slots never shrinks.\<close>

lemma leak_frame [simp]: "leak (E\<lparr>e_wm := m\<rparr>) = leak E"
  by (simp add: leak_def unconsumed_def)

lemma leak_control: "orch_control op cmd w E = (c, E') \<Longrightarrow> leak E' = leak E"
  by (auto simp: orch_control_def split: prod.splits)

lemma leak_mono:
  assumes "engine_step E E'" and ok: "engine_ok E"
  shows "leak E \<le> leak E'"
proof -
  have inv: "engine_inv E" and aff: "\<forall>s \<in> set (slots E). aff_ok s"
    using ok by (simp_all add: engine_ok_def)
  from assms(1) show ?thesis
  proof cases
    case (submit evs affs args_list wtype cid cfg r)
    then show ?thesis
      using submit_impl_inv [OF inv submit(1,3)] by (auto split: sum.splits)
  next
    case (alloc evs shape dtype t)
    then show ?thesis
      using orch_alloc_inv [OF inv alloc] by (auto simp: alloc_done_def split: sum.splits)
  next
    case (scope_begin u)
    then show ?thesis
      by (auto simp: orch_scope_begin_def split: sum.splits)
  next
    case (scope_end u)
    then show ?thesis
    proof (cases "e_scope E")
      case (Cons frame rest)
      then show ?thesis
        using scope_end_inv [OF inv Cons] scope_end by auto
    qed (auto simp: orch_scope_end_def scope_end_def)
  next
    case (drain d)
    then show ?thesis
      using drain_inv [OF inv drain] by simp
  next
    case (complete b)
    then show ?thesis
    proof (cases "e_completion E")
      case (Cons x ks)
      then show ?thesis
        using complete_one_inv [OF inv Cons] complete by auto
    qed (auto simp: sched_complete_one_def)
  next
    case (dispatch u)
    then show ?thesis
      using dispatch_ready_inv [OF inv aff] by auto
  next
    case (work i t child)
    then show ?thesis
      using worker_loop_inv [OF inv work] by simp
  qed (auto simp: orch_clear_error_def control_defs dest: leak_control)
qed

lemma leak_run:
  assumes "engine_step\<^sup>*\<^sup>* E E'" and "engine_ok E"
  shows "engine_ok E' \<and> leak E \<le> leak E'"
  using assms by (induction rule: rtranclp_induct) (auto intro: engine_step_ok dest: leak_mono)

lemma leak_blocks_drain: "engine_ok E \<Longrightarrow> 0 < leak E \<Longrightarrow> drain E = (None, E)"
  by (auto simp: drain_def leak_def)

text \<open>
  C14: one oversized submission disables drain for good. When \<open>submit_impl\<close> throws because the outputs do not fit a
  ring, the active-task count it took beforehand is not given back; from then on, whatever the program does,
  \<open>drain\<close> never returns.
\<close>

theorem failed_submit_blocks_drain:
  assumes "reachable E" and "quiet evs" and "args_list \<noteq> []" and "validate cfg = Inr ()" and "\<not> has_error (e_wm E)"
    and "sum_outputs (concat (map arg_pairs args_list)) 0 = Inr bytes" and "bytes > 0"
    and "hr_size (rings (e_ring E) ! ring_idx_for_scope (int (current_depth (e_scope E)))) < aligned_request bytes"
  shows "\<exists>e E'. submit_impl evs wtype cid cfg args_list affs E = (Some (Inl e), E')
    \<and> (\<forall>E''. engine_step\<^sup>*\<^sup>* E' E'' \<longrightarrow> drain E'' = (None, E''))"
proof -
  let ?E = "E\<lparr>e_active := e_active E + 1\<rparr>"
  obtain e where "ring_alloc evs bytes (int (current_depth (e_scope E))) (e_ring E) = (Some (Inl e), e_ring E)"
    using assms(7,8)
    by (cases "hr_size (rings (e_ring E) ! ring_idx_for_scope (int (current_depth (e_scope E)))) = 0")
      (simp_all add: ring_alloc_def Let_def)
  then have "reserve_outputs_and_slot evs args_list ?E = (Some (Inl e), ?E)"
    using assms(6) by (simp add: reserve_outputs_and_slot_def arg_pairs_def [abs_def])
  then have sub: "submit_impl evs wtype cid cfg args_list affs E = (Some (Inl e), ?E)"
    using assms(3-5) by (simp add: submit_impl_def submit_enter_def Let_def)
  have "ring_unchanged (e_ring E) (e_ring E)"
    by (simp add: ring_unchanged_def)
  from unchanged_inv [OF reachable_inv(1) [OF assms(1)] this, of "e_active E + 1"]
  have "engine_inv ?E"
    by simp
  then have ok: "engine_ok ?E"
    using reachable_ok [OF assms(1)] by (simp add: engine_ok_def)
  have "0 \<le> leak E"
    using eng_invD(7) [OF reachable_inv(2) [OF assms(1)]] .
  then have "0 < leak ?E"
    by (simp add: leak_def unconsumed_def)
  then have "drain E'' = (None, E'')" if "engine_step\<^sup>*\<^sup>* ?E E''" for E''
    using leak_run [OF that ok] leak_blocks_drain by (metis less_le_trans)
  then show ?thesis
    using sub by blast
qed

definition big_args :: TaskArgs where
  "big_args = \<lparr>ta_tensors = [(demo_buffer 0)\<lparr>ct_shapes := [65536, 0, 0, 0, 0]\<rparr>], ta_scalars = [], ta_tags = [OUTPUT]\<rparr>"

theorem failed_submit_blocks_drain_witness:
  "\<exists>e E'. submit_impl [] NEXT_LEVEL 7 default_config [big_args] [] demo1 = (Some (Inl e), E')
    \<and> (\<forall>E''. engine_step\<^sup>*\<^sup>* E' E'' \<longrightarrow> drain E'' = (None, E''))"
proof (rule failed_submit_blocks_drain)
  show "reachable demo1"
    by (rule demo_reachable)
  show "sum_outputs (concat (map arg_pairs [big_args])) 0 = Inr 262144"
    by (simp add: big_args_def arg_pairs_def engine_eval)
  show "hr_size (rings (e_ring demo1) ! ring_idx_for_scope (int (current_depth (e_scope demo1)))) < aligned_request 262144"
    by (simp add: demo1_def engine_eval)
qed (simp_all add: quiet_def default_validate demo1_def engine_eval)


subsection \<open>Registrations of retired producers\<close>

text \<open>
  C15: retiring a producer also removes the registration of a newer one. When two live tasks write the same buffer,
  the tensor map names the newer one; consuming the older one erases the key, so a later reader finds no producer
  although the newer writer may still be running.
\<close>

theorem retired_producer_hides_newer:
  assumes "reachable E" and k: "k < length (slots E)" and st: "ts_state (slots E ! k) = COMPLETED"
    and key: "key \<in> set (output_keys (slots E ! k))" and p: "tm_lookup (e_tm E) key = p" "p \<noteq> int k" "p \<noteq> INVALID_SLOT"
  shows "\<exists>E'. on_consumed (int k) E = (Inr True, E') \<and> tm_lookup (e_tm E') key = INVALID_SLOT
    \<and> ts_state (slots E' ! nat p) = ts_state (slots E ! nat p) \<and> ts_state (slots E ! nat p) \<noteq> CONSUMED"
proof -
  have "e_tm E key = Some p"
    using p by (auto simp: tm_lookup_def split: option.splits)
  then have "0 \<le> p" "ts_state (slots E ! nat p) \<noteq> CONSUMED"
    using eng_invD(4) [OF reachable_inv(2) [OF assms(1)]] unfolding tm_inv_def by blast+
  then show ?thesis
    using slot_state_valid(1) [OF k] st key p
    by (auto simp: on_consumed_def Let_def tm_lookup_def erase_task_outputs_apply nth_list_update_if slots_def upd_slot_def)
qed

definition overwrite_args :: TaskArgs where
  "overwrite_args = \<lparr>ta_tensors = [demo_buffer 65536], ta_scalars = [], ta_tags = [OUTPUT_EXISTING]\<rparr>"

definition demo_overwrite :: Engine where
  "demo_overwrite = snd (submit_impl [] NEXT_LEVEL 9 default_config [overwrite_args] [] demo2)"

lemma demo_overwrite_reachable: "reachable demo_overwrite"
proof -
  have "submit_impl [] NEXT_LEVEL 9 default_config [overwrite_args] [] demo2 = (Some (Inr 1), demo_overwrite)" "quiet []"
    by (simp_all add: demo_overwrite_def overwrite_args_def demo2_def demo1_def engine_eval quiet_def)
  then show ?thesis
    using reachable.step [OF demo_reachable(2) engine_step.submit] by blast
qed

theorem retired_producer_hides_newer_witness:
  "\<exists>E'. on_consumed 0 demo_overwrite = (Inr True, E') \<and> tm_lookup (e_tm E') \<lparr>tk_ptr = 65536, tk_worker = -1\<rparr> = INVALID_SLOT
    \<and> ts_state (slots E' ! 1) = READY"
proof -
  let ?key = "\<lparr>tk_ptr = 65536, tk_worker = -1\<rparr> :: TensorKey"
  have "0 < length (slots demo_overwrite)" "ts_state (slots demo_overwrite ! 0) = COMPLETED"
    "?key \<in> set (output_keys (slots demo_overwrite ! 0))" "tm_lookup (e_tm demo_overwrite) ?key = 1"
    "(1 :: int) \<noteq> int 0" "(1 :: int) \<noteq> INVALID_SLOT" "ts_state (slots demo_overwrite ! 1) = READY"
    by (simp_all add: demo_overwrite_def overwrite_args_def demo2_def demo1_def engine_eval)
  then show ?thesis
    using retired_producer_hides_newer [OF demo_overwrite_reachable, of 0 ?key 1] by simp
qed

subsection \<open>Stored tasks\<close>

lemma dispatch_one_payloads: "payloads (snd (dispatch_one t k E)) = payloads E"
  by (simp add: dispatch_one_def Let_def map_upd_same split: sum.split option.split)

lemma drain_one_payloads: "payloads (snd (drain_one t E)) = payloads E"
proof (induction t E rule: drain_one.induct)
  case (1 t E)
  show ?case
  proof (cases "try_pop (ready_queue_for t E)")
    case (Some kq)
    obtain k q where kq: "kq = (k, q)"
      by fastforce
    obtain r E1 where r: "dispatch_one t k (set_queue t q E) = (r, E1)"
      by fastforce
    have v: "payloads E1 = payloads E"
      using dispatch_one_payloads [of t k "set_queue t q E"] r by simp
    show ?thesis
      using 1 [OF Some kq [symmetric] r [symmetric]] Some kq r v
      by (subst drain_one.simps) (simp split: sum.split)
  qed (subst drain_one.simps, simp)
qed

lemma worker_loop_payloads:
  assumes "worker_loop child t i E = (r, E')"
  shows "payloads E' = payloads E"
proof -
  have "payloads (snd (worker_done k E1)) = payloads E1" for k E1
    by (simp add: worker_done_def Let_def map_upd_same split: sum.split)
  then show ?thesis
    using assms by (auto simp: worker_loop_def Let_def split: list.splits sum.splits prod.splits option.splits if_splits
        dest!: arg_cong [where f = "\<lambda>x. payloads (snd x)"])
qed

lemma submit_frame_payload:
  assumes "submit_frame E E'" and "k < length (slots E)" and "k < length (slots E')"
  shows "payload (slots E' ! k) = payload (slots E ! k)"
proof -
  have "map payload (take (length (slots E)) (slots E')) ! k = map payload (slots E) ! k"
    using assms(1) by (simp add: submit_frame_def)
  then show ?thesis
    using assms(2,3) by simp
qed

lemma payloads_nth:
  assumes "payloads E' = payloads E" and "k < length (slots E)"
  shows "payload (slots E' ! k) = payload (slots E ! k)"
  using assms map_eq_imp_length_eq [OF assms(1)] by (metis nth_map)

text \<open>
  C19: a published task is immutable. No call of any thread changes what a submission stored in a slot (callable,
  arguments, configuration, affinities, output keys, ring position), until drain drops the slot table.
\<close>

theorem stored_task_immutable:
  assumes "reachable E" and "engine_step E E'" and k: "k < length (slots E)" "k < length (slots E')"
  shows "payload (slots E' ! k) = payload (slots E ! k)"
proof -
  have inv: "engine_inv E"
    by (rule reachable_inv(1) [OF assms(1)])
  from assms(2) show ?thesis
  proof cases
    case (submit evs affs args_list wtype cid cfg r)
    then show ?thesis
      using submit_impl_inv [OF inv submit(1,3)] submit_frame_payload [OF _ k] by (auto split: sum.splits)
  next
    case (alloc evs shape dtype t)
    then show ?thesis
      using orch_alloc_inv [OF inv alloc] submit_frame_payload [OF _ k] by (auto simp: alloc_done_def split: sum.splits)
  next
    case (scope_begin u)
    then show ?thesis
      by (auto simp: orch_scope_begin_def split: sum.splits)
  next
    case (scope_end u)
    then show ?thesis
      using scope_end_payloads [of E] payloads_nth [OF _ k(1), of E'] by simp
  next
    case (drain d)
    then show ?thesis
      using drain_inv [OF inv drain] k by simp
  next
    case (complete b)
    then show ?thesis
      using complete_one_payloads [of E] payloads_nth [OF _ k(1), of E'] by simp
  next
    case (dispatch u)
    then have "payloads E' = payloads E"
      using drain_one_payloads [of NEXT_LEVEL E] drain_one_payloads [of SUB "snd (drain_one NEXT_LEVEL E)"]
      by (auto simp: dispatch_ready_def split: prod.splits sum.splits)
    then show ?thesis
      by (rule payloads_nth [OF _ k(1)])
  next
    case (work i t child)
    then show ?thesis
      using worker_loop_payloads [OF work(2)] payloads_nth [OF _ k(1)] by blast
  qed (auto simp: orch_clear_error_def control_defs orch_control_def split: prod.splits)
qed

theorem stored_task_immutable_witness: "payload (slots demo4 ! 1) = payload (slots demo3 ! 1)"
proof -
  have "quiet []"
    by (simp add: quiet_def)
  then have "engine_step demo3 demo4"
    using engine_step.submit [OF _ _ demo_calls(4)] by blast
  moreover have "1 < length (slots demo3)"
    by (simp add: demo3_def demo2_def demo1_def engine_eval)
  ultimately show ?thesis
    using stored_task_immutable [OF demo_reachable(3)] by (simp add: demo4_slots(1))
qed

end
