(* ===== verification/HierProgress.thy ===== *)
theory HierProgress
  imports HierOutcomes
begin

text \<open>
  The scheduler and the workers cannot run for ever on the tasks submitted so far: every completion, every
  dispatch of a task and every worker iteration uses up some of a finite amount of work.
\<close>

definition weight :: "TaskSlotState \<Rightarrow> nat" where
  "weight s = (case ts_state s of FREE \<Rightarrow> 0 | PENDING \<Rightarrow> group_size s + 4 | READY \<Rightarrow> group_size s + 3
     | RUNNING \<Rightarrow> 2 | COMPLETED \<Rightarrow> 1 | CONSUMED \<Rightarrow> 0)"

definition slot_work_left :: "Engine \<Rightarrow> nat" where
  "slot_work_left E = sum_list (map weight (slots E))"

definition todo :: "Engine \<Rightarrow> nat" where
  "todo E = slot_work_left E + size (inflight (e_wm E))"

lemma sum_weight_upd:
  "k < length ss \<Longrightarrow> sum_list (map weight (ss[k := s'])) + weight (ss ! k) = sum_list (map weight ss) + weight s'"
proof (induction ss arbitrary: k)
  case (Cons s ss)
  then show ?case
    by (cases k) auto
qed simp

lemma left_upd:
  assumes "slots E' = (slots E)[k := s']" and "k < length (slots E)"
  shows "slot_work_left E' + weight (slots E ! k) = slot_work_left E + weight s'"
  using sum_weight_upd [OF assms(2), of s'] assms(1) by (simp add: slot_work_left_def)

lemma left_upd_same:
  assumes "slots E' = (slots E)[k := s']" and "weight s' = weight (slots E ! k)"
  shows "slot_work_left E' = slot_work_left E"
  using left_upd [OF assms(1)] assms by (cases "k < length (slots E)") (auto simp: slot_work_left_def list_update_beyond)

lemma group_size_stores [simp]:
  "group_size (s\<lparr>fanout_released := r\<rparr>) = group_size s" "group_size (s\<lparr>fanin_released := r\<rparr>) = group_size s"
  "group_size (s\<lparr>sub_complete_count := r\<rparr>) = group_size s" "group_size (s\<lparr>ts_state := v\<rparr>) = group_size s"
  by (simp_all add: group_size_def)

lemma weight_stores [simp]:
  "weight (s\<lparr>fanout_released := r\<rparr>) = weight s" "weight (s\<lparr>fanin_released := r\<rparr>) = weight s"
  "weight (s\<lparr>sub_complete_count := r\<rparr>) = weight s"
  "weight (s\<lparr>ts_state := COMPLETED\<rparr>) = 1" "weight (s\<lparr>ts_state := CONSUMED\<rparr>) = 0"
  "weight (s\<lparr>ts_state := READY\<rparr>) = group_size s + 3" "weight (s\<lparr>ts_state := RUNNING\<rparr>) = 2"
  by (simp_all add: weight_def split: TaskState.split)

lemma weight_bump:
  "weight (bump_fanout s) \<le> weight s" "weight (bump_fanin s) \<le> weight s"
  by (auto simp: bump_fanout_def bump_fanin_def Let_def) (auto simp: weight_def)

lemma consume_to_left: "k < length (slots E) \<Longrightarrow> slot_work_left (consume_to k E) \<le> slot_work_left E"
  using left_upd [OF consume_to_simps(1)] weight_bump(1) [of "slots E ! k"] by (metis add_le_cancel_right add_mono le_refl)

lemma fanin_to_left: "k < length (slots E) \<Longrightarrow> slot_work_left (fanin_to k E) \<le> slot_work_left E"
  using left_upd [OF fanin_to_simps(1), of k E] weight_bump(2) [of "slots E ! k"] by (metis add_le_cancel_right add_mono le_refl)

lemma sched_slot_cases:
  "(\<exists>e. sched_slot_state k E = Inl e) \<or> (\<exists>j. k = int j \<and> j < length (slots E))"
  by (cases "0 \<le> k \<and> nat k < length (slots E)")
    (auto simp: sched_slot_state_def ring_slot_state_def slots_def split: option.splits intro: exI [of _ "nat k"])

lemma release_left:
  "slot_work_left (snd (try_consume k E)) \<le> slot_work_left E" "slot_work_left (snd (release_fanin k E)) \<le> slot_work_left E"
  using sched_slot_cases [of k E] consume_eq(1) [of _ E] release_fanin_eq [of _ E] consume_to_left [of _ E] fanin_to_left [of _ E]
  by (auto simp: try_consume_def release_fanin_def)

lemma for_each_le:
  fixes g :: "'s \<Rightarrow> nat"
  assumes "\<And>x s. g (snd (f x s)) \<le> g s"
  shows "g (snd (for_each f xs s)) \<le> g s"
proof (induction xs arbitrary: s)
  case (Cons x xs)
  have "g (snd (f x s)) \<le> g s"
    by (rule assms)
  then show ?case
    using Cons.IH [of "snd (f x s)"] by (auto split: prod.split sum.split)
qed simp

lemma complete_left:
  assumes "sched_slot_state k E = Inr s" and "ts_state s = RUNNING"
  shows "slot_work_left (snd (on_task_complete k E)) < slot_work_left E"
proof -
  obtain j where j: "k = int j" "j < length (slots E)"
    using sched_slot_cases [of k E] assms(1) by auto
  then have s: "s = slots E ! j"
    using assms(1) slot_state_valid(2) by simp
  let ?E = "upd_slot k (\<lambda>s. s\<lparr>ts_state := COMPLETED\<rparr>) E"
  have "slot_work_left ?E + 2 = slot_work_left E + 1"
    using left_upd [of ?E E j] j s assms(2) by (simp add: weight_def)
  moreover obtain r1 E1 where 1: "for_each release_fanin (fanout_consumers s) ?E = (r1, E1)"
    by fastforce
  have "slot_work_left E1 \<le> slot_work_left ?E"
    using for_each_le [of slot_work_left release_fanin, OF release_left(2)] 1 by (metis snd_conv)
  moreover obtain r2 E2 where 2: "try_consume k E1 = (r2, E2)"
    by fastforce
  have "slot_work_left E2 \<le> slot_work_left E1"
    using release_left(1) [of k E1] 2 by simp
  moreover have "slot_work_left (snd (for_each try_consume (fanin_producers (slots E2 ! nat k)) E2)) \<le> slot_work_left E2"
    using for_each_le [of slot_work_left try_consume, OF release_left(1)] .
  ultimately show ?thesis
    using assms(1) 1 2 by (auto simp: on_task_complete_def split: sum.split)
qed


lemma left_frame [simp]:
  "slot_work_left (E\<lparr>e_wm := m\<rparr>) = slot_work_left E" "slot_work_left (E\<lparr>e_completion := c\<rparr>) = slot_work_left E"
  "slot_work_left (set_queue t q E) = slot_work_left E"
  by (simp_all add: slot_work_left_def)

lemma complete_one_todo:
  assumes inv: "engine_inv E" and q: "e_completion E = x # ks" and r: "sched_complete_one E = (b, E')"
  shows "todo E' < todo E"
proof -
  have I: "eng_inv E (mset (concat (e_scope E))) {#}" and nf: "no_free E"
    using inv by (simp_all add: engine_inv_def)
  obtain k where k: "x = int k" "k < length (slots E)"
    using eng_invD(6) [OF I] q unfolding work_inv_def by (metis list.set_intros(1) nonneg_int_cases of_nat_less_iff)
  have run: "ts_state (slots E ! k) = RUNNING"
    using complete_mark_inv(1) [OF I nf _ k(2)] q k(1) by simp
  let ?E = "E\<lparr>e_completion := ks\<rparr>"
  have "sched_slot_state x ?E = Inr (slots E ! k)"
    using slot_state_valid(2) [of k ?E] k by simp
  from complete_left [OF this run] have "slot_work_left (snd (on_task_complete x ?E)) < slot_work_left E"
    by simp
  moreover have "E' = snd (on_task_complete x ?E)"
    using r q by (auto simp: sched_complete_one_def split: prod.splits sum.splits)
  moreover have "e_wm E' = e_wm E"
    using complete_one_inv [OF inv q] r by auto
  ultimately show ?thesis
    by (simp add: todo_def)
qed

lemma dispatch_pop_todo:
  assumes inv: "engine_inv E" and pop: "try_pop (ready_queue_for t E) = Some (x, q)"
    and d: "dispatch_one t x (set_queue t q E) = (Inr cont, E')"
  shows "if cont then todo E' < todo E else slots E' = slots E \<and> e_wm E' = e_wm E"
proof -
  have I: "eng_inv E (mset (concat (e_scope E))) {#}"
    using inv by (simp add: engine_inv_def)
  have "x \<in> set (rq_q (ready_queue_for t E))"
    using rq.pop_rest [OF pop] by simp
  then obtain k where k: "x = int k" "k < length (slots E)" "ts_state (slots E ! k) = READY"
    using eng_invD(3) [OF I] unfolding queue_inv_def by blast
  let ?s = "slots E ! k" and ?E = "set_queue t q E"
  have st: "sched_slot_state x ?E = Inr ?s"
    using slot_state_valid(2) [of k ?E] k by simp
  show ?thesis
  proof (cases cont)
    case False
    then show ?thesis
      using d st by (auto simp: dispatch_one_def Let_def split: sum.splits option.splits)
  next
    case True
    then obtain ws where ws: "assign_workers (e_wm E) ?s = Inr (Some ws)"
        "E' = (upd_slot x (\<lambda>s. s\<lparr>ts_state := RUNNING\<rparr>) ?E)\<lparr>e_wm := fold (dispatch_to (worker_type ?s) x) (enumerate 0 ws) (e_wm E)\<rparr>"
      using d st by (auto simp: dispatch_one_def Let_def split: sum.splits option.splits)
    note v = assign_workers_valid [OF ws(1)]
    have "inflight (e_wm E') = inflight (e_wm E) + mset (map (\<lambda>i. \<lparr>wd_task_slot = x, wd_group_index = i\<rparr>) [0..<0 + length ws])"
      unfolding ws(2) using inflight_dispatch_all [OF v(2)] by simp
    then have "size (inflight (e_wm E')) = size (inflight (e_wm E)) + group_size ?s"
      using v(1) by simp
    moreover have "slots E' = (slots E)[k := ?s\<lparr>ts_state := RUNNING\<rparr>]"
      unfolding ws(2) using k(1) by simp
    then have "slot_work_left E' + (group_size ?s + 3) = slot_work_left E + 2"
      using left_upd [of E' E k] k by (simp add: weight_def)
    ultimately show ?thesis
      using True by (simp add: todo_def)
  qed
qed

lemma drain_one_todo:
  assumes "engine_inv E" and "\<forall>s \<in> set (slots E). aff_ok s"
  shows "todo (snd (drain_one t E)) < todo E \<or> slots (snd (drain_one t E)) = slots E \<and> e_wm (snd (drain_one t E)) = e_wm E"
  using assms
proof (induction t E rule: drain_one.induct)
  case (1 t E)
  show ?case
  proof (cases "try_pop (ready_queue_for t E)")
    case None
    then show ?thesis
      by (subst (1 2 3) drain_one.simps) simp
  next
    case (Some kq)
    obtain k q where kq: "kq = (k, q)"
      by fastforce
    obtain cont E1 where E1: "dispatch_one t k (set_queue t q E) = (Inr cont, E1)" "engine_inv E1"
        "map affinities (slots E1) = map affinities (slots E)" "map group_size (slots E1) = map group_size (slots E)"
      using dispatch_pop_inv [OF "1.prems"(1) Some [unfolded kq] "1.prems"(2)] by blast
    note td = dispatch_pop_todo [OF "1.prems"(1) Some [unfolded kq] E1(1)]
    have step: "drain_one t E = (if cont then drain_one t E1 else (Inr (), E1))"
      using Some kq E1(1) by (subst drain_one.simps) simp
    show ?thesis
    proof (cases cont)
      case True
      have aff1: "\<forall>s \<in> set (slots E1). aff_ok s"
        by (rule aff_ok_maps [OF E1(3,4) "1.prems"(2)])
      have "todo (snd (drain_one t E1)) \<le> todo E1"
        using "1.IH" [OF Some kq [symmetric] E1(1) [symmetric] refl True E1(2) aff1]
        by (auto simp: todo_def slot_work_left_def)
      then show ?thesis
        using td True step by simp
    next
      case False
      then show ?thesis
        using td step by simp
    qed
  qed
qed


lemma worker_done_left: "slot_work_left (snd (worker_done k E)) = slot_work_left E" "e_wm (snd (worker_done k E)) = e_wm E"
proof -
  show "e_wm (snd (worker_done k E)) = e_wm E"
    by (simp add: worker_done_def Let_def split: sum.split)
  have "slot_work_left (upd_slot k (\<lambda>s. s\<lparr>sub_complete_count := n\<rparr>) E) = slot_work_left E" for n
    by (rule left_upd_same [where k = "nat k" and s' = "(slots E ! nat k)\<lparr>sub_complete_count := n\<rparr>"]) simp_all
  then show "slot_work_left (snd (worker_done k E)) = slot_work_left E"
    by (simp add: worker_done_def Let_def split: sum.split)
qed

lemma worker_loop_todo:
  assumes i: "i < length (threads_of t (e_wm E))" and r: "worker_loop child t i E = (Some (Inr ()), E')"
  shows "todo E' < todo E"
proof -
  let ?w = "threads_of t (e_wm E) ! i"
  obtain d ds s res mb where q: "wt_queue ?w = d # ds" and s: "sched_slot_state (wd_task_slot d) E = Inr s"
    and p: "dispatch_process child s (wd_group_index d) (wt_mailbox ?w) = (Some res, mb)" "res \<noteq> Inl UndefinedBehaviour"
    using r by (auto simp: worker_loop_def Let_def split: list.splits sum.splits prod.splits option.splits if_splits)
  define m1 where "m1 = (case res of Inl e \<Rightarrow> report_error e (e_wm E) | Inr _ \<Rightarrow> e_wm E)"
  define m2 where "m2 = set_threads t ((threads_of t m1)[i := ?w\<lparr>wt_mailbox := mb, wt_queue := ds, wt_idle := True\<rparr>]) m1"
  have th: "threads_of t' m1 = threads_of t' (e_wm E)" for t'
    by (simp add: m1_def split: sum.split)
  have "E' = snd (worker_done (wd_task_slot d) (E\<lparr>e_wm := m2\<rparr>))"
    using r q s p by (simp add: worker_loop_def Let_def m1_def m2_def split: prod.splits)
  then have E': "slot_work_left E' = slot_work_left E" "e_wm E' = m2"
    by (simp_all add: worker_done_left)
  have "inflight m2 + mset (d # ds) = inflight m1 + mset ds"
    unfolding m2_def using inflight_set [of i t m1 "?w\<lparr>wt_mailbox := mb, wt_queue := ds, wt_idle := True\<rparr>"] i q th by simp
  moreover have "inflight m1 = inflight (e_wm E)"
    by (rule inflight_cong) (rule th)
  ultimately have "inflight (e_wm E) = add_mset d (inflight m2)"
    by simp
  then show ?thesis
    using E' by (simp add: todo_def)
qed

text \<open>A step of the scheduler or a worker that does something.\<close>

inductive work_step :: "Engine \<Rightarrow> Engine \<Rightarrow> bool" where
  complete: "e_completion E \<noteq> [] \<Longrightarrow> sched_complete_one E = (b, E') \<Longrightarrow> work_step E E'"
| dispatch: "dispatch_ready E = (u, E') \<Longrightarrow> slots E' \<noteq> slots E \<Longrightarrow> work_step E E'"
| work: "i < length (threads_of t (e_wm E)) \<Longrightarrow> worker_loop child t i E = (Some (Inr ()), E') \<Longrightarrow> work_step E E'"

lemma work_step_engine: "work_step E E' \<Longrightarrow> engine_step E E'"
  by (auto elim!: work_step.cases intro: engine_step.intros)

lemma work_step_todo:
  assumes "work_step E E'" and ok: "engine_ok E"
  shows "todo E' < todo E"
proof -
  have inv: "engine_inv E" and aff: "\<forall>s \<in> set (slots E). aff_ok s"
    using ok by (simp_all add: engine_ok_def)
  from assms(1) show ?thesis
  proof cases
    case (complete b)
    then show ?thesis
      using complete_one_todo [OF inv] by (cases "e_completion E") auto
  next
    case (dispatch u)
    obtain E1 where E1: "drain_one NEXT_LEVEL E = (Inr (), E1)" "engine_inv E1" "\<forall>s \<in> set (slots E1). aff_ok s"
      using drain_one_inv [OF inv aff] by blast
    have E': "E' = snd (drain_one SUB E1)"
      using dispatch E1(1) by (simp add: dispatch_ready_def)
    have "todo E1 < todo E \<or> slots E1 = slots E \<and> e_wm E1 = e_wm E"
      using drain_one_todo [OF inv aff, of NEXT_LEVEL] E1(1) by simp
    moreover have "todo E' < todo E1 \<or> slots E' = slots E1 \<and> e_wm E' = e_wm E1"
      using drain_one_todo [OF E1(2,3), of SUB] E' by simp
    moreover have "slots X = slots Y \<Longrightarrow> e_wm X = e_wm Y \<Longrightarrow> todo X = todo Y" for X Y
      by (simp add: todo_def slot_work_left_def)
    ultimately show ?thesis
      using dispatch(2) by (metis less_trans)
  next
    case (work i t child)
    then show ?thesis
      by (rule worker_loop_todo)
  qed
qed

text \<open>
  C11: the engine runs out of work. From a reachable state there is no infinite sequence of completions, dispatches
  and worker iterations: with no new submissions, the scheduler and the workers stop.
\<close>

theorem no_infinite_work:
  "\<nexists>f. reachable (f 0) \<and> (\<forall>i. work_step (f i) (f (Suc i)))"
proof
  assume "\<exists>f. reachable (f 0) \<and> (\<forall>i. work_step (f i) (f (Suc i)))"
  then obtain f where f: "reachable (f 0)" "\<And>i. work_step (f i) (f (Suc i))"
    by blast
  have r: "reachable (f i)" for i
    by (induction i) (auto intro: f(1) reachable.step work_step_engine f(2))
  have "(f (Suc i), f i) \<in> measure todo" for i
    using work_step_todo [OF f(2) reachable_ok [OF r]] by simp
  then show False
    using wf_measure [of todo] unfolding wf_iff_no_infinite_down_chain by blast
qed

end
