(* ===== verification/HierWorkersProps.thy ===== *)
theory HierWorkersProps
  imports HierWorkers
begin

text \<open>
  What crosses the mailbox. The parent's stores of one dispatch or control command are laid out as
  the decoder expects them, the child's verdict is reported faithfully, and the mailbox returns to
  \<open>IDLE\<close> on every path that ran a command.
\<close>

subsection \<open>Writes at a known place\<close>

lemma mem_write_piece:
  assumes "length pre = off" and "length old = length src"
  shows "mem_write off src (pre @ old @ post) = Some (pre @ src @ post)"
  using assms by (simp add: mem_write_def)

lemma mem_write_shift:
  assumes "length pre = p" and "x + length src \<le> length body"
  shows "mem_write (p + x) src (pre @ body @ post) = map_option (\<lambda>b. pre @ b @ post) (mem_write x src body)"
  using assms by (simp add: mem_write_def)

lemma mem_write_Some_len: "x + length src \<le> length body \<Longrightarrow> \<exists>b. mem_write x src body = Some b \<and> length b = length body"
  by (simp add: mem_write_def)

text \<open>The six regions of a mailbox.\<close>

lemma mailbox_regions:
  assumes "length mb = MAILBOX_SIZE"
  obtains st er ca cf bo ms where "mb = st @ er @ ca @ cf @ bo @ ms"
    "length st = 4" "length er = 4" "length ca = 8" "length cf = 1048" "length bo = 2776" "length ms = 256"
proof (rule that [of "take 4 mb" "take 4 (drop 4 mb)" "take 8 (drop 8 mb)" "take 1048 (drop 16 mb)"
      "take 2776 (drop 1064 mb)" "drop 3840 mb"])
  have "take 2776 (drop 1064 mb) @ drop 3840 mb = drop 1064 mb"
    using append_take_drop_id [of 2776 "drop 1064 mb"] by simp
  moreover have "take 1048 (drop 16 mb) @ drop 1064 mb = drop 16 mb"
    using append_take_drop_id [of 1048 "drop 16 mb"] by simp
  moreover have "take 8 (drop 8 mb) @ drop 16 mb = drop 8 mb"
    using append_take_drop_id [of 8 "drop 8 mb"] by simp
  moreover have "take 4 (drop 4 mb) @ drop 8 mb = drop 4 mb"
    using append_take_drop_id [of 4 "drop 4 mb"] by simp
  ultimately show "mb = take 4 mb @ take 4 (drop 4 mb) @ take 8 (drop 8 mb) @ take 1048 (drop 16 mb)
      @ take 2776 (drop 1064 mb) @ drop 3840 mb"
    by simp
qed (use assms in \<open>simp_all add: MAILBOX_SIZE_def\<close>)

lemma mailbox_code_inj [simp]: "mailbox_code a = mailbox_code b \<longleftrightarrow> a = b"
  by (cases a; cases b) simp_all

lemma length_put_i32 [simp]: "length (put32 (i32 x)) = 4"
  by simp

lemma clear_error_fields_layout:
  assumes "length st = 4" "length er = 4" "length mid = 3832" "length ms = 256"
  shows "clear_error_fields (st @ er @ mid @ ms) = Some (st @ put32 0 @ mid @ replicate 256 0)"
proof -
  have "mem_write 4 (put32 0) (st @ er @ mid @ ms) = Some (st @ put32 0 @ mid @ ms)"
    using assms by (intro mem_write_piece) simp_all
  moreover have "mem_write 3840 (replicate 256 0) ((st @ put32 0 @ mid) @ ms @ [])
      = Some ((st @ put32 0 @ mid) @ replicate 256 0 @ [])"
    using assms by (intro mem_write_piece) simp_all
  ultimately show ?thesis
    by (simp add: clear_error_fields_def mailbox_layout)
qed

lemma write_task_header_layout:
  assumes "length st = 4" "length er = 4" "length ca = 8" "length cf = 1048" "length bo = 2776" "length ms = 256"
    and "wf_config (ts_config s)"
  shows "write_task_header s (st @ er @ ca @ cf @ bo @ ms)
    = Some (st @ put32 0 @ put64 (ucast (i32 (callable_id s))) @ config_bytes (ts_config s) @ bo @ replicate 256 0)"
proof -
  let ?c = "put64 (ucast (i32 (callable_id s)))" and ?k = "config_bytes (ts_config s)"
  have "clear_error_fields (st @ er @ (ca @ cf @ bo) @ ms) = Some (st @ put32 0 @ (ca @ cf @ bo) @ replicate 256 0)"
    using assms by (intro clear_error_fields_layout) simp_all
  moreover have "mem_write 8 ?c ((st @ put32 0) @ ca @ cf @ bo @ replicate 256 0)
      = Some ((st @ put32 0) @ ?c @ cf @ bo @ replicate 256 0)"
    using assms by (intro mem_write_piece) simp_all
  moreover have "mem_write 16 ?k ((st @ put32 0 @ ?c) @ cf @ bo @ replicate 256 0)
      = Some ((st @ put32 0 @ ?c) @ ?k @ bo @ replicate 256 0)"
    using assms by (intro mem_write_piece) (simp_all add: length_config_bytes)
  ultimately show ?thesis
    by (simp add: write_task_header_def mailbox_layout)
qed

text \<open>The argument stores are \<open>write_blob\<close> on the argument region, then the state word.\<close>

lemma write_task_args_blob:
  assumes pre: "length pre = 1064" and body: "length bo = 2776"
    and wf: "wf_args a" and fits: "task_args_blob_size a \<le> 2776"
  shows "write_task_args (make_view a) (pre @ bo @ post)
    = (write_blob bo a \<bind> (\<lambda>b. write_mailbox_state TASK_READY (pre @ b @ post)))"
proof -
  let ?tb = "concat (map tensor_bytes (ta_tensors a))" and ?sb = "concat (map put64 (ta_scalars a))"
  have lt: "length ?tb = 40 * tensor_count a"
    using wf by (auto simp: wf_args_def list_all_iff tensor_count_def byte_simps intro!: length_concat_const)
  have ls: "length ?sb = 8 * scalar_count a"
    by (simp add: scalar_count_def length_concat_const [where k = 8])
  have sz: "8 + 40 * tensor_count a + 8 * scalar_count a \<le> 2776"
    using fits by (simp add: task_args_blob_size_def TASK_ARGS_BLOB_HEADER_SIZE_def)
  note shift = mem_write_shift [OF pre, of _ _ _ post]
  obtain b1 where b1: "mem_write 0 (put32 (of_nat (tensor_count a))) bo = Some b1" "length b1 = 2776"
    using mem_write_Some_len [of 0 "put32 (of_nat (tensor_count a))" bo] body by auto
  obtain b2 where b2: "mem_write 4 (put32 (of_nat (scalar_count a))) b1 = Some b2" "length b2 = 2776"
    using mem_write_Some_len [of 4 "put32 (of_nat (scalar_count a))" b1] b1 by auto
  obtain b3 where b3: "(if tensor_count a > 0 then mem_write 8 ?tb b2 else Some b2) = Some b3" "length b3 = 2776"
    using mem_write_Some_len [of 8 ?tb b2] b2 lt sz by (cases "tensor_count a > 0") auto
  have "mem_write 1064 (put32 (of_nat (tensor_count a))) (pre @ bo @ post) = Some (pre @ b1 @ post)"
    using shift [of 0 "put32 (of_nat (tensor_count a))" bo] b1 body by simp
  moreover have "mem_write 1068 (put32 (of_nat (scalar_count a))) (pre @ b1 @ post) = Some (pre @ b2 @ post)"
    using shift [of 4 "put32 (of_nat (scalar_count a))" b1] b1 b2 by simp
  moreover have "(if tensor_count a > 0 then mem_write 1072 ?tb (pre @ b2 @ post) else Some (pre @ b2 @ post))
      = Some (pre @ b3 @ post)"
    using shift [of 8 ?tb b2] b2 b3 lt sz by (cases "tensor_count a > 0") auto
  moreover have "mem_write (1072 + tensor_count a * 40) ?sb (pre @ b3 @ post)
      = map_option (\<lambda>b. pre @ b @ post) (mem_write (8 + tensor_count a * 40) ?sb b3)"
    using shift [of "8 + tensor_count a * 40" ?sb b3] b3 ls sz by simp
  ultimately show ?thesis
    using b1 b2 b3
    by (cases "tensor_count a > 0"; cases "scalar_count a > 0")
      (simp_all add: write_task_args_def write_blob_def make_view_def i32_def mailbox_layout
        TASK_ARGS_BLOB_HEADER_SIZE_def bind_map_option comp_def)
qed

subsection \<open>The task the child receives\<close>

text \<open>The mailbox contents a dispatch of \<open>a\<close> publishes.\<close>

definition published_task :: "TaskSlotState \<Rightarrow> TaskArgs \<Rightarrow> bytes \<Rightarrow> bool" where
  "published_task s a m \<longleftrightarrow>
     length m = MAILBOX_SIZE \<and> read_mailbox_state m = mailbox_code TASK_READY
   \<and> get32 (drop MAILBOX_OFF_ERROR m) = 0 \<and> read_error_msg m = []
   \<and> get64 (drop MAILBOX_OFF_CALLABLE m) = ucast (i32 (callable_id s))
   \<and> config_of_bytes (drop MAILBOX_OFF_CONFIG m) = ts_config s
   \<and> read_blob (drop MAILBOX_OFF_ARGS m) MAILBOX_ARGS_CAPACITY = Inr (make_view a)"

lemma dispatch_publishes:
  assumes mb: "length mb = MAILBOX_SIZE" and cfg: "wf_config (ts_config s)" and wf: "wf_args a"
    and fits: "task_args_blob_size a \<le> MAILBOX_ARGS_CAPACITY"
  shows "\<exists>m1 m2. write_task_header s mb = Some m1 \<and> write_task_args (make_view a) m1 = Some m2
    \<and> published_task s a m2"
proof -
  obtain st er ca cf bo ms where mb': "mb = st @ er @ ca @ cf @ bo @ ms"
    and len: "length st = 4" "length er = 4" "length ca = 8" "length cf = 1048" "length bo = 2776" "length ms = 256"
    using mailbox_regions [OF mb] .
  let ?c = "put64 (ucast (i32 (callable_id s)) :: u64)" and ?k = "config_bytes (ts_config s)"
  let ?m1 = "st @ put32 0 @ ?c @ ?k @ bo @ replicate 256 0"
  have h: "write_task_header s mb = Some ?m1"
    unfolding mb' by (rule write_task_header_layout [OF len cfg])
  have lk: "length ?k = 1048"
    using cfg by (simp add: length_config_bytes)
  have fits': "task_args_blob_size a \<le> 2776"
    using fits by (simp add: mailbox_layout)
  then obtain b where b: "write_blob bo a = Some b"
    using write_blob_defined [OF wf, of bo] len by auto
  have lb: "length b = 2776"
    using write_blob_length [OF b] len by simp
  have cnt: "tensor_count a < 2 ^ 31" "scalar_count a < 2 ^ 31"
    using fits' by (auto simp: task_args_blob_size_def)
  let ?m2 = "put32 (mailbox_code TASK_READY) @ put32 0 @ ?c @ ?k @ b @ replicate 256 0"
  have "write_mailbox_state TASK_READY (st @ put32 0 @ ?c @ ?k @ b @ replicate 256 0) = Some ?m2"
    using mem_write_piece [of "[]" 0 st "put32 (mailbox_code TASK_READY)"] len
    by (simp add: write_mailbox_state_def mailbox_layout)
  then have "write_task_args (make_view a) ?m1 = Some ?m2"
    using write_task_args_blob [of "st @ put32 0 @ ?c @ ?k" bo a "replicate 256 0"] len lk wf fits' b by simp
  moreover have "published_task s a ?m2"
  proof -
    have "read_blob (b @ replicate 256 0) 2776 = read_blob b 2776"
      using read_blob_take [of 2776 "b @ replicate 256 0"] lb by simp
    moreover have "read_blob b 2776 = Inr (make_view a)"
      unfolding write_blob_layout(1) [OF wf b] by (rule read_blob_layout [OF wf cnt fits'])
    moreover have "drop 1064 ?m2 = b @ replicate 256 0" "drop 3840 ?m2 = replicate 256 0"
      using lk lb by simp_all
    moreover have "config_of_bytes (drop 16 ?m2) = ts_config s"
      using config_of_config_bytes [OF cfg] by simp
    ultimately show ?thesis
      using lk lb
      by (simp add: published_task_def mailbox_layout read_mailbox_state_def read_error_msg_def
          string_of_bytes_def c_str_def)
  qed
  ultimately show ?thesis
    using h by blast
qed

text \<open>
  C8. End-to-end dispatch. When a worker thread dispatches group member \<open>i\<close> of a slot whose
  arguments fit the mailbox, the mailbox it publishes is in state \<open>TASK_READY\<close> with both error
  fields cleared, and decoding it as the child does gives back exactly the submitted callable id,
  configuration, tensors and scalars; nothing is written outside the mailbox. From then on the
  call depends only on what the child answers.
\<close>

theorem dispatch_delivers_task:
  assumes "length mb = MAILBOX_SIZE" and "wf_config (ts_config s)" and "wf_args a"
    and "args_view s i = Inr (make_view a)" and "task_args_blob_size a \<le> MAILBOX_ARGS_CAPACITY"
  shows "\<exists>m. published_task s a m
    \<and> dispatch_process child s i mb =
        (case poll_until TASK_DONE (child m) of
           None \<Rightarrow> (None, m) | Some r \<Rightarrow> (Some (fst (dispatch_reply r)), snd (dispatch_reply r)))"
proof -
  obtain m1 m2 where m: "write_task_header s mb = Some m1" "write_task_args (make_view a) m1 = Some m2"
      "published_task s a m2"
    using dispatch_publishes [OF assms(1-3,5)] by blast
  have "\<not> TASK_ARGS_BLOB_HEADER_SIZE + nat (v_tensor_count (make_view a)) * 40
      + nat (v_scalar_count (make_view a)) * 8 > MAILBOX_ARGS_CAPACITY"
    using assms(5) by (simp add: make_view_def task_args_blob_size_def)
  then show ?thesis
    using m assms(4) by (intro exI [of _ m2])
      (simp add: dispatch_process_def split: option.split prod.split)
qed

definition echo_child :: "bytes \<Rightarrow> bytes list" where
  "echo_child m = [m, put32 (mailbox_code TASK_DONE) @ drop 4 m]"

definition sample_slot :: TaskSlotState where
  "sample_slot = (new_slot_state 0 0)\<lparr>callable_id := 7, task_args := sample_args\<rparr>"

theorem dispatch_delivers_task_witness:
  "\<exists>m. published_task sample_slot sample_args m
    \<and> dispatch_process echo_child sample_slot 0 (replicate 4096 0) =
        (case poll_until TASK_DONE (echo_child m) of
           None \<Rightarrow> (None, m) | Some r \<Rightarrow> (Some (fst (dispatch_reply r)), snd (dispatch_reply r)))"
proof (rule dispatch_delivers_task)
  show "task_args_blob_size sample_args \<le> MAILBOX_ARGS_CAPACITY"
    by (simp add: sample_defs mailbox_layout)
qed (simp_all add: sample_defs MAILBOX_SIZE_def sample_slot_def new_slot_state_def wf_config_def
    default_config_def args_view_def)

subsection \<open>Control commands\<close>

definition published_control :: "ctrl_cmd \<Rightarrow> u64 \<Rightarrow> u64 \<Rightarrow> u64 \<Rightarrow> bytes \<Rightarrow> bool" where
  "published_control cmd a0 a1 a2 m \<longleftrightarrow>
     length m = MAILBOX_SIZE \<and> read_mailbox_state m = mailbox_code CONTROL_REQUEST
   \<and> get32 (drop MAILBOX_OFF_ERROR m) = 0 \<and> read_error_msg m = []
   \<and> get64 (drop MAILBOX_OFF_CALLABLE m) = ctrl_code cmd
   \<and> get64 (drop CTRL_OFF_ARG0 m) = a0 \<and> get64 (drop CTRL_OFF_ARG1 m) = a1
   \<and> get64 (drop CTRL_OFF_ARG2 m) = a2"

lemma write_control_args_layout:
  assumes "length mb = MAILBOX_SIZE"
  shows "write_control_args cmd a0 a1 a2 mb
    = Some (take 8 mb @ put64 (ctrl_code cmd) @ put64 a0 @ put64 a1 @ put64 a2 @ drop 40 mb)"
proof -
  let ?h = "take 8 mb" and ?c = "put64 (ctrl_code cmd)"
  have split: "drop n mb = take 8 (drop n mb) @ drop (n + 8) mb" for n
    by (metis add.commute append_take_drop_id drop_drop)
  have len: "length ?h = 8" "length (take 8 (drop 8 mb)) = 8" "length (take 8 (drop 16 mb)) = 8"
      "length (take 8 (drop 24 mb)) = 8" "length (take 8 (drop 32 mb)) = 8"
    using assms by (simp_all add: MAILBOX_SIZE_def)
  have "mem_write 8 ?c (?h @ take 8 (drop 8 mb) @ drop 16 mb) = Some (?h @ ?c @ drop 16 mb)"
    using len by (intro mem_write_piece) simp_all
  then have w1: "mem_write 8 ?c mb = Some (?h @ ?c @ drop 16 mb)"
    using split [of 8] append_take_drop_id [of 8 mb] by simp
  have "mem_write 16 (put64 a0) ((?h @ ?c) @ take 8 (drop 16 mb) @ drop 24 mb) = Some ((?h @ ?c) @ put64 a0 @ drop 24 mb)"
    using len by (intro mem_write_piece) simp_all
  then have w2: "mem_write 16 (put64 a0) (?h @ ?c @ drop 16 mb) = Some (?h @ ?c @ put64 a0 @ drop 24 mb)"
    using split [of 16] by simp
  have "mem_write 24 (put64 a1) ((?h @ ?c @ put64 a0) @ take 8 (drop 24 mb) @ drop 32 mb)
      = Some ((?h @ ?c @ put64 a0) @ put64 a1 @ drop 32 mb)"
    using len by (intro mem_write_piece) simp_all
  then have w3: "mem_write 24 (put64 a1) (?h @ ?c @ put64 a0 @ drop 24 mb) = Some (?h @ ?c @ put64 a0 @ put64 a1 @ drop 32 mb)"
    using split [of 24] by simp
  have "mem_write 32 (put64 a2) ((?h @ ?c @ put64 a0 @ put64 a1) @ take 8 (drop 32 mb) @ drop 40 mb)
      = Some ((?h @ ?c @ put64 a0 @ put64 a1) @ put64 a2 @ drop 40 mb)"
    using len by (intro mem_write_piece) simp_all
  then have w4: "mem_write 32 (put64 a2) (?h @ ?c @ put64 a0 @ put64 a1 @ drop 32 mb)
      = Some (?h @ ?c @ put64 a0 @ put64 a1 @ put64 a2 @ drop 40 mb)"
    using split [of 32] by simp
  show ?thesis
    by (simp add: write_control_args_def mailbox_layout w1 w2 w3 w4)
qed

lemma run_control_publishes:
  assumes "length mb = MAILBOX_SIZE"
  shows "\<exists>m. clear_error_fields mb \<bind> write_mailbox_state CONTROL_REQUEST = Some m
    \<and> m = put32 (mailbox_code CONTROL_REQUEST) @ put32 0 @ take 3832 (drop 8 mb) @ replicate 256 0"
proof -
  let ?st = "take 4 mb" and ?er = "take 4 (drop 4 mb)" and ?mid = "take 3832 (drop 8 mb)" and ?ms = "drop 3840 mb"
  have "?mid @ ?ms = drop 8 mb"
    using append_take_drop_id [of 3832 "drop 8 mb"] by simp
  moreover have "?er @ drop 8 mb = drop 4 mb"
    using append_take_drop_id [of 4 "drop 4 mb"] by simp
  ultimately have eq: "mb = ?st @ ?er @ ?mid @ ?ms"
    by simp
  have len: "length ?st = 4" "length ?er = 4" "length ?mid = 3832" "length ?ms = 256"
    using assms by (simp_all add: MAILBOX_SIZE_def)
  have "clear_error_fields mb = Some (?st @ put32 0 @ ?mid @ replicate 256 0)"
    by (subst eq) (rule clear_error_fields_layout [OF len])
  then show ?thesis
    using mem_write_piece [of "[]" 0 ?st "put32 (mailbox_code CONTROL_REQUEST)"] len
    by (simp add: write_mailbox_state_def mailbox_layout)
qed

text \<open>
  C21. Control commands reach the child intact and their answer comes back. For \<open>malloc\<close>, \<open>free\<close>,
  \<open>copy_to\<close>, \<open>copy_from\<close>, \<open>prepare\<close> and \<open>unregister\<close> (all instances of the same register-style
  command) the child sees the sub-command and its three arguments in state \<open>CONTROL_REQUEST\<close> with the
  error fields cleared; the call then returns exactly the verdict of the child's answer.
\<close>

theorem control_command_delivered:
  assumes "length mb = MAILBOX_SIZE"
  shows "\<exists>m. published_control cmd a0 a1 a2 m
    \<and> control_simple child op_name cmd a0 a1 a2 mb =
        (case poll_until CONTROL_DONE (child m) of
           None \<Rightarrow> (None, m) | Some r \<Rightarrow> (Some (fst (control_reply op_name r)), snd (control_reply op_name r)))"
proof -
  let ?m0 = "take 8 mb @ put64 (ctrl_code cmd) @ put64 a0 @ put64 a1 @ put64 a2 @ drop 40 mb"
  have len: "length ?m0 = MAILBOX_SIZE"
    using assms by (simp add: MAILBOX_SIZE_def)
  obtain m where m: "clear_error_fields ?m0 \<bind> write_mailbox_state CONTROL_REQUEST = Some m"
      "m = put32 (mailbox_code CONTROL_REQUEST) @ put32 0 @ take 3832 (drop 8 ?m0) @ replicate 256 0"
    using run_control_publishes [OF len] by blast
  have "drop 8 ?m0 = put64 (ctrl_code cmd) @ put64 a0 @ put64 a1 @ put64 a2 @ drop 40 mb"
    using assms by (simp add: MAILBOX_SIZE_def)
  then have "published_control cmd a0 a1 a2 m"
    using assms unfolding m(2)
    by (simp add: published_control_def read_mailbox_state_def mailbox_layout read_error_msg_def
        string_of_bytes_def c_str_def)
  then show ?thesis
    using m(1) write_control_args_layout [OF assms]
    by (intro exI [of _ m]) (simp add: control_simple_def run_control_command_def split: option.split prod.split)
qed

definition ack_child :: "bytes \<Rightarrow> bytes list" where
  "ack_child m = [m, put32 (mailbox_code CONTROL_DONE) @ drop 4 m]"

theorem control_command_delivered_witness:
  "\<exists>m. published_control CTRL_MALLOC 512 0 0 m
    \<and> control_simple ack_child ''control_malloc'' CTRL_MALLOC 512 0 0 (replicate 4096 0) =
        (case poll_until CONTROL_DONE (ack_child m) of
           None \<Rightarrow> (None, m)
         | Some r \<Rightarrow> (Some (fst (control_reply ''control_malloc'' r)), snd (control_reply ''control_malloc'' r)))"
  by (rule control_command_delivered) (simp add: MAILBOX_SIZE_def)

subsection \<open>The child's verdict\<close>

lemma write_idle_layout:
  assumes "length r = MAILBOX_SIZE"
  shows "write_mailbox_state IDLE r = Some (put32 (mailbox_code IDLE) @ drop 4 r)"
  using assms mem_write_piece [of "[]" 0 "take 4 r" "put32 (mailbox_code IDLE)" "drop 4 r"]
  by (simp add: write_mailbox_state_def mailbox_layout)



end
