(* ===== verification/HierRaces.thy ===== *)
theory HierRaces
  imports HierProgress HierWorkersProps
begin

text \<open>
  Interleavings inside a submission. \<open>submit_impl\<close> links the new slot into its producers' consumer lists before
  it stores the slot's own counters and state, and only the links are protected by a lock. A completion that runs
  in between sees a consumer that is not pending yet.
\<close>

subsection \<open>The lost wakeup\<close>

lemma release_fanin_finished: "finished (slots E ! k) \<Longrightarrow> finished (slots (snd (release_fanin c E)) ! k)"
proof (cases "sched_slot_state c E")
  case (Inr s)
  assume f: "finished (slots E ! k)"
  obtain j where j: "c = int j" "j < length (slots E)"
    using sched_slot_cases [of c E] Inr by auto
  have "finished (slots (fanin_to j E) ! k)"
    using f by (cases "k = j") (simp_all add: fanin_to_simps j)
  then show ?thesis
    using release_fanin_eq [OF j(2)] j(1) by simp
qed (simp add: release_fanin_def)

lemma try_consume_finished: "finished (slots E ! k) \<Longrightarrow> finished (slots (snd (try_consume c E)) ! k)"
proof (cases "sched_slot_state c E")
  case (Inr s)
  assume f: "finished (slots E ! k)"
  obtain j where j: "c = int j" "j < length (slots E)"
    using sched_slot_cases [of c E] Inr by auto
  have "finished (slots (consume_to j E) ! k)"
    using f by (cases "k = j") (simp_all add: consume_to_simps(1) [OF j(2)] j)
  then show ?thesis
    using consume_eq(1) [OF j(2)] j(1) by simp
qed (simp add: try_consume_def)

lemma for_each_preserves:
  assumes "\<And>x s. P s \<Longrightarrow> P (snd (f x s))" and "P s"
  shows "P (snd (for_each f xs s))"
  using assms(2)
proof (induction xs arbitrary: s)
  case (Cons x xs)
  have "P (snd (f x s))"
    using assms(1) Cons.prems by blast
  then show ?case
    using Cons.IH by (auto split: prod.split sum.split)
qed simp

lemma on_task_complete_finished:
  assumes "k < length (slots E)"
  shows "finished (slots (snd (on_task_complete (int k) E)) ! k)"
proof -
  let ?P = "\<lambda>E. finished (slots E ! k)" and ?E = "upd_slot (int k) (\<lambda>s. s\<lparr>ts_state := COMPLETED\<rparr>) E"
  have 0: "?P ?E"
    using assms by (simp add: finished_def)
  obtain r1 E1 where 1: "for_each release_fanin (fanout_consumers (slots E ! k)) ?E = (r1, E1)"
    by fastforce
  have p1: "?P E1"
    using for_each_preserves [of ?P release_fanin, OF release_fanin_finished 0] 1 by (metis snd_conv)
  obtain r2 E2 where 2: "try_consume (int k) E1 = (r2, E2)"
    by fastforce
  have p2: "?P E2"
    using try_consume_finished [OF p1, of "int k"] 2 by simp
  have "?P (snd (for_each try_consume xs E2))" for xs
    by (rule for_each_preserves [of ?P try_consume, OF try_consume_finished p2])
  then show ?thesis
    using slot_state_valid(2) [OF assms] 1 2 p1 p2 by (simp add: on_task_complete_def split: sum.split)
qed

text \<open>
  C13: a completion inside a submission loses the wakeup. Let the producer \<open>p\<close> of a new task complete after the
  task was linked to it and before the task's counters and state are stored. The task then ends up pending with
  one fanin outstanding, although its only producer has finished: nothing will ever make it ready.
\<close>

theorem lost_wakeup:
  assumes "reachable E" and "quiet evs"
    and enter: "submit_enter evs wtype cid cfg args affs E = (Some (Inr (slot, [p])), E1)"
    and running: "ts_state (slots E ! nat p) = RUNNING" and compl: "e_completion E = p # ks"
    and wire: "wire_producer slot p (E1, 0) = (Inr (), (E2, live))"
    and complete: "sched_complete_one E2 = (Inr True, E3)"
  shows "let E4 = submit_publish wtype slot live E3; s = slots E4 ! nat slot in
    ts_state s = PENDING \<and> fanin_count s = 1 \<and> fanin_released s = 0 \<and> fanin_producers s = [p]
    \<and> finished (slots E4 ! nat p)"
proof -
  let ?n = "length (slots E)"
  obtain s where s: "slot = int ?n" "building ?n E1" "slots E1 = slots E @ [s]" "fanin_producers s = []"
      "e_completion E1 = e_completion E" "\<forall>q \<in> set [p]. 0 \<le> q \<and> q < int ?n \<and> ts_state (slots E ! nat q) \<noteq> CONSUMED"
    using submit_enter_inv [OF reachable_inv(1) [OF assms(1)] assms(2) enter] by blast
  define k where "k = nat p"
  have k: "p = int k" "k < ?n"
    using s(6) by (auto simp: k_def)
  have st: "ts_state (slots E1 ! k) = RUNNING"
    using running k by (simp add: s(3) nth_append)
  have "wire_producer slot p (E1, 0) = (Inr (), (E1\<lparr>e_ring := (e_ring E1)\<lparr>slot_states := wire ?n k (slots E1)\<rparr>\<rparr>, 1))"
    using wire_producer_eq [OF s(2) k(2), of 0] st s(1) k(1) by simp
  then have w: "E2 = E1\<lparr>e_ring := (e_ring E1)\<lparr>slot_states := wire ?n k (slots E1)\<rparr>\<rparr>" "live = 1"
    using wire by simp_all
  have sl2: "slots E2 = wire ?n k (slots E1)" and c2: "e_completion E2 = p # ks"
    using w(1) s(5) compl by (simp_all add: slots_def)
  have n2: "?n < length (slots E1)" "k < length (slots E2)" "length (slots E2) = Suc ?n"
    using s(3) k(2) by (simp_all add: sl2)
  have E3: "E3 = snd (on_task_complete p (E2\<lparr>e_completion := ks\<rparr>))"
    using complete c2 by (auto simp: sched_complete_one_def split: prod.splits sum.splits)
  have fin: "finished (slots E3 ! k)"
    unfolding E3 k(1) using on_task_complete_finished [of k "E2\<lparr>e_completion := ks\<rparr>"] n2 by simp
  have prods: "map fanin_producers (slots E3) = map fanin_producers (slots E2)"
    unfolding E3 using on_task_complete_untouched [OF untouched_fields(2), of p "E2\<lparr>e_completion := ks\<rparr>"] by simp
  then have n3: "length (slots E3) = Suc ?n"
    using map_eq_imp_length_eq n2(3) by fastforce
  have "fanin_producers (slots E3 ! ?n) = fanin_producers (slots E2 ! ?n)"
    using prods n2(3) n3 by (metis lessI nth_map)
  also have "\<dots> = [p]"
    using wire_nth [OF k(2) n2(1), of ?n] k by (simp add: sl2 s(3,4))
  finally have "fanin_producers (slots E3 ! ?n) = [p]" .
  then show ?thesis
    using n3 fin k s(1) w(2) by (simp add: Let_def submit_publish_def)
qed


text \<open>A run in which this happens: the task of \<open>demo3\<close> is dispatched and its worker reports it done.\<close>

definition done_mailbox :: bytes where
  "done_mailbox = put32 (mailbox_code TASK_DONE) @ put32 0 @ replicate 4088 0"

definition done_child :: "bytes \<Rightarrow> bytes list" where
  "done_child m = [done_mailbox]"

definition demo_running :: Engine where
  "demo_running = snd (dispatch_ready demo3)"

definition demo_reported :: Engine where
  "demo_reported = snd (worker_loop done_child NEXT_LEVEL 0 demo_running)"

lemma done_reply: "fst (dispatch_reply done_mailbox) = Inr ()" "poll_until TASK_DONE (done_child m) = Some done_mailbox"
  by (simp_all add: dispatch_reply_def done_mailbox_def done_child_def Let_def mailbox_layout of_i32_def read_mailbox_state_def
      write_mailbox_state_def mem_write_def split: option.split)

lemma done_process:
  assumes "args_view s i = Inr (make_view a)" and "ts_config s = default_config" and "wf_args a"
    and fits: "task_args_blob_size a \<le> MAILBOX_ARGS_CAPACITY"
  shows "\<exists>mb'. dispatch_process done_child s i (replicate 4096 0) = (Some (Inr ()), mb')"
proof -
  have "length (replicate 4096 (0 :: u8)) = MAILBOX_SIZE" "wf_config (ts_config s)"
    using assms(2) by (simp_all add: MAILBOX_SIZE_def wf_config_def default_config_def)
  from dispatch_publishes [OF this assms(3) fits] obtain m1 m2 where
    m: "write_task_header s (replicate 4096 0) = Some m1" "write_task_args (make_view a) m1 = Some m2"
    by blast
  have "\<not> TASK_ARGS_BLOB_HEADER_SIZE + nat (v_tensor_count (make_view a)) * 40
      + nat (v_scalar_count (make_view a)) * 8 > MAILBOX_ARGS_CAPACITY"
    using fits by (simp add: make_view_def task_args_blob_size_def)
  then show ?thesis
    using m assms(1) done_reply by (auto simp: dispatch_process_def split: prod.split)
qed

lemmas sched_eval = dispatch_ready_def drain_one.simps dispatch_one_def try_pop_def sched_slot_state_def assign_workers_def
  get_affinity_def group_size_def pick_idle_excluding_def idle_workers_def threads_of_def dispatch_to_def set_threads_def
  wt_dispatch_def

lemma demo_running_slots: "map ts_state (slots demo_running) = [COMPLETED, RUNNING]"
  by (simp add: demo_running_def demo3_def demo2_def demo1_def engine_eval sched_eval)


text \<open>The state after the worker's report, with the mailbox the worker is left with.\<close>

lemma demo_reported_eq:
  "\<exists>mb. worker_loop done_child NEXT_LEVEL 0 demo_running = (Some (Inr ()), demo_reported)
    \<and> demo_reported = demo_running\<lparr>e_wm := demo_wm\<lparr>next_level_threads := [new_worker mb]\<rparr>, e_completion := [1]\<rparr>"
proof -
  let ?w = "threads_of NEXT_LEVEL (e_wm demo_running) ! 0"
  let ?a = "(demo_args 65536)\<lparr>ta_tensors := [demo_buffer 65536, demo_buffer 66560]\<rparr>"
  have w: "wt_queue ?w = [\<lparr>wd_task_slot = 1, wd_group_index = 0\<rparr>]" "wt_mailbox ?w = replicate 4096 0"
    "\<And>mb. set_threads NEXT_LEVEL ((threads_of NEXT_LEVEL (e_wm demo_running))[0 := ?w\<lparr>wt_mailbox := mb, wt_queue := [], wt_idle := True\<rparr>])
        (e_wm demo_running) = demo_wm\<lparr>next_level_threads := [new_worker mb]\<rparr>"
    by (simp_all add: demo_running_def demo3_def demo2_def demo1_def engine_eval sched_eval)
  obtain s where s: "sched_slot_state 1 demo_running = Inr s" "args_view s 0 = Inr (make_view ?a)" "ts_config s = default_config"
      "\<not> is_group s" "e_completion demo_running = []"
    by (simp add: demo_running_def demo3_def demo2_def demo1_def engine_eval sched_eval args_view_def)
  have "wf_args ?a" "task_args_blob_size ?a \<le> MAILBOX_ARGS_CAPACITY"
    by (simp_all add: demo_args_def demo_buffer_def sample_defs mailbox_layout)
  from done_process [OF s(2,3) this] obtain mb where mb: "dispatch_process done_child s 0 (replicate 4096 0) = (Some (Inr ()), mb)"
    by blast
  have s': "sched_slot_state 1 (demo_running\<lparr>e_wm := m\<rparr>) = Inr s" for m
    using s(1) by (simp add: sched_slot_state_def)
  have "worker_loop done_child NEXT_LEVEL 0 demo_running
      = (Some (Inr ()), demo_running\<lparr>e_wm := demo_wm\<lparr>next_level_threads := [new_worker mb]\<rparr>, e_completion := [1]\<rparr>)"
    using mb s s' w by (simp add: worker_loop_def worker_done_def Let_def)
  then show ?thesis
    by (intro exI [of _ mb]) (simp add: demo_reported_def)
qed

lemma demo_reported_reachable: "reachable demo_running" "reachable demo_reported"
proof -
  show r: "reachable demo_running"
    unfolding demo_running_def by (rule reachable.step [OF demo_reachable(3) engine_step.dispatch [OF prod.collapse [symmetric]]])
  obtain mb where w: "worker_loop done_child NEXT_LEVEL 0 demo_running = (Some (Inr ()), demo_reported)"
    using demo_reported_eq by blast
  have "0 < length (threads_of NEXT_LEVEL (e_wm demo_running))"
    by (simp add: demo_running_def demo3_def demo2_def demo1_def engine_eval sched_eval)
  from reachable.step [OF r engine_step.work [OF this w]] show "reachable demo_reported" .
qed

theorem lost_wakeup_witness:
  "\<exists>E1 E2 E3. submit_enter [] NEXT_LEVEL 8 default_config [demo_args 66560] [] demo_reported = (Some (Inr (2, [1])), E1)
    \<and> wire_producer 2 1 (E1, 0) = (Inr (), (E2, 1)) \<and> sched_complete_one E2 = (Inr True, E3)
    \<and> ts_state (slots (submit_publish NEXT_LEVEL 2 1 E3) ! 2) = PENDING
    \<and> finished (slots (submit_publish NEXT_LEVEL 2 1 E3) ! 1)"
proof -
  obtain mb where eq: "demo_reported = demo_running\<lparr>e_wm := demo_wm\<lparr>next_level_threads := [new_worker mb]\<rparr>, e_completion := [1]\<rparr>"
    using demo_reported_eq by blast
  have st: "ts_state (slots demo_reported ! nat 1) = RUNNING" "e_completion demo_reported = [1]" "quiet []"
    by (simp_all add: eq demo_running_def demo3_def demo2_def demo1_def engine_eval sched_eval quiet_def)
  obtain E1 E2 E3 where run: "submit_enter [] NEXT_LEVEL 8 default_config [demo_args 66560] [] demo_reported = (Some (Inr (2, [1])), E1)"
      "wire_producer 2 1 (E1, 0) = (Inr (), (E2, 1))" "sched_complete_one E2 = (Inr True, E3)"
    by (simp add: eq demo_running_def demo3_def demo2_def demo1_def engine_eval sched_eval sched_complete_one_def
        on_task_complete_def release_fanin_def try_consume_def on_consumed_def)
  show ?thesis
    using lost_wakeup [OF demo_reported_reachable(2) st(3) run(1) st(1,2) run(2,3)] run by (auto simp: Let_def)
qed

end
