(* ===== verification/L2Types.thy ===== *)
theory L2Types
  imports TaskInterface
begin

text \<open>
  Small types of the device runtime (\<open>src/src/a2a3/runtime/tensormap_and_ringbuffer\<close>): packed task ids
  (\<open>pto_task_id.h\<close>), subtask masks and resource shapes (\<open>pto_submit_types.h\<close>), the constants of
  \<open>pto_constants.h\<close> and \<open>pto_runtime2_types.h\<close>, and the two assertion macros of \<open>common.h\<close>.

  \<open>always_assert\<close> throws an exception derived from \<open>std::runtime_error\<close>; \<open>debug_assert\<close> does so unless the
  build defines \<open>NDEBUG\<close>, so operations that use it take the build as a parameter \<open>dbg\<close>. The location and
  stack trace of the message are left out.
\<close>

definition assert_failed :: "string \<Rightarrow> exn" where
  "assert_failed cond = RuntimeError (''Assertion failed: '' @ cond)"

subsection \<open>Task ids (pto_task_id.h)\<close>

record PTO2TaskId = raw :: u64

definition tid_make :: "u8 \<Rightarrow> u32 \<Rightarrow> PTO2TaskId" where
  "tid_make ring_id local_id = \<lparr>raw = push_bit 32 (ucast ring_id) OR ucast local_id\<rparr>"

definition tid_invalid :: PTO2TaskId where
  "tid_invalid = \<lparr>raw = - 1\<rparr>"

definition tid_ring :: "PTO2TaskId \<Rightarrow> u8" where
  "tid_ring t = ucast (drop_bit 32 (raw t))"

definition tid_local :: "PTO2TaskId \<Rightarrow> u32" where
  "tid_local t = ucast (raw t AND 0xFFFFFFFF)"

definition tid_is_valid :: "PTO2TaskId \<Rightarrow> bool" where
  "tid_is_valid t \<longleftrightarrow> raw t \<noteq> - 1"

subsection \<open>Subtask masks and shapes (pto_submit_types.h)\<close>

definition INVALID_KERNEL_ID :: int where
  "INVALID_KERNEL_ID = - 1"

datatype PTO2SubtaskSlot = SubAIC | SubAIV0 | SubAIV1

fun subtask_bit :: "PTO2SubtaskSlot \<Rightarrow> nat" where
  "subtask_bit SubAIC = 0"
| "subtask_bit SubAIV0 = 1"
| "subtask_bit SubAIV1 = 2"

definition PTO2_SUBTASK_MASK_AIC :: u8 where "PTO2_SUBTASK_MASK_AIC = push_bit 0 1"
definition PTO2_SUBTASK_MASK_AIV0 :: u8 where "PTO2_SUBTASK_MASK_AIV0 = push_bit 1 1"
definition PTO2_SUBTASK_MASK_AIV1 :: u8 where "PTO2_SUBTASK_MASK_AIV1 = push_bit 2 1"
definition PTO2_SUBTASK_FLAG_SYNC_START :: u8 where "PTO2_SUBTASK_FLAG_SYNC_START = push_bit 3 1"

datatype PTO2ResourceShape = ShapeAIC | ShapeAIV | ShapeMIX | ShapeDUMMY

definition subtask_active :: "u8 \<Rightarrow> PTO2SubtaskSlot \<Rightarrow> bool" where
  "subtask_active m slot \<longleftrightarrow> m AND push_bit (subtask_bit slot) 1 \<noteq> 0"

definition core_mask :: "u8 \<Rightarrow> u8" where
  "core_mask m = m AND 7"

definition requires_sync_start :: "u8 \<Rightarrow> bool" where
  "requires_sync_start m \<longleftrightarrow> m AND PTO2_SUBTASK_FLAG_SYNC_START \<noteq> 0"

definition popcount8 :: "u8 \<Rightarrow> nat" where
  "popcount8 m = length (filter (\<lambda>i. bit m i) [0 ..< 8])"

definition to_shape :: "u8 \<Rightarrow> PTO2ResourceShape" where
  "to_shape m =
     (let cmask = core_mask m
      in if cmask = 0 then ShapeDUMMY
         else if popcount8 cmask \<ge> 2 then ShapeMIX
         else if cmask AND PTO2_SUBTASK_MASK_AIC \<noteq> 0 then ShapeAIC
         else ShapeAIV)"

definition set_sync_start :: "u8 \<Rightarrow> u8" where
  "set_sync_start m = m OR PTO2_SUBTASK_FLAG_SYNC_START"

record MixedKernels =
  aic_kernel_id :: int
  aiv0_kernel_id :: int
  aiv1_kernel_id :: int

definition to_active_mask :: "MixedKernels \<Rightarrow> u8" where
  "to_active_mask k =
     (let mask = 0;
          mask = (if aic_kernel_id k \<noteq> INVALID_KERNEL_ID then mask OR PTO2_SUBTASK_MASK_AIC else mask);
          mask = (if aiv0_kernel_id k \<noteq> INVALID_KERNEL_ID then mask OR PTO2_SUBTASK_MASK_AIV0 else mask);
          mask = (if aiv1_kernel_id k \<noteq> INVALID_KERNEL_ID then mask OR PTO2_SUBTASK_MASK_AIV1 else mask)
      in mask)"

subsection \<open>Constants (pto_constants.h, pto_runtime2_types.h)\<close>

definition PTO2_ALIGN_SIZE :: u64 where "PTO2_ALIGN_SIZE = 64"
definition PTO2_PACKED_OUTPUT_ALIGN :: u64 where "PTO2_PACKED_OUTPUT_ALIGN = 1024"

text \<open>The round-up macro is the one of \<open>ring.h\<close>.\<close>

definition PTO2_ALIGN_UP :: "u64 \<Rightarrow> u64 \<Rightarrow> u64" where
  "PTO2_ALIGN_UP x align = (x + align - 1) AND NOT (align - 1)"

definition PTO2_MAX_RING_DEPTH :: nat where "PTO2_MAX_RING_DEPTH = 4"
definition PTO2_FANIN_INLINE_CAP :: nat where "PTO2_FANIN_INLINE_CAP = 64"
definition PTO2_TENSORMAP_CLEANUP_INTERVAL :: int where "PTO2_TENSORMAP_CLEANUP_INTERVAL = 64"
definition PTO2_DEP_POOL_CLEANUP_INTERVAL :: int where "PTO2_DEP_POOL_CLEANUP_INTERVAL = 64"
definition PTO2_TENSORMAP_POOL_SIZE :: nat where "PTO2_TENSORMAP_POOL_SIZE = 65536"
definition PTO2_TENSORMAP_NUM_BUCKETS :: nat where "PTO2_TENSORMAP_NUM_BUCKETS = 4096"

subsection \<open>Facts\<close>

lemma tid_ring_make [simp]: "tid_ring (tid_make r l) = r"
  unfolding tid_ring_def tid_make_def
  by (rule bit_word_eqI) (auto simp: bit_simps dest: bit_imp_le_length)

lemma tid_local_make [simp]: "tid_local (tid_make r l) = l"
proof -
  have m: "(0xFFFFFFFF :: u64) = mask 32"
    by (simp add: mask_eq_exp_minus_1)
  show ?thesis
    unfolding tid_local_def tid_make_def m by (rule bit_word_eqI) (auto simp: bit_simps)
qed

lemma tid_make_valid [simp]: "tid_is_valid (tid_make r l)"
proof -
  have "\<not> bit (raw (tid_make r l)) 63"
    by (auto simp: tid_make_def bit_simps dest: bit_imp_le_length)
  moreover have "bit (- 1 :: u64) 63"
    by simp
  ultimately show ?thesis
    by (metis tid_is_valid_def)
qed

lemma tid_make_inject [simp]: "tid_make r l = tid_make r' l' \<longleftrightarrow> r = r' \<and> l = l'"
  by (metis tid_local_make tid_ring_make)

end
