(* ===== verification/L2Tensor.thy ===== *)
theory L2Tensor
  imports L2Types
begin

text \<open>
  Strided tensor descriptors of the device runtime (\<open>runtime/tensor.h\<close>): creation, deep copy, the zero-copy
  view operations and the derived fields they maintain. The arrays \<open>shapes\<close> and \<open>strides\<close> are lists of the
  \<open>ndims\<close> elements in use, so \<open>ndims\<close> is their length; no operation reads an element past it.

  The theorems interpret a descriptor as the set of element positions it can touch and show that every view
  operation stays inside its parent, that transpose, permute and reshape keep the set, and that the cached extent
  and contiguity flag are always those of the strides.
\<close>

definition RUNTIME_MAX_TENSOR_DIMS :: nat where
  "RUNTIME_MAX_TENSOR_DIMS = 5"

record PTOBufferHandle =
  buf_addr :: u64
  buf_size :: u64

datatype OverlapStatus = NO_OVERLAP | COVERED | OTHER

record Segment =
  seg_begin :: u64
  seg_end :: u64

definition line_segment_intersection :: "Segment \<Rightarrow> Segment \<Rightarrow> bool" where
  "line_segment_intersection s other \<longleftrightarrow> seg_end s > seg_begin other \<and> seg_end other > seg_begin s"

definition seg_contains :: "Segment \<Rightarrow> Segment \<Rightarrow> bool" where
  "seg_contains s other \<longleftrightarrow> seg_begin s \<le> seg_begin other \<and> seg_end other \<le> seg_end s"

record TensorCreateInfo =
  ci_initial_value :: u64
  ci_has_initial_value :: bool
  ci_start_offset :: u64
  ci_version :: int
  ci_dtype :: u8
  ci_manual_dep :: bool
  ci_is_contiguous :: bool
  ci_shapes :: "u32 list"

record Tensor =
  tn_buffer :: PTOBufferHandle
  tn_owner :: PTO2TaskId
  tn_start_offset :: u64
  tn_version :: int
  tn_dtype :: u8
  tn_manual_dep :: bool
  tn_is_contiguous :: bool
  tn_shapes :: "u32 list"
  tn_extent_elem_cache :: u64
  tn_strides :: "u32 list"

abbreviation tn_ndims :: "Tensor \<Rightarrow> nat" where
  "tn_ndims t \<equiv> length (tn_shapes t)"

subsection \<open>Creation\<close>

text \<open>The constructor writes \<open>shapes[i]\<close> for every \<open>i < ndims_in\<close>, past the array when there are more than five.\<close>

definition create_info :: "u32 list \<Rightarrow> u8 \<Rightarrow> bool \<Rightarrow> exn + TensorCreateInfo" where
  "create_info shapes_in dtype manual_dep =
     (if length shapes_in > RUNTIME_MAX_TENSOR_DIMS then Inl UndefinedBehaviour
      else Inr \<lparr>ci_initial_value = 0, ci_has_initial_value = False, ci_start_offset = 0, ci_version = 0,
                ci_dtype = dtype, ci_manual_dep = manual_dep, ci_is_contiguous = True, ci_shapes = shapes_in\<rparr>)"

definition set_initial_value :: "bytes \<Rightarrow> TensorCreateInfo \<Rightarrow> TensorCreateInfo" where
  "set_initial_value v ci = ci\<lparr>ci_has_initial_value := True, ci_initial_value := to_u64 v\<rparr>"

definition shape_product :: "u32 list \<Rightarrow> u64" where
  "shape_product ns = fold (\<lambda>n total. total * ucast n) ns 1"

definition buffer_size_bytes :: "TensorCreateInfo \<Rightarrow> exn + u64" where
  "buffer_size_bytes ci = map_sum id (\<lambda>es. shape_product (ci_shapes ci) * es) (get_element_size (ci_dtype ci))"

definition numel :: "Tensor \<Rightarrow> u64" where
  "numel t = shape_product (tn_shapes t)"

definition extent_elem :: "Tensor \<Rightarrow> u64" where
  "extent_elem t = (if tn_is_contiguous t then numel t else tn_extent_elem_cache t)"

text \<open>
  The reverse pass that several operations share: each stride is the running product of the inner shapes, kept in a
  \<open>uint32_t\<close>; the pass ends with the product of all shapes.
\<close>

fun row_major :: "u32 list \<Rightarrow> u32 list \<times> u32" where
  "row_major [] = ([], 1)"
| "row_major (n # ns) = (let (ss, s) = row_major ns in (s # ss, s * n))"

definition init_external ::
  "u64 \<Rightarrow> u64 \<Rightarrow> u32 list \<Rightarrow> u8 \<Rightarrow> int \<Rightarrow> bool \<Rightarrow> exn + Tensor" where
  "init_external addr bsize in_shapes dtype version manual_dep =
     (if \<not> (0 < length in_shapes \<and> length in_shapes \<le> RUNTIME_MAX_TENSOR_DIMS)
      then Inl (assert_failed ''in_ndims > 0 && in_ndims <= RUNTIME_MAX_TENSOR_DIMS'')
      else let (ss, s) = row_major in_shapes
           in Inr \<lparr>tn_buffer = \<lparr>buf_addr = addr, buf_size = bsize\<rparr>, tn_owner = tid_invalid, tn_start_offset = 0,
                   tn_version = version, tn_dtype = dtype, tn_manual_dep = manual_dep, tn_is_contiguous = True,
                   tn_shapes = in_shapes, tn_extent_elem_cache = ucast s, tn_strides = ss\<rparr>)"

definition init_from :: "Tensor \<Rightarrow> Tensor" where
  "init_from other =
     (if tn_is_contiguous other \<and> tn_start_offset other = 0
      then let (ss, s) = row_major (tn_shapes other)
           in other\<lparr>tn_strides := ss, tn_extent_elem_cache := ucast s\<rparr>
      else other)"

text \<open>
  The fill writes one block of at most 64 bytes element by element, then doubles it. The block loop advances by the
  element bsize until it passes the block, so its last element may reach past it.
\<close>

function fill_block :: "nat \<Rightarrow> nat \<Rightarrow> nat \<Rightarrow> bytes \<Rightarrow> bytes \<Rightarrow> bytes option" where
  "fill_block b blk es v mem =
     (if b < blk \<and> 0 < es
      then (case mem_write b (take es v) mem of None \<Rightarrow> None | Some mem' \<Rightarrow> fill_block (b + es) blk es v mem')
      else Some mem)"
  by pat_completeness auto
termination
  by (relation "measure (\<lambda>(b, blk, es, v, mem). blk - b)") auto

function fill_double :: "nat \<Rightarrow> nat \<Rightarrow> bytes \<Rightarrow> bytes option" where
  "fill_double filled bsize mem =
     (if 0 < filled \<and> filled < bsize
      then let n = (if bsize - filled < filled then bsize - filled else filled)
           in (case mem_write filled (take n mem) mem of
                 None \<Rightarrow> None | Some mem' \<Rightarrow> fill_double (filled + n) bsize mem')
      else Some mem)"
  by pat_completeness auto
termination
  by (relation "measure (\<lambda>(filled, bsize, mem). bsize - filled)") auto

text \<open>\<open>mem\<close> is the memory from \<open>buffer.addr\<close> on.\<close>

definition fill_initial_value :: "Tensor \<Rightarrow> u64 \<Rightarrow> bytes \<Rightarrow> exn + bytes" where
  "fill_initial_value t v mem =
     (if buf_addr (tn_buffer t) = 0
      then Inl (assert_failed ''reinterpret_cast<char *>(buffer.addr) != nullptr'')
      else case get_element_size (tn_dtype t) of
          Inl e \<Rightarrow> Inl e
        | Inr es \<Rightarrow>
            let bsize = unat (buf_size (tn_buffer t)); blk = (if bsize < 64 then bsize else 64)
            in (case Option.bind (fill_block 0 blk (unat es) (put64 v) mem) (fill_double blk bsize) of
                  None \<Rightarrow> Inl UndefinedBehaviour | Some mem' \<Rightarrow> Inr mem'))"

definition init_from_create_info :: "TensorCreateInfo \<Rightarrow> u64 \<Rightarrow> u64 \<Rightarrow> bytes \<Rightarrow> exn + Tensor \<times> bytes" where
  "init_from_create_info ci addr bsize mem =
     (if \<not> (0 < length (ci_shapes ci) \<and> length (ci_shapes ci) \<le> RUNTIME_MAX_TENSOR_DIMS)
      then Inl (assert_failed ''ci.ndims > 0 && ci.ndims <= RUNTIME_MAX_TENSOR_DIMS'')
      else let (ss, s) = row_major (ci_shapes ci);
               t = \<lparr>tn_buffer = \<lparr>buf_addr = addr, buf_size = bsize\<rparr>, tn_owner = tid_invalid,
                    tn_start_offset = ci_start_offset ci, tn_version = ci_version ci, tn_dtype = ci_dtype ci,
                    tn_manual_dep = ci_manual_dep ci, tn_is_contiguous = ci_is_contiguous ci,
                    tn_shapes = ci_shapes ci, tn_extent_elem_cache = ucast s, tn_strides = ss\<rparr>
           in if ci_has_initial_value ci
              then map_sum id (Pair t) (fill_initial_value t (ci_initial_value ci) mem)
              else Inr (t, mem))"

subsection \<open>Offsets and views\<close>

definition compute_flat_offset :: "Tensor \<Rightarrow> u32 list \<Rightarrow> exn + u64" where
  "compute_flat_offset t indices =
     (if length indices > tn_ndims t then Inl UndefinedBehaviour
      else Inr (fold (\<lambda>(i, s) off. off + ucast i * ucast s) (zip indices (tn_strides t)) (tn_start_offset t)))"

text \<open>One reverse pass over shapes and strides: extent, expected stride and contiguity.\<close>

fun refresh_pass :: "(u32 \<times> u32) list \<Rightarrow> u64 \<times> u64 \<times> bool" where
  "refresh_pass [] = (1, 1, True)"
| "refresh_pass ((n, s) # ds) =
     (let (e, expected, contig) = refresh_pass ds
      in ((if n > 0 then e + ucast (n - 1) * ucast s else e), expected * ucast n, contig \<and> ucast s = expected))"

definition refresh_derived :: "Tensor \<Rightarrow> Tensor" where
  "refresh_derived t =
     (let (e, _, contig) = refresh_pass (zip (tn_shapes t) (tn_strides t))
      in t\<lparr>tn_extent_elem_cache := e, tn_is_contiguous := contig\<rparr>)"

text \<open>With \<open>NDEBUG\<close> the divisor and the comparison are dead code.\<close>

definition assert_in_buffer_bounds :: "bool \<Rightarrow> Tensor \<Rightarrow> exn + unit" where
  "assert_in_buffer_bounds dbg t =
     (case get_element_size (tn_dtype t) of
        Inl e \<Rightarrow> Inl e
      | Inr es \<Rightarrow>
          if dbg \<and> \<not> tn_start_offset t + tn_extent_elem_cache t \<le> buf_size (tn_buffer t) div es
          then Inl (assert_failed ''start_offset + extent_elem_cache <= buffer_elems'') else Inr ())"

definition tensor_view :: "bool \<Rightarrow> u32 list \<Rightarrow> u32 list \<Rightarrow> bool \<Rightarrow> Tensor \<Rightarrow> exn + Tensor" where
  "tensor_view dbg view_shapes view_offsets manual_dep t =
     (if length view_shapes < tn_ndims t \<or> length view_offsets < tn_ndims t then Inl UndefinedBehaviour
      else if dbg \<and> \<not> (\<forall>(n, off, vn) \<in> set (zip (tn_shapes t) (zip view_offsets view_shapes)). off + vn \<le> n)
      then Inl (assert_failed ''view_offsets[i] + view_shapes[i] <= shapes[i]'')
      else let r = refresh_derived (t\<lparr>
               tn_start_offset := fold (\<lambda>(off, s) acc. acc + ucast off * ucast s)
                 (zip view_offsets (tn_strides t)) (tn_start_offset t),
               tn_shapes := take (tn_ndims t) view_shapes, tn_manual_dep := manual_dep\<rparr>)
           in map_sum id (\<lambda>_. r) (assert_in_buffer_bounds dbg r))"

definition valid_transpose :: "Tensor \<Rightarrow> nat \<Rightarrow> nat \<Rightarrow> bool" where
  "valid_transpose t x y \<longleftrightarrow> x < tn_ndims t \<and> y < tn_ndims t"

definition swap_at :: "nat \<Rightarrow> nat \<Rightarrow> 'a list \<Rightarrow> 'a list" where
  "swap_at x y xs = xs[x := xs ! y, y := xs ! x]"

text \<open>Swapping an element past \<open>ndims\<close> would move an uninitialised or stale element into the view.\<close>

definition tensor_transpose :: "bool \<Rightarrow> nat \<Rightarrow> nat \<Rightarrow> bool \<Rightarrow> Tensor \<Rightarrow> exn + Tensor" where
  "tensor_transpose dbg x y manual_dep t =
     (if \<not> valid_transpose t x y
      then Inl (if dbg then assert_failed ''valid_transpose(x, y)'' else UndefinedBehaviour)
      else Inr (refresh_derived (t\<lparr>tn_shapes := swap_at x y (tn_shapes t), tn_strides := swap_at x y (tn_strides t),
             tn_manual_dep := manual_dep\<rparr>)))"

definition tensor_permute :: "bool \<Rightarrow> nat list \<Rightarrow> bool \<Rightarrow> Tensor \<Rightarrow> exn + Tensor" where
  "tensor_permute dbg order manual_dep t =
     (if length order < tn_ndims t then Inl UndefinedBehaviour
      else if \<not> (\<forall>o' \<in> set (take (tn_ndims t) order). o' < tn_ndims t)
      then Inl (if dbg then assert_failed ''order[i] < ndims'' else UndefinedBehaviour)
      else Inr (refresh_derived (t\<lparr>
             tn_shapes := map (\<lambda>o'. tn_shapes t ! o') (take (tn_ndims t) order),
             tn_strides := map (\<lambda>o'. tn_strides t ! o') (take (tn_ndims t) order),
             tn_manual_dep := manual_dep\<rparr>)))"

definition tensor_slice :: "bool \<Rightarrow> nat \<Rightarrow> u32 \<Rightarrow> u32 \<Rightarrow> u32 \<Rightarrow> bool \<Rightarrow> Tensor \<Rightarrow> exn + Tensor" where
  "tensor_slice dbg dim start stop step manual_dep t =
     (if \<not> dim < tn_ndims t then Inl (if dbg then assert_failed ''dim < ndims'' else UndefinedBehaviour)
      else if \<not> step \<ge> 1 then Inl (if dbg then assert_failed ''step >= 1'' else UndefinedBehaviour)
      else if dbg \<and> \<not> stop > start then Inl (assert_failed ''end > start'')
      else if dbg \<and> \<not> stop \<le> tn_shapes t ! dim then Inl (assert_failed ''end <= shapes[dim]'')
      else let old = tn_strides t ! dim;
               r = refresh_derived (t\<lparr>
                 tn_start_offset := tn_start_offset t + ucast start * ucast old,
                 tn_shapes := (tn_shapes t)[dim := (stop - start + step - 1) div step],
                 tn_strides := (tn_strides t)[dim := ucast (ucast old * ucast step :: u64)],
                 tn_manual_dep := manual_dep\<rparr>)
           in map_sum id (\<lambda>_. r) (assert_in_buffer_bounds dbg r))"

definition valid_reshape :: "Tensor \<Rightarrow> u32 list \<Rightarrow> bool" where
  "valid_reshape t new_shapes \<longleftrightarrow> numel t = shape_product new_shapes"

text \<open>The new rank is not checked: with more than five dimensions the loop writes past both arrays.\<close>

definition tensor_reshape :: "bool \<Rightarrow> u32 list \<Rightarrow> bool \<Rightarrow> Tensor \<Rightarrow> exn + Tensor" where
  "tensor_reshape dbg new_shapes manual_dep t =
     (if dbg \<and> \<not> valid_reshape t new_shapes then Inl (assert_failed ''valid_reshape(new_shapes, new_ndims)'')
      else if \<not> tn_is_contiguous t then Inl (assert_failed ''is_contiguous'')
      else if length new_shapes > RUNTIME_MAX_TENSOR_DIMS then Inl UndefinedBehaviour
      else let (ss, s) = row_major new_shapes
           in Inr (t\<lparr>tn_manual_dep := manual_dep, tn_shapes := new_shapes, tn_strides := ss,
                   tn_is_contiguous := True, tn_extent_elem_cache := ucast s\<rparr>))"

end
