(* ===== verification/L2TensorProps.thy ===== *)
theory L2TensorProps
  imports L2Tensor "HOL-Library.Multiset"
begin

text \<open>
  Geometry of tensor descriptors. A list of (shape, stride) pairs denotes the set of offsets its indices reach;
  a descriptor denotes the element positions of its buffer that it touches. The well-formedness invariant
  \<open>valid_tensor\<close> says that strides are positive, that the cached fields are those of the strides, and that the view
  lies inside its buffer; the constructor establishes it and every view operation keeps it.
\<close>

declare fill_block.simps [simp del] fill_double.simps [simp del]

subsection \<open>Offsets reached by a list of dimensions\<close>

type_synonym dims = "(nat \<times> nat) list"

fun offs :: "dims \<Rightarrow> nat set" where
  "offs [] = {0}"
| "offs ((n, s) # ds) = (\<Union>c \<in> {..<n}. (\<lambda>r. c * s + r) ` offs ds)"

fun dim_extent :: "dims \<Rightarrow> nat" where
  "dim_extent [] = 1"
| "dim_extent ((n, s) # ds) = (n - 1) * s + dim_extent ds"

fun contig :: "dims \<Rightarrow> bool" where
  "contig [] \<longleftrightarrow> True"
| "contig ((n, s) # ds) \<longleftrightarrow> s = prod_list (map fst ds) \<and> contig ds"

lemma offs_Cons_iff: "x \<in> offs ((n, s) # ds) \<longleftrightarrow> (\<exists>c r. c < n \<and> r \<in> offs ds \<and> x = c * s + r)"
  by auto

lemma dim_extent_pos [simp]: "0 < dim_extent ds"
  by (induction ds rule: dim_extent.induct) auto

lemma offs_bound: "x \<in> offs ds \<Longrightarrow> x < dim_extent ds"
proof (induction ds arbitrary: x rule: offs.induct)
  case (2 n s ds)
  then obtain c r where c: "c < n" "r < dim_extent ds" "x = c * s + r"
    by auto
  then have "c * s \<le> (n - 1) * s"
    by (intro mult_right_mono) auto
  then have "c * s + r < (n - 1) * s + dim_extent ds"
    using c(2) by (rule add_le_less_mono)
  then show ?case
    using c(3) by simp
qed simp

lemma offs_last: "\<forall>d \<in> set ds. 0 < fst d \<Longrightarrow> dim_extent ds - 1 \<in> offs ds"
proof (induction ds rule: offs.induct)
  case (2 n s ds)
  then have "dim_extent ds - 1 \<in> offs ds" "n - 1 < n"
    by auto
  moreover obtain e where "dim_extent ds = Suc e"
    using dim_extent_pos [of ds] by (metis gr0_conv_Suc)
  then have "dim_extent ((n, s) # ds) - 1 = (n - 1) * s + (dim_extent ds - 1)"
    by simp
  ultimately show ?case
    unfolding offs_Cons_iff by blast
qed simp

lemma dim_extent_contig:
  "contig ds \<Longrightarrow> \<forall>d \<in> set ds. 0 < fst d \<Longrightarrow> dim_extent ds = prod_list (map fst ds)"
proof (induction ds rule: contig.induct)
  case (2 n s ds)
  then obtain m where "n = Suc m"
    by (cases n) auto
  then show ?case
    using 2 by simp
qed simp

lemma offs_contig: "contig ds \<Longrightarrow> offs ds = {..< prod_list (map fst ds)}"
proof (induction ds rule: contig.induct)
  case (2 n s ds)
  let ?p = "prod_list (map fst ds)"
  have s: "s = ?p" and o: "offs ds = {..< ?p}"
    using 2 by simp_all
  show ?case
  proof (intro equalityI subsetI)
    fix x assume "x \<in> offs ((n, s) # ds)"
    then obtain c r where x: "c < n" "r < ?p" "x = c * ?p + r"
      unfolding offs_Cons_iff using s o by auto
    then have "x < Suc c * ?p" "Suc c * ?p \<le> n * ?p"
      by (simp_all only: mult_le_mono1 Suc_leI) simp
    then show "x \<in> {..< prod_list (map fst ((n, s) # ds))}"
      by simp
  next
    fix x assume "x \<in> {..< prod_list (map fst ((n, s) # ds))}"
    then have x: "x < n * ?p"
      by simp
    then have "0 < ?p"
      by (cases "?p = 0") auto
    moreover have "x div ?p < n"
      using x by (simp add: less_mult_imp_div_less)
    ultimately show "x \<in> offs ((n, s) # ds)"
      unfolding offs_Cons_iff using s o
      by (intro exI [of _ "x div ?p"] exI [of _ "x mod ?p"]) simp
  qed
qed auto

text \<open>Shifting and shrinking every dimension, reordering, and stepping through one dimension.\<close>

lemma offs_window:
  assumes "length os = length ds" "length vs = length ds" and "\<forall>i < length ds. os ! i + vs ! i \<le> fst (ds ! i)"
  shows "(\<lambda>r. (\<Sum>(off, d) \<leftarrow> zip os ds. off * snd d) + r) ` offs (zip vs (map snd ds)) \<subseteq> offs ds"
  using assms
proof (induction ds arbitrary: os vs)
  case (Cons d ds)
  obtain n s where d: "d = (n, s)"
    by (cases d)
  obtain off os' where os: "os = off # os'"
    using Cons.prems(1) by (cases os) auto
  obtain v vs' where vs: "vs = v # vs'"
    using Cons.prems(2) by (cases vs) auto
  have le: "off + v \<le> n" and rest: "\<forall>i < length ds. os' ! i + vs' ! i \<le> fst (ds ! i)"
    using Cons.prems(3) d os vs by (force dest: spec [of _ 0], force dest: spec [of _ "Suc _"])
  have ih: "(\<lambda>r. (\<Sum>(off, d) \<leftarrow> zip os' ds. off * snd d) + r) ` offs (zip vs' (map snd ds)) \<subseteq> offs ds"
    using Cons os vs rest by simp
  show ?case
  proof
    fix x assume "x \<in> (\<lambda>r. (\<Sum>(off, d) \<leftarrow> zip os (d # ds). off * snd d) + r) ` offs (zip vs (map snd (d # ds)))"
    then obtain c r where "c < v" "r \<in> offs (zip vs' (map snd ds))"
      and x: "x = (\<Sum>(off, d) \<leftarrow> zip os (d # ds). off * snd d) + (c * s + r)"
      using d os vs by auto
    then have "(\<Sum>(off, d) \<leftarrow> zip os' ds. off * snd d) + r \<in> offs ds" "off + c < n"
      using ih le by auto
    moreover have "x = (off + c) * s + ((\<Sum>(off, d) \<leftarrow> zip os' ds. off * snd d) + r)"
      using x d os by (simp add: algebra_simps)
    ultimately show "x \<in> offs (d # ds)"
      unfolding d offs_Cons_iff by blast
  qed
qed simp

lemma offs_swap_head: "offs (a # b # ds) = offs (b # a # ds)"
proof -
  have "offs ((n, s) # (m, t) # ds) \<subseteq> offs ((m, t) # (n, s) # ds)" for n s m t
  proof
    fix x assume "x \<in> offs ((n, s) # (m, t) # ds)"
    then obtain c e r where "c < n" "e < m" "r \<in> offs ds" "x = c * s + (e * t + r)"
      unfolding offs_Cons_iff by blast
    moreover from this have "x = e * t + (c * s + r)"
      by simp
    ultimately show "x \<in> offs ((m, t) # (n, s) # ds)"
      unfolding offs_Cons_iff by blast
  qed
  then show ?thesis
    by (cases a; cases b) (simp add: subset_antisym)
qed

lemma offs_cong_tail: "offs xs = offs ys \<Longrightarrow> offs (d # xs) = offs (d # ys)"
  by (cases d) simp

lemma offs_move: "offs (xs @ d # ys) = offs (d # xs @ ys)"
proof (induction xs)
  case (Cons x xs)
  then have "offs (x # xs @ d # ys) = offs (x # d # xs @ ys)"
    by (rule offs_cong_tail)
  also have "\<dots> = offs (d # x # xs @ ys)"
    by (rule offs_swap_head)
  finally show ?case by simp
qed simp

lemma offs_perm: "mset ds = mset ds' \<Longrightarrow> offs ds = offs ds'"
proof (induction ds arbitrary: ds')
  case (Cons d ds)
  have "d \<in> set ds'"
    using Cons.prems by (metis list.set_intros(1) set_mset_mset)
  then obtain xs ys where ds': "ds' = xs @ d # ys"
    by (auto simp: in_set_conv_decomp)
  then have "offs ds = offs (xs @ ys)"
    using Cons by simp
  then have "offs (d # ds) = offs (d # xs @ ys)"
    by (rule offs_cong_tail)
  then show ?case
    using ds' offs_move by simp
qed simp

lemma dim_extent_move: "dim_extent (xs @ (n, s) # ys) = (n - 1) * s + dim_extent (xs @ ys)"
  by (induction xs rule: dim_extent.induct) auto

lemma dim_extent_perm: "mset ds = mset ds' \<Longrightarrow> dim_extent ds = dim_extent ds'"
proof (induction ds arbitrary: ds')
  case (Cons d ds)
  obtain n s where d: "d = (n, s)"
    by (cases d)
  have "d \<in> set ds'"
    using Cons.prems by (metis list.set_intros(1) set_mset_mset)
  then obtain xs ys where ds': "ds' = xs @ d # ys"
    by (auto simp: in_set_conv_decomp)
  then show ?case
    using Cons.IH [of "xs @ ys"] Cons.prems d dim_extent_move by simp
qed simp

subsection \<open>Machine arithmetic of the passes\<close>

lemma prod_list_pos: "\<forall>n \<in> set ns. 0 < n \<Longrightarrow> 0 < prod_list (ns :: nat list)"
  by (induction ns) auto

lemma prod_list_mono:
  "list_all2 (\<le>) ms ns \<Longrightarrow> prod_list ms \<le> prod_list (ns :: nat list)"
  by (induction rule: list_all2_induct) (auto intro: mult_le_mono)

lemma factor_less: "1 \<le> a \<Longrightarrow> a * b < c \<Longrightarrow> b < (c :: nat)"
  by (metis le_less_trans mult_1 mult_le_mono1)

lemma unat_mult_fits: "unat a * unat b < 2 ^ LENGTH('a) \<Longrightarrow> unat (a * b) = unat a * unat (b :: 'a::len word)"
  by (simp add: unat_word_ariths)

lemma unat_add_fits: "unat a + unat b < 2 ^ LENGTH('a) \<Longrightarrow> unat (a + b) = unat a + unat (b :: 'a::len word)"
  by (simp add: unat_word_ariths)

lemma unat_ucast_u64 [simp]: "unat (ucast (n :: u32) :: u64) = unat n"
proof -
  have "unat n < 2 ^ 64"
    using unsigned_less [of n, where ?'a = nat] by simp
  then show ?thesis
    by (simp add: unsigned_ucast_eq take_bit_nat_eq_self)
qed

lemma unat_u32_mult: "unat (ucast (a :: u32) * ucast (b :: u32) :: u64) = unat a * unat b"
proof -
  have "unat a * unat b < 2 ^ 32 * 2 ^ 32"
    using unsigned_less [of a, where ?'a = nat] unsigned_less [of b, where ?'a = nat]
    by (intro mult_strict_mono) simp_all
  then show ?thesis
    by (subst unat_mult_fits) simp_all
qed

definition strides_of :: "nat list \<Rightarrow> nat list" where
  "strides_of ns = map (\<lambda>i. prod_list (drop (Suc i) ns)) [0 ..< length ns]"

lemma strides_of_Nil [simp]: "strides_of [] = []"
  by (simp add: strides_of_def)

lemma strides_of_Cons [simp]: "strides_of (n # ns) = prod_list ns # strides_of ns"
  by (simp add: strides_of_def upt_conv_Cons map_Suc_upt [symmetric] del: upt_Suc map_Suc_upt)

lemma length_strides_of [simp]: "length (strides_of ns) = length ns"
  by (simp add: strides_of_def)

lemma contig_strides_of: "contig (zip ns (strides_of ns))"
  by (induction ns) auto

lemma contig_strides: "length ss = length ns \<Longrightarrow> contig (zip ns ss) \<longleftrightarrow> ss = strides_of ns"
proof (induction ns arbitrary: ss)
  case (Cons n ns)
  then show ?case
    by (cases ss) auto
qed simp

lemma row_major_nat:
  assumes "\<forall>n \<in> set ns. 0 < n" and "prod_list (map unat ns) < 2 ^ 32"
  shows "map unat (fst (row_major ns)) = strides_of (map unat ns) \<and> unat (snd (row_major ns)) = prod_list (map unat ns)"
  using assms
proof (induction ns)
  case (Cons n ns)
  have "1 \<le> unat n"
    using Cons.prems(1) by (simp add: unat_gt_0 Suc_le_eq word_gt_0)
  then have "prod_list (map unat ns) < 2 ^ 32"
    by (rule factor_less) (use Cons.prems(2) in simp)
  then have ih: "map unat (fst (row_major ns)) = strides_of (map unat ns)"
      "unat (snd (row_major ns)) = prod_list (map unat ns)"
    using Cons by simp_all
  then have "unat (snd (row_major ns) * n) = prod_list (map unat ns) * unat n"
    using Cons.prems(2) by (subst unat_mult_fits) (simp_all add: mult.commute)
  then show ?case
    using ih by (simp add: split_beta Let_def mult.commute)
qed simp

lemma length_row_major [simp]: "length (fst (row_major ns)) = length ns"
  by (induction ns) (auto simp: split_beta Let_def)

lemma shape_product_nat:
  assumes "\<forall>n \<in> set ns. 0 < n" and "prod_list (map unat ns) < 2 ^ 64"
  shows "unat (shape_product ns) = prod_list (map unat ns)"
proof -
  have "unat (fold (\<lambda>n total. total * ucast n) ns a) = unat a * prod_list (map unat ns)"
    if "unat a * prod_list (map unat ns) < 2 ^ 64" for a :: u64
    using assms(1) that
  proof (induction ns arbitrary: a)
    case (Cons n ns)
    have "1 \<le> prod_list (map unat ns)"
      using Cons.prems(1) prod_list_pos [of "map unat ns"] by (simp add: unat_gt_0 word_gt_0 Suc_le_eq)
    then have "unat a * unat n < 2 ^ 64"
      by (rule factor_less) (use Cons.prems(2) in \<open>simp add: ac_simps\<close>)
    then have "unat (a * ucast n) = unat a * unat n"
      by (subst unat_mult_fits) simp_all
    then show ?case
      using Cons by (simp add: mult.assoc)
  qed simp
  from this [of 1] show ?thesis
    using assms(2) by (simp add: shape_product_def)
qed

lemma offset_sum_nat:
  fixes os ss :: "u32 list" and a :: u64
  defines "f \<equiv> \<lambda>(off, s) acc. acc + ucast off * ucast s :: u64"
  assumes "unat a + (\<Sum>(off, s) \<leftarrow> zip os ss. unat off * unat s) < 2 ^ 64"
  shows "unat (fold f (zip os ss) a) = unat a + (\<Sum>(off, s) \<leftarrow> zip os ss. unat off * unat s)"
  using assms(2)
proof (induction os arbitrary: ss a)
  case (Cons off os)
  show ?case
  proof (cases ss)
    case (Cons s ss')
    then have "unat (a + ucast off * ucast s) = unat a + unat off * unat s"
      using Cons.prems by (subst unat_add_fits) (simp_all add: unat_u32_mult)
    then show ?thesis
      using Cons Cons.IH [of "a + ucast off * ucast s" ss'] Cons.prems
      by (simp add: f_def add.assoc)
  qed simp
qed simp

definition nat_dims :: "u32 list \<Rightarrow> u32 list \<Rightarrow> dims" where
  "nat_dims ns ss = zip (map unat ns) (map unat ss)"

lemma nat_dims_simps [simp]:
  "nat_dims [] ss = []" "nat_dims (n # ns) (s # ss) = (unat n, unat s) # nat_dims ns ss"
  by (simp_all add: nat_dims_def)

lemma refresh_pass_nat:
  assumes "length ss = length ns" and "\<forall>n \<in> set ns. 0 < n"
    and "prod_list (map unat ns) < 2 ^ 64" and "dim_extent (nat_dims ns ss) < 2 ^ 64"
  shows "case refresh_pass (zip ns ss) of (e, expected, c) \<Rightarrow>
    unat e = dim_extent (nat_dims ns ss) \<and> unat expected = prod_list (map unat ns) \<and> c = contig (nat_dims ns ss)"
  using assms
proof (induction ns arbitrary: ss)
  case (Cons n ns)
  obtain s ss' where ss: "ss = s # ss'"
    using Cons.prems(1) by (cases ss) auto
  obtain e expected c where pass: "refresh_pass (zip ns ss') = (e, expected, c)"
    by (cases "refresh_pass (zip ns ss')")
  have n: "0 < n" "1 \<le> unat n"
    using Cons.prems(2) by (simp_all add: unat_gt_0 Suc_le_eq word_gt_0)
  have p: "prod_list (map unat ns) < 2 ^ 64"
    by (rule factor_less [OF n(2)]) (use Cons.prems(3) in simp)
  have "dim_extent (nat_dims ns ss') < 2 ^ 64"
    using Cons.prems(4) ss by simp
  then have ih: "unat e = dim_extent (nat_dims ns ss')" "unat expected = prod_list (map unat ns)"
      "c = contig (nat_dims ns ss')"
    using Cons.IH [of ss'] Cons.prems ss p pass by simp_all
  have "unat (n - 1) = unat n - 1"
    using n by (simp add: unat_minus_one word_gt_0)
  then have e': "unat (e + ucast (n - 1) * ucast s) = dim_extent (nat_dims ns ss') + (unat n - 1) * unat s"
    using Cons.prems(4) ss ih(1) by (subst unat_add_fits) (simp_all add: unat_u32_mult)
  have x': "unat (expected * ucast n) = prod_list (map unat ns) * unat n"
    using Cons.prems(3) ih(2) by (subst unat_mult_fits) (simp_all add: mult.commute)
  have "ucast s = expected \<longleftrightarrow> unat s = prod_list (map unat ns)"
    using ih(2) by (metis unat_ucast_u64 word_unat_eq_iff)
  moreover have "map fst (nat_dims ns ss') = map unat ns"
    using Cons.prems(1) ss by (simp add: nat_dims_def)
  ultimately show ?case
    using pass ss n e' x' ih(3) by (auto simp: Let_def)
qed simp

subsection \<open>Well-formed descriptors\<close>

definition tn_dims :: "Tensor \<Rightarrow> dims" where
  "tn_dims t = nat_dims (tn_shapes t) (tn_strides t)"

definition elems :: "Tensor \<Rightarrow> nat set" where
  "elems t = (\<lambda>r. unat (tn_start_offset t) + r) ` offs (tn_dims t)"

definition shape_ok :: "Tensor \<Rightarrow> bool" where
  "shape_ok t \<longleftrightarrow> 0 < tn_ndims t \<and> tn_ndims t \<le> RUNTIME_MAX_TENSOR_DIMS \<and> length (tn_strides t) = tn_ndims t
     \<and> (\<forall>n \<in> set (tn_shapes t). 0 < n) \<and> (\<forall>s \<in> set (tn_strides t). 0 < s)
     \<and> prod_list (map unat (tn_shapes t)) < 2 ^ 64"

definition in_buffer :: "Tensor \<Rightarrow> bool" where
  "in_buffer t \<longleftrightarrow> (case get_element_size (tn_dtype t) of Inl _ \<Rightarrow> False
     | Inr es \<Rightarrow> unat (tn_start_offset t) + dim_extent (tn_dims t) \<le> unat (buf_size (tn_buffer t) div es))"

definition valid_tensor :: "Tensor \<Rightarrow> bool" where
  "valid_tensor t \<longleftrightarrow> shape_ok t \<and> in_buffer t
     \<and> unat (tn_extent_elem_cache t) = dim_extent (tn_dims t) \<and> (tn_is_contiguous t \<longleftrightarrow> contig (tn_dims t))"

lemma tn_dims_pos: "shape_ok t \<Longrightarrow> \<forall>d \<in> set (tn_dims t). 0 < fst d"
  by (auto simp: shape_ok_def tn_dims_def nat_dims_def word_gt_0 unat_gt_0 dest!: set_zip_leftD)

lemma tn_dims_fst: "shape_ok t \<Longrightarrow> map fst (tn_dims t) = map unat (tn_shapes t)"
  by (simp add: shape_ok_def tn_dims_def nat_dims_def)

lemma elems_less:
  assumes "x \<in> elems t"
  shows "x < unat (tn_start_offset t) + dim_extent (tn_dims t)"
  using assms offs_bound by (auto simp: elems_def)

lemma elems_last:
  assumes "shape_ok t"
  shows "unat (tn_start_offset t) + dim_extent (tn_dims t) - 1 \<in> elems t"
proof -
  obtain e where e: "dim_extent (tn_dims t) = Suc e"
    using dim_extent_pos [of "tn_dims t"] by (metis gr0_conv_Suc)
  then have "e \<in> offs (tn_dims t)"
    using offs_last [OF tn_dims_pos [OF assms]] by simp
  then show ?thesis
    using e by (simp add: elems_def)
qed

lemma elems_first:
  assumes "shape_ok t"
  shows "unat (tn_start_offset t) \<in> elems t"
proof -
  have "0 \<in> offs ds" if "\<forall>d \<in> set ds. 0 < fst d" for ds
    using that
  proof (induction ds rule: offs.induct)
    case (2 n s ds)
    then show ?case
      unfolding offs_Cons_iff by (intro exI [of _ 0]) auto
  qed simp
  then show ?thesis
    using tn_dims_pos [OF assms] by (force simp: elems_def)
qed

lemma extent_elem_nat: "valid_tensor t \<Longrightarrow> unat (extent_elem t) = dim_extent (tn_dims t)"
proof -
  assume v: "valid_tensor t"
  show ?thesis
  proof (cases "tn_is_contiguous t")
    case True
    then show ?thesis
      using v shape_product_nat [of "tn_shapes t"] dim_extent_contig [OF _ tn_dims_pos] tn_dims_fst [of t]
      by (simp add: valid_tensor_def shape_ok_def extent_elem_def numel_def)
  next
    case False
    then show ?thesis
      using v by (simp add: valid_tensor_def extent_elem_def)
  qed
qed

lemma valid_shape_ok: "valid_tensor t \<Longrightarrow> shape_ok t"
  by (simp add: valid_tensor_def)

lemma valid_end: "valid_tensor t \<Longrightarrow> unat (tn_start_offset t) + dim_extent (tn_dims t) < 2 ^ 64"
  using unsigned_less [where ?'a = nat and w = "buf_size (tn_buffer t) div _" and ?'b = 64]
  by (auto simp: valid_tensor_def in_buffer_def split: sum.splits intro: le_less_trans)

text \<open>A descriptor whose elements lie inside those of a valid one lies inside the same buffer.\<close>

lemma in_buffer_subset:
  assumes "valid_tensor t" and "shape_ok t'" and "tn_buffer t' = tn_buffer t" "tn_dtype t' = tn_dtype t"
    and "elems t' \<subseteq> elems t"
  shows "in_buffer t'" and "unat (tn_start_offset t') + dim_extent (tn_dims t') < 2 ^ 64"
proof -
  have "unat (tn_start_offset t') + dim_extent (tn_dims t') - 1 < unat (tn_start_offset t) + dim_extent (tn_dims t)"
    using elems_less elems_last [OF assms(2)] assms(5) by blast
  then have le: "unat (tn_start_offset t') + dim_extent (tn_dims t') \<le> unat (tn_start_offset t) + dim_extent (tn_dims t)"
    by linarith
  then show "in_buffer t'"
    using assms(1,3,4) by (auto simp: valid_tensor_def in_buffer_def split: sum.splits)
  show "unat (tn_start_offset t') + dim_extent (tn_dims t') < 2 ^ 64"
    using le valid_end [OF assms(1)] by simp
qed

lemma refresh_frame [simp]:
  "tn_buffer (refresh_derived t) = tn_buffer t" "tn_dtype (refresh_derived t) = tn_dtype t"
  "tn_owner (refresh_derived t) = tn_owner t" "tn_version (refresh_derived t) = tn_version t"
  "tn_manual_dep (refresh_derived t) = tn_manual_dep t" "tn_shapes (refresh_derived t) = tn_shapes t"
  "tn_strides (refresh_derived t) = tn_strides t" "tn_start_offset (refresh_derived t) = tn_start_offset t"
  by (simp_all add: refresh_derived_def split: prod.splits)

lemma geometry_frame:
  assumes "tn_shapes t' = tn_shapes t" "tn_strides t' = tn_strides t" "tn_start_offset t' = tn_start_offset t"
  shows "tn_dims t' = tn_dims t" "elems t' = elems t" "shape_ok t' = shape_ok t"
  using assms by (simp_all add: tn_dims_def elems_def shape_ok_def)

lemma refresh_valid:
  assumes "valid_tensor t" and "shape_ok t'" and "tn_buffer t' = tn_buffer t" "tn_dtype t' = tn_dtype t"
    and "elems t' \<subseteq> elems t"
  shows "valid_tensor (refresh_derived t')" and "elems (refresh_derived t') = elems t'"
proof -
  let ?r = "refresh_derived t'"
  have same: "tn_dims ?r = tn_dims t'" "elems ?r = elems t'" "shape_ok ?r"
    using geometry_frame [of ?r t'] assms(2) by simp_all
  obtain e x c where pass: "refresh_pass (zip (tn_shapes t') (tn_strides t')) = (e, x, c)"
    by (cases "refresh_pass (zip (tn_shapes t') (tn_strides t'))")
  have "unat e = dim_extent (tn_dims t') \<and> c = contig (tn_dims t')"
    using refresh_pass_nat [of "tn_strides t'" "tn_shapes t'"] assms(2) pass
      in_buffer_subset(2) [OF assms] by (simp add: shape_ok_def tn_dims_def)
  moreover have "tn_extent_elem_cache ?r = e" "tn_is_contiguous ?r = c"
    using pass by (simp_all add: refresh_derived_def)
  ultimately show "valid_tensor ?r"
    using same in_buffer_subset(1) [OF assms(1) same(3)] assms(3-5) by (simp add: valid_tensor_def)
  show "elems ?r = elems t'"
    by (rule same(2))
qed

lemma bounds_assert_ok:
  assumes "valid_tensor t"
  shows "assert_in_buffer_bounds dbg t = Inr ()"
proof -
  have "unat (tn_start_offset t + tn_extent_elem_cache t) = unat (tn_start_offset t) + dim_extent (tn_dims t)"
    using assms valid_end [OF assms] by (subst unat_add_fits) (simp_all add: valid_tensor_def)
  then show ?thesis
    using assms
    by (auto simp: assert_in_buffer_bounds_def valid_tensor_def in_buffer_def word_le_nat_alt split: sum.splits)
qed

text \<open>A shifted sub-pattern of a valid descriptor, with its derived fields recomputed, is valid.\<close>

lemma shifted_valid:
  assumes v: "valid_tensor t" and ok: "shape_ok t'" and frame: "tn_buffer t' = tn_buffer t" "tn_dtype t' = tn_dtype t"
    and sub: "(\<lambda>r. a + r) ` offs (tn_dims t') \<subseteq> offs (tn_dims t)"
    and st: "unat (tn_start_offset t) + a < 2 ^ 64 \<Longrightarrow> unat (tn_start_offset t') = unat (tn_start_offset t) + a"
  shows "valid_tensor (refresh_derived t') \<and> elems (refresh_derived t') \<subseteq> elems t
    \<and> assert_in_buffer_bounds dbg (refresh_derived t') = Inr ()"
proof -
  have "0 \<in> offs (tn_dims t')"
    using elems_first [OF ok] by (auto simp: elems_def)
  then have "a + 0 \<in> offs (tn_dims t)"
    by (intro subsetD [OF sub] imageI)
  then have "unat (tn_start_offset t) + a < 2 ^ 64"
    using offs_bound [of "a + 0" "tn_dims t"] valid_end [OF v] by simp
  then have "elems t' \<subseteq> elems t"
    using sub st by (auto simp: elems_def add.assoc)
  then show ?thesis
    using refresh_valid [OF v ok frame] bounds_assert_ok by simp
qed

subsection \<open>View operations\<close>

lemma view_valid:
  assumes v: "valid_tensor t" and len: "length vs = tn_ndims t" "length os = tn_ndims t"
    and win: "\<forall>i < tn_ndims t. 0 < vs ! i \<and> unat (os ! i) + unat (vs ! i) \<le> unat (tn_shapes t ! i)"
  shows "\<exists>r. tensor_view dbg vs os md t = Inr r \<and> valid_tensor r \<and> tn_buffer r = tn_buffer t
    \<and> tn_dtype r = tn_dtype t \<and> tn_shapes r = vs \<and> elems r \<subseteq> elems t"
proof -
  let ?st = "fold (\<lambda>(off, s) acc. acc + ucast off * ucast s) (zip os (tn_strides t)) (tn_start_offset t)"
  let ?sum = "\<Sum>(off, d) \<leftarrow> zip (map unat os) (tn_dims t). off * snd d"
  define t' where "t' = t\<lparr>tn_start_offset := ?st, tn_shapes := vs, tn_manual_dep := md\<rparr>"
  note ok = valid_shape_ok [OF v]
  have l: "length (tn_strides t) = tn_ndims t"
    using ok by (simp add: shape_ok_def)
  have pos: "\<forall>n \<in> set vs. 0 < n"
    using win len by (auto simp: in_set_conv_nth)
  have "list_all2 (\<le>) (map unat vs) (map unat (tn_shapes t))"
    using win len by (auto simp: list_all2_conv_all_nth intro: le_trans [OF le_add2])
  then have "prod_list (map unat vs) \<le> prod_list (map unat (tn_shapes t))"
    by (rule prod_list_mono)
  then have ok': "shape_ok t'"
    using ok pos len by (auto simp: shape_ok_def t'_def)
  have sub: "(\<lambda>r. ?sum + r) ` offs (zip (map unat vs) (map snd (tn_dims t))) \<subseteq> offs (tn_dims t)"
    by (rule offs_window) (use len l win in \<open>simp_all add: tn_dims_def nat_dims_def\<close>)
  have dims: "tn_dims t' = zip (map unat vs) (map snd (tn_dims t))"
    using len l by (simp add: t'_def tn_dims_def nat_dims_def)
  have sum: "?sum = (\<Sum>(off, s) \<leftarrow> zip os (tn_strides t). unat off * unat s)"
    using len l by (auto simp: tn_dims_def nat_dims_def zip_map2 zip_map1 split_beta o_def sum_list_sum_nth)
  have st: "unat ?st = unat (tn_start_offset t) + ?sum" if "unat (tn_start_offset t) + ?sum < 2 ^ 64"
    unfolding sum by (rule offset_sum_nat) (use that sum in simp)
  have t's: "tn_start_offset t' = ?st" "tn_buffer t' = tn_buffer t" "tn_dtype t' = tn_dtype t"
    by (simp_all add: t'_def)
  have r: "valid_tensor (refresh_derived t') \<and> elems (refresh_derived t') \<subseteq> elems t
    \<and> assert_in_buffer_bounds dbg (refresh_derived t') = Inr ()"
    using shifted_valid [OF v ok' t's(2,3) sub [folded dims]] st t's(1) by simp
  have "off + vn \<le> n" if z: "(n, off, vn) \<in> set (zip (tn_shapes t) (zip os vs))" for n off vn
  proof -
    obtain i where "i < tn_ndims t" "n = tn_shapes t ! i" "off = os ! i" "vn = vs ! i"
      using z by (auto simp: in_set_zip)
    then have "unat off + unat vn \<le> unat n"
      using win by simp
    then show ?thesis
      using unsigned_less [of n, where ?'a = nat] by (simp add: word_le_nat_alt unat_add_fits)
  qed
  then have "tensor_view dbg vs os md t = Inr (refresh_derived t')"
    using len r by (auto simp: tensor_view_def t'_def Let_def)
  then show ?thesis
    using r by (simp add: t'_def)
qed

text \<open>Reordering dimensions together with their strides.\<close>

lemma reorder_valid:
  assumes v: "valid_tensor t" and perm: "mset (zip ns ss) = mset (zip (tn_shapes t) (tn_strides t))"
    and len: "length ns = tn_ndims t" "length ss = tn_ndims t"
  shows "let r = refresh_derived (t\<lparr>tn_shapes := ns, tn_strides := ss, tn_manual_dep := md\<rparr>)
    in valid_tensor r \<and> elems r = elems t"
proof -
  let ?t' = "t\<lparr>tn_shapes := ns, tn_strides := ss, tn_manual_dep := md\<rparr>"
  note ok = valid_shape_ok [OF v]
  have l: "length (tn_strides t) = tn_ndims t"
    using ok by (simp add: shape_ok_def)
  have "image_mset fst (mset (zip ns ss)) = image_mset fst (mset (zip (tn_shapes t) (tn_strides t)))"
    "image_mset snd (mset (zip ns ss)) = image_mset snd (mset (zip (tn_shapes t) (tn_strides t)))"
    by (simp_all only: perm)
  then have m: "mset ns = mset (tn_shapes t)" "mset ss = mset (tn_strides t)"
    using len l by (simp_all flip: mset_map)
  then have "set ns = set (tn_shapes t)" "set ss = set (tn_strides t)"
    by (auto dest: mset_eq_setD)
  moreover have "mset (map unat ns) = mset (map unat (tn_shapes t))"
    using m(1) by simp
  then have "prod_list (map unat ns) = prod_list (map unat (tn_shapes t))"
    by (metis prod_mset_prod_list)
  ultimately have ok': "shape_ok ?t'"
    using ok len by (simp add: shape_ok_def)
  have "image_mset (map_prod unat unat) (mset (zip ns ss)) = image_mset (map_prod unat unat) (mset (zip (tn_shapes t) (tn_strides t)))"
    by (simp only: perm)
  then have "mset (tn_dims ?t') = mset (tn_dims t)"
    by (simp add: tn_dims_def nat_dims_def zip_map_map map_prod_def flip: mset_map)
  then have "offs (tn_dims ?t') = offs (tn_dims t)"
    by (rule offs_perm)
  then have "elems ?t' = elems t"
    by (simp add: elems_def)
  then show ?thesis
    using refresh_valid [OF v ok'] by (simp add: Let_def)
qed

lemma mset_swap_at: "x < length xs \<Longrightarrow> y < length xs \<Longrightarrow> mset (swap_at x y xs) = mset xs"
  by (simp add: swap_at_def mset_swap)

lemma zip_swap_at:
  "length xs = length ys \<Longrightarrow> x < length xs \<Longrightarrow> y < length xs \<Longrightarrow> zip (swap_at x y xs) (swap_at x y ys) = swap_at x y (zip xs ys)"
  by (simp add: swap_at_def zip_update flip: update_zip)

lemma mset_permuted: "mset order = mset [0 ..< length xs] \<Longrightarrow> mset (map (\<lambda>i. xs ! i) order) = mset xs"
  by (metis map_nth mset_map)

lemma transpose_valid:
  assumes v: "valid_tensor t" and "x < tn_ndims t" "y < tn_ndims t"
  shows "\<exists>r. tensor_transpose dbg x y md t = Inr r \<and> valid_tensor r \<and> tn_buffer r = tn_buffer t
    \<and> tn_dtype r = tn_dtype t \<and> tn_shapes r = swap_at x y (tn_shapes t) \<and> elems r = elems t"
proof -
  have l: "length (tn_strides t) = tn_ndims t"
    using valid_shape_ok [OF v] by (simp add: shape_ok_def)
  have "mset (zip (swap_at x y (tn_shapes t)) (swap_at x y (tn_strides t))) = mset (zip (tn_shapes t) (tn_strides t))"
    using assms l by (simp add: zip_swap_at mset_swap_at)
  then show ?thesis
    using reorder_valid [OF v, of "swap_at x y (tn_shapes t)" "swap_at x y (tn_strides t)" md] assms l
    by (simp add: tensor_transpose_def valid_transpose_def Let_def swap_at_def)
qed

lemma permute_valid:
  assumes v: "valid_tensor t" and order: "mset order = mset [0 ..< tn_ndims t]"
  shows "\<exists>r. tensor_permute dbg order md t = Inr r \<and> valid_tensor r \<and> tn_buffer r = tn_buffer t
    \<and> tn_dtype r = tn_dtype t \<and> tn_shapes r = map (\<lambda>o'. tn_shapes t ! o') order \<and> elems r = elems t"
proof -
  let ?ns = "map (\<lambda>o'. tn_shapes t ! o') order" and ?ss = "map (\<lambda>o'. tn_strides t ! o') order"
  have l: "length (tn_strides t) = tn_ndims t"
    using valid_shape_ok [OF v] by (simp add: shape_ok_def)
  have lo: "length order = tn_ndims t" and so: "set order = {..< tn_ndims t}"
    using mset_eq_length [OF order] mset_eq_setD [OF order] by (simp_all add: atLeast0LessThan)
  have "zip ?ns ?ss = map (\<lambda>o'. zip (tn_shapes t) (tn_strides t) ! o') order"
    using so l by (auto simp: zip_map_map zip_same_conv_map)
  then have "mset (zip ?ns ?ss) = mset (zip (tn_shapes t) (tn_strides t))"
    using mset_permuted [of order "zip (tn_shapes t) (tn_strides t)"] order l by simp
  then show ?thesis
    using reorder_valid [OF v, of ?ns ?ss md] lo so
    by (simp add: tensor_permute_def Let_def subset_iff)
qed

lemma offs_update:
  assumes "i < length ds"
  shows "offs (ds[i := d]) = offs (d # take i ds @ drop (Suc i) ds)"
  using assms by (simp only: upd_conv_take_nth_drop offs_move)

lemma offs_split: "i < length ds \<Longrightarrow> offs ds = offs (ds ! i # take i ds @ drop (Suc i) ds)"
  using offs_update [of i ds "ds ! i"] by simp

lemma offs_stepped:
  assumes "i < length ds" and "ds ! i = (n, s)" and "\<And>c. c < m \<Longrightarrow> a + c * k < n"
  shows "(\<lambda>r. a * s + r) ` offs (ds[i := (m, s * k)]) \<subseteq> offs ds"
proof
  let ?rest = "take i ds @ drop (Suc i) ds"
  fix x assume "x \<in> (\<lambda>r. a * s + r) ` offs (ds[i := (m, s * k)])"
  then obtain c r where c: "c < m" "r \<in> offs ?rest" "x = a * s + (c * (s * k) + r)"
    unfolding offs_update [OF assms(1)] by auto
  then have "x = (a + c * k) * s + r"
    by (simp add: algebra_simps)
  then have "x \<in> offs ((n, s) # ?rest)"
    unfolding offs_Cons_iff using c assms(3) by blast
  then show "x \<in> offs ds"
    using offs_split [OF assms(1)] assms(2) by simp
qed

lemma ceil_steps:
  assumes "0 < (k :: nat)" and "c < (len + k - 1) div k"
  shows "c * k < len"
proof -
  have "Suc c * k \<le> (len + k - 1) div k * k"
    using assms(2) by (intro mult_le_mono1) simp
  also have "\<dots> \<le> len + k - 1"
    by simp
  finally show ?thesis
    using assms(1) by (simp add: algebra_simps)
qed

lemma slice_len_nat:
  fixes start stop k :: u32
  assumes "start < stop" "1 \<le> k" "unat (stop - start) + unat k - 1 < 2 ^ 32"
  shows "unat ((stop - start + k - 1) div k) = (unat stop - unat start + unat k - 1) div unat k"
proof -
  have d: "unat (stop - start) = unat stop - unat start"
    using assms(1) by (simp add: unat_sub)
  have k: "1 \<le> unat k"
    using assms(2) by (simp add: word_le_nat_alt)
  have "unat (k - 1) = unat k - 1"
    using assms(2) by (simp add: unat_sub)
  then have "unat (stop - start + (k - 1)) = unat (stop - start) + (unat k - 1)"
    using assms(3) k by (subst unat_add_fits) simp_all
  then have "unat (stop - start + k - 1) = unat stop - unat start + unat k - 1"
    using d k by (simp add: algebra_simps)
  then show ?thesis
    by (simp add: unat_div)
qed

lemma slice_reach:
  fixes start stop k n :: u32
  assumes "start < stop" "stop \<le> n" "1 \<le> k" "unat (stop - start) + unat k - 1 < 2 ^ 32"
  defines "m \<equiv> unat ((stop - start + k - 1) div k)"
  shows "0 < m" "m \<le> unat n" "c < m \<Longrightarrow> unat start + c * unat k < unat n"
proof -
  have m: "m = (unat stop - unat start + unat k - 1) div unat k"
    unfolding m_def by (rule slice_len_nat) (use assms in simp_all)
  have un: "unat start < unat stop" "unat stop \<le> unat n" "1 \<le> unat k"
    using assms by (simp_all add: word_less_nat_alt word_le_nat_alt)
  show "0 < m"
    using un unfolding m by (simp add: div_greater_zero_iff)
  have reach: "unat start + c * unat k < unat n" if "c < m" for c
    using ceil_steps [of "unat k" c "unat stop - unat start"] that un m by simp
  then show "c < m \<Longrightarrow> unat start + c * unat k < unat n"
    by blast
  show "m \<le> unat n"
  proof (rule ccontr)
    assume "\<not> ?thesis"
    then have "unat start + unat n * unat k < unat n"
      by (intro reach) simp
    moreover have "unat n * 1 \<le> unat n * unat k"
      using un(3) by (rule mult_le_mono2)
    ultimately show False by simp
  qed
qed

lemma slice_valid:
  assumes v: "valid_tensor t" and d: "d < tn_ndims t" and a: "start < stop" "stop \<le> tn_shapes t ! d" and k: "1 \<le> k"
    and fits: "unat (stop - start) + unat k - 1 < 2 ^ 32" "unat (tn_strides t ! d) * unat k < 2 ^ 32"
  shows "\<exists>r. tensor_slice dbg d start stop k md t = Inr r \<and> valid_tensor r \<and> tn_buffer r = tn_buffer t
    \<and> tn_dtype r = tn_dtype t \<and> tn_shapes r = (tn_shapes t)[d := (stop - start + k - 1) div k] \<and> elems r \<subseteq> elems t"
proof -
  let ?m = "(stop - start + k - 1) div k" and ?old = "tn_strides t ! d"
  let ?s = "ucast (ucast ?old * ucast k :: u64) :: u32" and ?st = "tn_start_offset t + ucast start * ucast ?old"
  define t' where "t' = t\<lparr>tn_start_offset := ?st, tn_shapes := (tn_shapes t)[d := ?m],
    tn_strides := (tn_strides t)[d := ?s], tn_manual_dep := md\<rparr>"
  note ok = valid_shape_ok [OF v]
  have l: "length (tn_strides t) = tn_ndims t" and dd: "d < length (tn_dims t)"
    using ok d by (simp_all add: shape_ok_def tn_dims_def nat_dims_def)
  have nth: "tn_dims t ! d = (unat (tn_shapes t ! d), unat ?old)"
    using d l by (simp add: tn_dims_def nat_dims_def)
  note len = slice_reach [OF a k fits(1)]
  have s: "unat ?s = unat ?old * unat k"
    using fits(2) by (simp add: unsigned_ucast_eq unat_u32_mult take_bit_nat_eq_self)
  have dims: "tn_dims t' = (tn_dims t)[d := (unat ?m, unat ?old * unat k)]"
    using s by (simp add: t'_def tn_dims_def nat_dims_def map_update update_zip)
  have sub: "(\<lambda>r. unat start * unat ?old + r) ` offs (tn_dims t') \<subseteq> offs (tn_dims t)"
    unfolding dims by (rule offs_stepped [OF dd nth len(3)])
  have "list_all2 (\<le>) (map unat ((tn_shapes t)[d := ?m])) (map unat (tn_shapes t))"
    using len(2) by (simp add: list_all2_conv_all_nth nth_list_update_if)
  then have "prod_list (map unat ((tn_shapes t)[d := ?m])) \<le> prod_list (map unat (tn_shapes t))"
    by (rule prod_list_mono)
  moreover have "0 < ?s"
    using s k ok d l by (simp add: shape_ok_def word_gt_0 word_le_nat_alt flip: unat_gt_0)
  moreover have "0 < ?m"
    using len(1) by (simp add: word_gt_0 unat_gt_0)
  ultimately have ok': "shape_ok t'"
    using ok set_update_subset_insert [of "tn_shapes t" d ?m] set_update_subset_insert [of "tn_strides t" d ?s]
    by (auto simp: shape_ok_def t'_def)
  have st: "unat ?st = unat (tn_start_offset t) + unat start * unat ?old"
    if "unat (tn_start_offset t) + unat start * unat ?old < 2 ^ 64"
    using that by (subst unat_add_fits) (simp_all add: unat_u32_mult)
  have t's: "tn_start_offset t' = ?st" "tn_buffer t' = tn_buffer t" "tn_dtype t' = tn_dtype t"
    by (simp_all add: t'_def)
  have r: "valid_tensor (refresh_derived t') \<and> elems (refresh_derived t') \<subseteq> elems t
    \<and> assert_in_buffer_bounds dbg (refresh_derived t') = Inr ()"
    using shifted_valid [OF v ok' t's(2,3) sub] st t's(1) by simp
  have "tensor_slice dbg d start stop k md t = Inr (refresh_derived t')"
    using r d a k by (simp add: tensor_slice_def t'_def Let_def)
  then show ?thesis
    using r by (simp add: t'_def)
qed

lemma row_major_dims:
  assumes "\<forall>n \<in> set ns. 0 < n" and "prod_list (map unat ns) < 2 ^ 32" and "row_major ns = (ss, s)"
  shows "nat_dims ns ss = zip (map unat ns) (strides_of (map unat ns))" "contig (nat_dims ns ss)"
    "length ss = length ns" "dim_extent (nat_dims ns ss) = prod_list (map unat ns)" "unat s = prod_list (map unat ns)"
    "offs (nat_dims ns ss) = {..< prod_list (map unat ns)}"
proof -
  show d: "nat_dims ns ss = zip (map unat ns) (strides_of (map unat ns))" and "unat s = prod_list (map unat ns)"
    using row_major_nat [OF assms(1,2)] assms(3) by (simp_all add: nat_dims_def)
  show l: "length ss = length ns"
    using length_row_major [of ns] assms(3) by simp
  show c: "contig (nat_dims ns ss)"
    unfolding d by (rule contig_strides_of)
  have f: "map fst (nat_dims ns ss) = map unat ns"
    using l by (simp add: nat_dims_def)
  show "offs (nat_dims ns ss) = {..< prod_list (map unat ns)}"
    using offs_contig [OF c] f by simp
  have "\<forall>d \<in> set (nat_dims ns ss). 0 < fst d"
    using assms(1) by (auto simp: nat_dims_def word_gt_0 unat_gt_0 dest!: set_zip_leftD)
  then show "dim_extent (nat_dims ns ss) = prod_list (map unat ns)"
    using dim_extent_contig [OF c] f by simp
qed

lemma strides_of_pos: "\<forall>n \<in> set ns. 0 < n \<Longrightarrow> \<forall>s \<in> set (strides_of ns). 0 < s"
  by (induction ns) (auto intro: prod_list_pos)

text \<open>A contiguous descriptor with row-major strides is valid when its elements fit the buffer.\<close>

lemma row_major_valid:
  assumes "0 < tn_ndims t" "tn_ndims t \<le> RUNTIME_MAX_TENSOR_DIMS" and pos: "\<forall>n \<in> set (tn_shapes t). 0 < n"
    and small: "prod_list (map unat (tn_shapes t)) < 2 ^ 32"
    and rm: "row_major (tn_shapes t) = (tn_strides t, s)" "tn_extent_elem_cache t = ucast s" "tn_is_contiguous t"
    and es: "get_element_size (tn_dtype t) = Inr es"
    and fit: "unat (tn_start_offset t) + prod_list (map unat (tn_shapes t)) \<le> unat (buf_size (tn_buffer t) div es)"
  shows "valid_tensor t"
    and "elems t = {unat (tn_start_offset t) ..< unat (tn_start_offset t) + prod_list (map unat (tn_shapes t))}"
proof -
  note rmd = row_major_dims [OF pos small rm(1)]
  have "map unat (tn_strides t) = strides_of (map unat (tn_shapes t))"
    using row_major_nat [OF pos small] rm(1) by simp
  then have "\<forall>s \<in> set (map unat (tn_strides t)). 0 < s"
    using strides_of_pos [of "map unat (tn_shapes t)"] pos by (simp add: word_gt_0 unat_gt_0)
  then have "shape_ok t"
    using assms(1-3) small rmd(3) by (simp add: shape_ok_def word_gt_0 unat_gt_0)
  then show "valid_tensor t"
    using rmd(2,4,5) rm(2,3) es fit by (simp add: valid_tensor_def in_buffer_def tn_dims_def)
  have "(\<lambda>r. a + r) ` {..< b} = {a ..< a + b}" for a b :: nat
    by (simp add: lessThan_atLeast0 image_add_atLeastLessThan add.commute)
  then show "elems t = {unat (tn_start_offset t) ..< unat (tn_start_offset t) + prod_list (map unat (tn_shapes t))}"
    using rmd(6) by (simp add: elems_def tn_dims_def)
qed

lemma init_external_valid:
  assumes "0 < length ns" "length ns \<le> RUNTIME_MAX_TENSOR_DIMS" and "\<forall>n \<in> set ns. 0 < n"
    and "prod_list (map unat ns) < 2 ^ 32" and "get_element_size dt = Inr es"
    and "prod_list (map unat ns) \<le> unat (bsize div es)"
  shows "\<exists>t. init_external addr bsize ns dt ver md = Inr t \<and> valid_tensor t \<and> elems t = {..< prod_list (map unat ns)}
    \<and> tn_buffer t = \<lparr>buf_addr = addr, buf_size = bsize\<rparr> \<and> tn_shapes t = ns"
proof -
  obtain ss s where rm: "row_major ns = (ss, s)"
    by (cases "row_major ns")
  let ?t = "\<lparr>tn_buffer = \<lparr>buf_addr = addr, buf_size = bsize\<rparr>, tn_owner = tid_invalid, tn_start_offset = 0,
     tn_version = ver, tn_dtype = dt, tn_manual_dep = md, tn_is_contiguous = True,
     tn_shapes = ns, tn_extent_elem_cache = ucast s, tn_strides = ss\<rparr>"
  have "valid_tensor ?t" "elems ?t = {..< prod_list (map unat ns)}"
    using row_major_valid [of ?t s es] assms rm by (simp_all add: lessThan_atLeast0)
  then show ?thesis
    using assms(1,2) rm by (simp add: init_external_def)
qed

lemma reshape_valid:
  assumes v: "valid_tensor t" and c: "tn_is_contiguous t"
    and "0 < length ns" "length ns \<le> RUNTIME_MAX_TENSOR_DIMS" and pos: "\<forall>n \<in> set ns. 0 < n"
    and small: "prod_list (map unat ns) < 2 ^ 32" and same: "prod_list (map unat ns) = prod_list (map unat (tn_shapes t))"
  shows "\<exists>r. tensor_reshape dbg ns md t = Inr r \<and> valid_tensor r \<and> tn_buffer r = tn_buffer t
    \<and> tn_dtype r = tn_dtype t \<and> tn_shapes r = ns \<and> elems r = elems t"
proof -
  note ok = valid_shape_ok [OF v]
  obtain ss s where rm: "row_major ns = (ss, s)"
    by (cases "row_major ns")
  let ?r = "t\<lparr>tn_manual_dep := md, tn_shapes := ns, tn_strides := ss, tn_is_contiguous := True,
    tn_extent_elem_cache := ucast s\<rparr>"
  have ct: "contig (tn_dims t)"
    using v c by (simp add: valid_tensor_def)
  have ext: "dim_extent (tn_dims t) = prod_list (map unat ns)"
    using dim_extent_contig [OF ct tn_dims_pos [OF ok]] tn_dims_fst [OF ok] same by simp
  obtain es where es: "get_element_size (tn_dtype t) = Inr es"
    using v by (auto simp: valid_tensor_def in_buffer_def split: sum.splits)
  have fit: "unat (tn_start_offset t) + prod_list (map unat ns) \<le> unat (buf_size (tn_buffer t) div es)"
    using v es ext by (simp add: valid_tensor_def in_buffer_def)
  have r: "valid_tensor ?r"
    by (rule row_major_valid(1) [of ?r s es]) (use assms rm es fit in simp_all)
  have "offs (tn_dims ?r) = {..< prod_list (map unat ns)}"
    using row_major_dims(6) [OF pos small rm] by (simp add: tn_dims_def)
  then have e: "elems ?r = elems t"
    using offs_contig [OF ct] tn_dims_fst [OF ok] same by (simp add: elems_def)
  have "prod_list (map unat (tn_shapes t)) < 2 ^ 64"
    using ok by (simp add: shape_ok_def)
  then have "valid_reshape t ns"
    using shape_product_nat [of ns] shape_product_nat [of "tn_shapes t"] ok pos same
    by (simp add: valid_reshape_def numel_def shape_ok_def word_unat_eq_iff)
  then show ?thesis
    using r e rm assms(3,4) c by (simp add: tensor_reshape_def)
qed

subsection \<open>Chains of view operations\<close>

datatype view_op =
    View "u32 list" "u32 list"
  | Transpose nat nat
  | Permute "nat list"
  | Slice nat u32 u32 u32
  | Reshape "u32 list"

fun apply_op :: "bool \<Rightarrow> view_op \<times> bool \<Rightarrow> Tensor \<Rightarrow> exn + Tensor" where
  "apply_op dbg (View vs os, md) t = tensor_view dbg vs os md t"
| "apply_op dbg (Transpose x y, md) t = tensor_transpose dbg x y md t"
| "apply_op dbg (Permute order, md) t = tensor_permute dbg order md t"
| "apply_op dbg (Slice d a b k, md) t = tensor_slice dbg d a b k md t"
| "apply_op dbg (Reshape ns, md) t = tensor_reshape dbg ns md t"

text \<open>
  What a caller must ensure. Sums and products are those of the integers: the checks of the code are on \<open>uint32_t\<close>
  and can wrap.
\<close>

fun op_ok :: "view_op \<Rightarrow> Tensor \<Rightarrow> bool" where
  "op_ok (View vs os) t \<longleftrightarrow> length vs = tn_ndims t \<and> length os = tn_ndims t
     \<and> (\<forall>i < tn_ndims t. 0 < vs ! i \<and> unat (os ! i) + unat (vs ! i) \<le> unat (tn_shapes t ! i))"
| "op_ok (Transpose x y) t \<longleftrightarrow> x < tn_ndims t \<and> y < tn_ndims t"
| "op_ok (Permute order) t \<longleftrightarrow> mset order = mset [0 ..< tn_ndims t]"
| "op_ok (Slice d a b k) t \<longleftrightarrow> d < tn_ndims t \<and> a < b \<and> b \<le> tn_shapes t ! d \<and> 1 \<le> k
     \<and> unat (b - a) + unat k - 1 < 2 ^ 32 \<and> unat (tn_strides t ! d) * unat k < 2 ^ 32"
| "op_ok (Reshape ns) t \<longleftrightarrow> tn_is_contiguous t \<and> 0 < length ns \<and> length ns \<le> RUNTIME_MAX_TENSOR_DIMS
     \<and> (\<forall>n \<in> set ns. 0 < n) \<and> prod_list (map unat ns) < 2 ^ 32
     \<and> prod_list (map unat ns) = prod_list (map unat (tn_shapes t))"

fun keeps_elems :: "view_op \<Rightarrow> bool" where
  "keeps_elems (View _ _) = False"
| "keeps_elems (Slice _ _ _ _) = False"
| "keeps_elems _ = True"

fun run_ops :: "bool \<Rightarrow> (view_op \<times> bool) list \<Rightarrow> Tensor \<Rightarrow> exn + Tensor" where
  "run_ops dbg [] t = Inr t"
| "run_ops dbg (op # ops) t = (case apply_op dbg op t of Inl e \<Rightarrow> Inl e | Inr r \<Rightarrow> run_ops dbg ops r)"

fun ops_ok :: "bool \<Rightarrow> (view_op \<times> bool) list \<Rightarrow> Tensor \<Rightarrow> bool" where
  "ops_ok dbg [] t \<longleftrightarrow> True"
| "ops_ok dbg (op # ops) t \<longleftrightarrow> op_ok (fst op) t
     \<and> (case apply_op dbg op t of Inl _ \<Rightarrow> False | Inr r \<Rightarrow> ops_ok dbg ops r)"

lemma apply_op_valid:
  assumes "valid_tensor t" and "op_ok (fst op) t"
  shows "\<exists>r. apply_op dbg op t = Inr r \<and> valid_tensor r \<and> tn_buffer r = tn_buffer t \<and> tn_dtype r = tn_dtype t
    \<and> elems r \<subseteq> elems t \<and> (keeps_elems (fst op) \<longrightarrow> elems r = elems t)"
proof -
  obtain o' md where op: "op = (o', md)"
    by (cases op)
  show ?thesis
  proof (cases o')
    case (View vs os)
    then show ?thesis
      using view_valid [OF assms(1), of vs os dbg md] assms(2) op by auto
  next
    case (Transpose x y)
    then show ?thesis
      using transpose_valid [OF assms(1), of x y dbg md] assms(2) op by auto
  next
    case (Permute order)
    then show ?thesis
      using permute_valid [OF assms(1), of order dbg md] assms(2) op by auto
  next
    case (Slice d a b k)
    then show ?thesis
      using slice_valid [OF assms(1), of d a b k dbg md] assms(2) op by auto
  next
    case (Reshape ns)
    then show ?thesis
      using reshape_valid [OF assms(1), of ns dbg md] assms(2) op by auto
  qed
qed


definition demo_tensor :: Tensor where
  "demo_tensor = \<lparr>tn_buffer = \<lparr>buf_addr = 4096, buf_size = 96\<rparr>, tn_owner = tid_invalid, tn_start_offset = 0,
     tn_version = 0, tn_dtype = 0, tn_manual_dep = False, tn_is_contiguous = True, tn_shapes = [4, 6],
     tn_extent_elem_cache = 24, tn_strides = [6, 1]\<rparr>"

lemma demo_tensor_valid: "valid_tensor demo_tensor"
  by (simp add: demo_tensor_def valid_tensor_def shape_ok_def in_buffer_def tn_dims_def get_element_size_def
      data_type_size_def RUNTIME_MAX_TENSOR_DIMS_def unat_div)


end
