(* ===== verification/L2Overlap.thy ===== *)
theory L2Overlap
  imports L2TensorProps
begin

text \<open>
  Entries of the device tensor map and the overlap check (\<open>PTO2TensorMapEntry\<close> in \<open>runtime/pto_tensormap.h\<close>).
  Links to other entries are indices into the entry pool, \<open>None\<close> for a null pointer.
\<close>

record PTO2TensorMapEntry =
  te_buffer_addr :: u64
  te_next_in_bucket :: "nat option"
  te_producer :: PTO2TaskId
  te_start_offset :: u64
  te_version :: int
  te_dtype :: u8
  te_manual_dep :: bool
  te_is_contiguous :: bool
  te_shapes :: "u32 list"
  te_prev_in_bucket :: "nat option"
  te_next_in_task :: "nat option"
  te_prev_in_task :: "nat option"
  te_bucket_index :: int
  te_extent_elem_cache :: u64
  te_strides :: "u32 list"

text \<open>
  The 64-byte copy also writes the tensor's buffer size over \<open>next_in_bucket\<close>, which \<open>link_entry\<close> then stores; the
  model leaves the link alone.
\<close>

definition copy_from_tensor :: "Tensor \<Rightarrow> PTO2TensorMapEntry \<Rightarrow> PTO2TensorMapEntry" where
  "copy_from_tensor t e =
     (let e = e\<lparr>te_buffer_addr := buf_addr (tn_buffer t), te_producer := tn_owner t,
            te_start_offset := tn_start_offset t, te_version := tn_version t, te_dtype := tn_dtype t,
            te_manual_dep := tn_manual_dep t, te_is_contiguous := tn_is_contiguous t, te_shapes := tn_shapes t\<rparr>
      in if tn_is_contiguous t \<and> tn_start_offset t = 0
         then e\<lparr>te_extent_elem_cache := shape_product (tn_shapes t), te_strides := fst (row_major (tn_shapes t))\<rparr>
         else e\<lparr>te_extent_elem_cache := tn_extent_elem_cache t, te_strides := tn_strides t\<rparr>)"

text \<open>Bytes 16 to 24 of the create info are padding; they land in the producer id.\<close>

definition copy_tensor_create_info ::
  "TensorCreateInfo \<Rightarrow> u64 \<Rightarrow> u64 \<Rightarrow> PTO2TensorMapEntry \<Rightarrow> PTO2TensorMapEntry" where
  "copy_tensor_create_info ci pad2 addr e =
     e\<lparr>te_buffer_addr := addr, te_producer := \<lparr>raw = pad2\<rparr>, te_start_offset := ci_start_offset ci,
       te_version := ci_version ci, te_dtype := ci_dtype ci, te_manual_dep := ci_manual_dep ci,
       te_is_contiguous := ci_is_contiguous ci, te_shapes := ci_shapes ci,
       te_extent_elem_cache := shape_product (ci_shapes ci), te_strides := fst (row_major (ci_shapes ci))\<rparr>"

definition effective_extent_elem :: "PTO2TensorMapEntry \<Rightarrow> u64" where
  "effective_extent_elem e = (if te_is_contiguous e then shape_product (te_shapes e) else te_extent_elem_cache e)"

subsection \<open>The overlap check\<close>

text \<open>Whether each stride divides the one before it; a zero stride is a division by zero.\<close>

fun stride_chain :: "u32 list \<Rightarrow> exn + bool" where
  "stride_chain (a # b # ss) =
     (if b = 0 then Inl UndefinedBehaviour
      else if a mod b \<noteq> 0 then Inr False else stride_chain (b # ss))"
| "stride_chain _ = Inr True"

text \<open>Splitting a start offset along the strides, each quotient cut to 32 bits.\<close>

fun decompose :: "u32 list \<Rightarrow> u64 \<Rightarrow> u32 list \<times> u64" where
  "decompose [] r = ([], r)"
| "decompose (s # ss) r =
     (let (os, r') = decompose ss (r mod ucast s) in (ucast (r div ucast s) # os, r'))"

text \<open>The in-bounds check of one side against the reference shape.\<close>

definition fits_ref :: "u32 list \<Rightarrow> u32 list \<Rightarrow> u32 list \<Rightarrow> bool" where
  "fits_ref refs os ns \<longleftrightarrow> (\<forall>(ref, off, n) \<in> set (zip refs (zip os ns)). ucast off + ucast n \<le> (ucast ref :: u64))"

definition dim_seg :: "u32 \<Rightarrow> u32 \<Rightarrow> Segment" where
  "dim_seg off n = \<lparr>seg_begin = ucast off, seg_end = ucast off + ucast n\<rparr>"

fun overlap_dims :: "(Segment \<times> Segment) list \<Rightarrow> bool \<Rightarrow> OverlapStatus" where
  "overlap_dims [] covered = (if covered then COVERED else OTHER)"
| "overlap_dims ((i, e) # segs) covered =
     (if \<not> line_segment_intersection i e then NO_OVERLAP
      else overlap_dims segs (covered \<and> seg_contains i e))"

text \<open>From the axis-layout test on; \<open>bsize\<close> and \<open>dtype\<close> give the number of elements of the storage.\<close>

definition overlap_boxes ::
  "u64 \<Rightarrow> u8 \<Rightarrow> u32 list \<Rightarrow> u64 \<Rightarrow> u32 list \<Rightarrow> u64 \<Rightarrow> u32 list \<Rightarrow> exn + OverlapStatus" where
  "overlap_boxes bsize dtype strides in_start in_shapes ent_start ent_shapes =
     (if last strides \<noteq> 1 then Inr OTHER
      else case stride_chain strides of
          Inl e \<Rightarrow> Inl e
        | Inr False \<Rightarrow> Inr OTHER
        | Inr True \<Rightarrow>
            (case get_element_size dtype of
               Inl e \<Rightarrow> Inl e
             | Inr es \<Rightarrow>
                 if es = 0 then Inr OTHER
                 else if hd strides = 0 then Inl UndefinedBehaviour
                 else if (bsize div es) mod ucast (hd strides) \<noteq> 0 then Inr OTHER
                 else let refs = ucast ((bsize div es) div ucast (hd strides)) # map2 (div) strides (tl strides);
                          (in_os, in_rem) = decompose strides in_start;
                          (ent_os, ent_rem) = decompose strides ent_start
                      in if in_rem \<noteq> 0 \<or> ent_rem \<noteq> 0 then Inr OTHER
                         else if \<not> fits_ref refs in_os in_shapes \<or> \<not> fits_ref refs ent_os ent_shapes
                         then Inr OTHER
                         else Inr (overlap_dims
                                (zip (map2 dim_seg in_os in_shapes) (map2 dim_seg ent_os ent_shapes)) True)))"

definition check_overlap :: "bool \<Rightarrow> Tensor \<Rightarrow> PTO2TensorMapEntry \<Rightarrow> exn + OverlapStatus" where
  "check_overlap dbg input e =
     (if dbg \<and> buf_addr (tn_buffer input) \<noteq> te_buffer_addr e
      then Inl (assert_failed ''input.buffer.addr == buffer_addr'')
      else if dbg \<and> \<not> tn_version input \<ge> te_version e then Inl (assert_failed ''input.version >= version'')
      else if tn_version input > te_version e then Inr OTHER
      else let in_range = \<lparr>seg_begin = tn_start_offset input, seg_end = tn_start_offset input + extent_elem input\<rparr>;
               ent_range = \<lparr>seg_begin = te_start_offset e, seg_end = te_start_offset e + effective_extent_elem e\<rparr>
           in if \<not> line_segment_intersection in_range ent_range then Inr NO_OVERLAP
              else if tn_dtype input \<noteq> te_dtype e \<or> tn_ndims input \<noteq> length (te_shapes e) \<or> length (te_shapes e) = 0
              then Inr OTHER
              else if tn_strides input \<noteq> te_strides e then Inr OTHER
              else overlap_boxes (buf_size (tn_buffer input)) (te_dtype e) (te_strides e)
                     (tn_start_offset input) (tn_shapes input) (te_start_offset e) (te_shapes e))"

end
