(* ===== verification/L2OverlapProps.thy ===== *)
theory L2OverlapProps
  imports L2Overlap
begin

text \<open>
  Correctness of the overlap check. Two views with the same divisible strides are boxes of coordinates; since inner
  coordinates stay below the ratio of neighbouring strides, an element position determines its coordinates, so the
  positions of two views intersect (or contain one another) exactly when their boxes do, dimension by dimension.
\<close>

subsection \<open>Boxes\<close>

type_synonym box = "(nat \<times> nat) list"

fun pts :: "nat list \<Rightarrow> box \<Rightarrow> nat set" where
  "pts (s # ss) ((a, n) # bs) = {x * s + r | x r. a \<le> x \<and> x < a + n \<and> r \<in> pts ss bs}"
| "pts [] [] = {0}"
| "pts _ _ = {}"

text \<open>The box \<open>bs\<close> for strides \<open>ss\<close> spans positions below \<open>s\<close>.\<close>

fun boxed :: "nat \<Rightarrow> nat list \<Rightarrow> box \<Rightarrow> bool" where
  "boxed s (t # ss) ((a, n) # bs) \<longleftrightarrow> 0 < t \<and> 0 < n \<and> t dvd s \<and> a + n \<le> s div t \<and> boxed t ss bs"
| "boxed s [] [] \<longleftrightarrow> 0 < s"
| "boxed _ _ _ \<longleftrightarrow> False"

definition meets :: "(nat \<times> nat) \<times> (nat \<times> nat) \<Rightarrow> bool" where
  "meets p = (case p of ((a, n), (b, m)) \<Rightarrow> a < b + m \<and> b < a + n)"

definition encloses :: "(nat \<times> nat) \<times> (nat \<times> nat) \<Rightarrow> bool" where
  "encloses p = (case p of ((a, n), (b, m)) \<Rightarrow> a \<le> b \<and> b + m \<le> a + n)"

lemma interval_simps [simp]:
  "meets ((a, n), (b, m)) \<longleftrightarrow> a < b + m \<and> b < a + n"
  "encloses ((a, n), (b, m)) \<longleftrightarrow> a \<le> b \<and> b + m \<le> a + n"
  by (simp_all add: meets_def encloses_def)

lemma pts_Cons_iff:
  "z \<in> pts (s # ss) ((a, n) # bs) \<longleftrightarrow> (\<exists>x r. a \<le> x \<and> x < a + n \<and> r \<in> pts ss bs \<and> z = x * s + r)"
  by auto

declare pts.simps(1) [simp del]

lemma boxed_bound: "boxed s ss bs \<Longrightarrow> r \<in> pts ss bs \<Longrightarrow> r < s"
proof (induction s ss bs arbitrary: r rule: boxed.induct)
  case (1 s t ss a n bs)
  obtain x r' where x: "x < a + n" "r' \<in> pts ss bs" "r = x * t + r'"
    using 1(3) unfolding pts_Cons_iff by blast
  then have "r < Suc x * t" "Suc x \<le> s div t"
    using 1 by auto
  then have "r < s div t * t"
    by (meson less_le_trans mult_le_mono1)
  then show ?case
    using 1(2) by simp
qed auto

lemma pts_nonempty: "boxed s ss bs \<Longrightarrow> pts ss bs \<noteq> {}"
proof (induction s ss bs rule: boxed.induct)
  case (1 s t ss a n bs)
  then obtain r where "r \<in> pts ss bs" "0 < n"
    by auto
  then have "a * t + r \<in> pts (t # ss) ((a, n) # bs)"
    unfolding pts_Cons_iff by (intro exI [of _ a] exI [of _ r]) simp
  then show ?case
    by blast
qed auto

lemma split_position: "r < s \<Longrightarrow> r' < s \<Longrightarrow> x * s + r = y * s + r' \<longleftrightarrow> x = y \<and> r = (r' :: nat)"
  by (metis add.commute add_diff_cancel_right' bits_mod_div_trivial div_mult_self3 mod_less mod_mult_self3 mult.commute
      nat_neq_iff div_less less_nat_zero_code)

lemma pts_meet:
  assumes "boxed s ss bs" "boxed s ss cs"
  shows "pts ss bs \<inter> pts ss cs \<noteq> {} \<longleftrightarrow> list_all meets (zip bs cs)"
  using assms
proof (induction s ss bs arbitrary: cs rule: boxed.induct)
  case (1 s t ss a n bs)
  obtain b m cs' where cs: "cs = (b, m) # cs'"
    using 1(3) by (cases cs) auto
  have bd: "r < t" if "r \<in> pts ss bs \<or> r \<in> pts ss cs'" for r
    using that boxed_bound [of t ss] 1(2,3) cs by auto
  have ih: "pts ss bs \<inter> pts ss cs' \<noteq> {} \<longleftrightarrow> list_all meets (zip bs cs')"
    using 1 cs by simp
  have pos: "0 < n" "0 < m"
    using 1(2,3) cs by simp_all
  have "pts (t # ss) ((a, n) # bs) \<inter> pts (t # ss) ((b, m) # cs') \<noteq> {}
      \<longleftrightarrow> (a < b + m \<and> b < a + n) \<and> pts ss bs \<inter> pts ss cs' \<noteq> {}" (is "?l \<longleftrightarrow> ?r")
  proof
    assume ?l
    then obtain z where "z \<in> pts (t # ss) ((a, n) # bs)" "z \<in> pts (t # ss) ((b, m) # cs')"
      by blast
    then obtain x r y q where "a \<le> x" "x < a + n" "r \<in> pts ss bs" "z = x * t + r"
      and "b \<le> y" "y < b + m" "q \<in> pts ss cs'" "z = y * t + q"
      unfolding pts_Cons_iff by blast
    moreover from this have "x = y \<and> r = q"
      using split_position [of r t q x y] bd by simp
    ultimately show ?r
      by auto
  next
    assume r: ?r
    then obtain q where "q \<in> pts ss bs" "q \<in> pts ss cs'"
      by blast
    then have "max a b * t + q \<in> pts (t # ss) ((a, n) # bs)" "max a b * t + q \<in> pts (t # ss) ((b, m) # cs')"
      unfolding pts_Cons_iff using r pos by (metis max.cobounded1 max.cobounded2 max_less_iff_conj less_add_same_cancel1)+
    then show ?l
      by blast
  qed
  then show ?case
    using ih cs by simp
next
  case (2 s)
  then show ?case
    by (cases cs) auto
qed auto

lemma pts_enclose:
  assumes "boxed s ss bs" "boxed s ss cs"
  shows "pts ss cs \<subseteq> pts ss bs \<longleftrightarrow> list_all encloses (zip bs cs)"
  using assms
proof (induction s ss bs arbitrary: cs rule: boxed.induct)
  case (1 s t ss a n bs)
  obtain b m cs' where cs: "cs = (b, m) # cs'"
    using 1(3) by (cases cs) auto
  have bd: "r < t" if "r \<in> pts ss bs \<or> r \<in> pts ss cs'" for r
    using that boxed_bound [of t ss] 1(2,3) cs by auto
  have ih: "pts ss cs' \<subseteq> pts ss bs \<longleftrightarrow> list_all encloses (zip bs cs')"
    using 1 cs by simp
  have pos: "0 < m"
    using 1(3) cs by simp
  obtain q0 where q0: "q0 \<in> pts ss cs'"
    using pts_nonempty [of t ss cs'] 1(3) cs by auto
  have "pts (t # ss) ((b, m) # cs') \<subseteq> pts (t # ss) ((a, n) # bs)
      \<longleftrightarrow> (a \<le> b \<and> b + m \<le> a + n) \<and> pts ss cs' \<subseteq> pts ss bs" (is "?l \<longleftrightarrow> ?r")
  proof
    assume l: ?l
    have in_box: "a \<le> y \<and> y < a + n \<and> q \<in> pts ss bs" if "b \<le> y" "y < b + m" "q \<in> pts ss cs'" for y q
    proof -
      have "y * t + q \<in> pts (t # ss) ((b, m) # cs')"
        unfolding pts_Cons_iff using that by blast
      then have "y * t + q \<in> pts (t # ss) ((a, n) # bs)"
        using l by blast
      then obtain x r where "a \<le> x" "x < a + n" "r \<in> pts ss bs" "y * t + q = x * t + r"
        unfolding pts_Cons_iff by blast
      then show ?thesis
        using split_position [of q t r y x] bd that by simp
    qed
    then have "a \<le> b" "b + m - 1 < a + n"
      using in_box [of b q0] in_box [of "b + m - 1" q0] q0 pos by auto
    then show ?r
      using in_box [of b] pos by auto
  next
    assume r: ?r
    show ?l
    proof
      fix z assume "z \<in> pts (t # ss) ((b, m) # cs')"
      then obtain y q where "b \<le> y" "y < b + m" "q \<in> pts ss cs'" "z = y * t + q"
        unfolding pts_Cons_iff by blast
      moreover from this have "a \<le> y" "y < a + n" "q \<in> pts ss bs"
        using r by auto
      ultimately show "z \<in> pts (t # ss) ((a, n) # bs)"
        unfolding pts_Cons_iff by blast
    qed
  qed
  then show ?case
    using ih cs by simp
next
  case (2 s)
  then show ?case
    by (cases cs) auto
qed auto

subsection \<open>Views as boxes\<close>

fun origin :: "nat list \<Rightarrow> nat list \<Rightarrow> nat" where
  "origin (s # ss) (a # as) = a * s + origin ss as"
| "origin _ _ = 0"

lemma offs_pts:
  "length ns = length ss \<Longrightarrow> length as = length ss \<Longrightarrow>
    (\<lambda>r. origin ss as + r) ` offs (zip ns ss) = pts ss (zip as ns)"
proof (induction ss arbitrary: ns as)
  case (Cons s ss)
  obtain n ns' a as' where eq: "ns = n # ns'" "as = a # as'" "length ns' = length ss" "length as' = length ss"
    using Cons.prems by (metis length_Suc_conv)
  have ih: "(\<lambda>r. origin ss as' + r) ` offs (zip ns' ss) = pts ss (zip as' ns')"
    using Cons.IH eq by simp
  show ?case
  proof (intro equalityI subsetI)
    fix z assume "z \<in> (\<lambda>r. origin (s # ss) as + r) ` offs (zip ns (s # ss))"
    then obtain c r where "c < n" "r \<in> offs (zip ns' ss)" "z = origin (s # ss) as + (c * s + r)"
      using eq by auto
    moreover from this have "z = (a + c) * s + (origin ss as' + r)"
      using eq by (simp add: algebra_simps)
    ultimately have "a \<le> a + c \<and> a + c < a + n \<and> origin ss as' + r \<in> pts ss (zip as' ns') \<and> z = (a + c) * s + (origin ss as' + r)"
      using ih by auto
    then have "z \<in> pts (s # ss) ((a, n) # zip as' ns')"
      unfolding pts_Cons_iff by blast
    then show "z \<in> pts (s # ss) (zip as ns)"
      using eq(1,2) by simp
  next
    fix z assume "z \<in> pts (s # ss) (zip as ns)"
    then obtain x q where x: "a \<le> x" "x < a + n" "q \<in> pts ss (zip as' ns')" "z = x * s + q"
      using eq(1,2) pts_Cons_iff [of z s ss a n "zip as' ns'"] by auto
    then obtain r where "r \<in> offs (zip ns' ss)" "q = origin ss as' + r"
      using ih by blast
    moreover obtain c where "x = a + c" "c < n"
      using x by (auto simp: le_iff_add)
    moreover from calculation x have "z = origin (s # ss) as + (c * s + r)"
      using eq by (simp add: algebra_simps)
    ultimately show "z \<in> (\<lambda>r. origin (s # ss) as + r) ` offs (zip ns (s # ss))"
      using eq by auto
  qed
qed simp

fun ndecompose :: "nat list \<Rightarrow> nat \<Rightarrow> nat list \<times> nat" where
  "ndecompose [] r = ([], r)"
| "ndecompose (s # ss) r = (let (as, r') = ndecompose ss (r mod s) in (r div s # as, r'))"

lemma ndecompose_origin: "ndecompose ss r = (as, r') \<Longrightarrow> length as = length ss \<and> r = origin ss as + r'"
proof (induction ss arbitrary: r as)
  case (Cons s ss)
  obtain as' where d: "ndecompose ss (r mod s) = (as', r')" "as = r div s # as'"
    using Cons.prems by (auto split: prod.splits)
  then have "r mod s = origin ss as' + r'" "length as' = length ss"
    using Cons.IH by auto
  then show ?case
    using d(2) div_mult_mod_eq [of r s] by simp
qed simp

lemma unat_u64_mod: "unat (r mod ucast s :: u64) = unat r mod unat (s :: u32)"
  by (simp add: unat_mod)

lemma unat_u64_div: "unat (r div ucast s :: u64) = unat r div unat (s :: u32)"
  by (simp add: unat_div)

lemma unat_ucast_small: "unat (r :: u64) < 2 ^ 32 \<Longrightarrow> unat (ucast r :: u32) = unat r"
  by (simp add: unsigned_ucast_eq take_bit_nat_eq_self)

lemma decompose_small:
  "unat r < 2 ^ 32 \<Longrightarrow>
    (map unat (fst (decompose ss r)), unat (snd (decompose ss r))) = ndecompose (map unat ss) (unat r)"
proof (induction ss arbitrary: r)
  case (Cons s ss)
  have "unat (r mod ucast s) < 2 ^ 32" "unat (r div ucast s) < 2 ^ 32"
    using Cons.prems by (auto simp: unat_u64_mod unat_u64_div intro: le_less_trans [OF div_le_dividend] le_less_trans [OF mod_less_eq_dividend])
  then show ?case
    using Cons.IH [of "r mod ucast s", symmetric]
    by (simp add: Let_def split_beta unat_ucast_small unat_u64_mod unat_u64_div)
qed simp

lemma decompose_head:
  assumes "0 < s" and "decompose (s # ss) r = (as, rem)"
  obtains as' where "as = ucast (r div ucast s) # as'"
    "(map unat as', unat rem) = ndecompose (map unat ss) (unat r mod unat s)"
proof -
  have "unat (r mod ucast s) < 2 ^ 32"
    unfolding unat_u64_mod using assms(1) unsigned_less [of s, where ?'a = nat]
    by (intro less_trans [OF mod_less_divisor]) (simp_all add: word_gt_0 unat_gt_0)
  then show ?thesis
    using that decompose_small [of "r mod ucast s" ss] assms(2) by (auto simp: unat_u64_mod split_beta Let_def)
qed

subsection \<open>The steps of the check on natural numbers\<close>

fun divisible :: "nat list \<Rightarrow> bool" where
  "divisible (a # b # ss) \<longleftrightarrow> 0 < b \<and> b dvd a \<and> divisible (b # ss)"
| "divisible _ \<longleftrightarrow> True"

lemma stride_chain_divisible: "stride_chain ss = Inr True \<Longrightarrow> divisible (map unat ss)"
proof (induction ss rule: stride_chain.induct)
  case (1 a b ss)
  then have "b \<noteq> 0" "a mod b = 0" "divisible (map unat (b # ss))"
    by (auto split: if_splits)
  moreover from this have "unat a mod unat b = 0"
    by (metis unat_0 unat_mod)
  ultimately show ?case
    by (simp add: unat_gt_0 dvd_eq_mod_eq_0)
qed auto

lemma sum_le_u32:
  "ucast (a :: u32) + ucast (n :: u32) \<le> (ucast (r :: u32) :: u64) \<longleftrightarrow> unat a + unat n \<le> unat r"
proof -
  have "unat (ucast a + ucast n :: u64) = unat a + unat n"
    using unsigned_less [of a, where ?'a = nat] unsigned_less [of n, where ?'a = nat]
    by (subst unat_add_fits) simp_all
  then show ?thesis
    by (simp add: word_le_nat_alt)
qed

lemma fits_ref_Cons [simp]:
  "fits_ref (r # refs) (a # as) (n # ns) \<longleftrightarrow> unat a + unat n \<le> unat r \<and> fits_ref refs as ns"
  by (simp add: fits_ref_def sum_le_u32)

lemma fits_boxed:
  assumes "divisible (map unat (s # ss))" and "0 < s" and "length as = length ss" "length ns = length ss"
    and "\<forall>n \<in> set ns. 0 < n" and "fits_ref (map2 (div) (s # ss) ss) as ns"
  shows "boxed (unat s) (map unat ss) (zip (map unat as) (map unat ns))"
  using assms
proof (induction ss arbitrary: s as ns)
  case (Cons t ss)
  obtain a as' n ns' where "as = a # as'" "ns = n # ns'"
    using Cons.prems(3,4) by (metis length_Suc_conv)
  then show ?case
    using Cons by (simp add: word_gt_0 unat_gt_0 unat_div)
qed (simp add: word_gt_0 unat_gt_0)

lemma dim_seg_nat:
  "line_segment_intersection (dim_seg a n) (dim_seg b m) \<longleftrightarrow> meets ((unat a, unat n), (unat b, unat m))"
  "seg_contains (dim_seg a n) (dim_seg b m) \<longleftrightarrow> encloses ((unat a, unat n), (unat b, unat m))"
proof -
  have "unat (ucast a + ucast n :: u64) = unat a + unat n" for a n :: u32
    using unsigned_less [of a, where ?'a = nat] unsigned_less [of n, where ?'a = nat]
    by (subst unat_add_fits) simp_all
  then show
    "line_segment_intersection (dim_seg a n) (dim_seg b m) \<longleftrightarrow> meets ((unat a, unat n), (unat b, unat m))"
    "seg_contains (dim_seg a n) (dim_seg b m) \<longleftrightarrow> encloses ((unat a, unat n), (unat b, unat m))"
    by (auto simp: line_segment_intersection_def seg_contains_def dim_seg_def word_less_nat_alt word_le_nat_alt)
qed

definition nat_box :: "u32 list \<Rightarrow> u32 list \<Rightarrow> box" where
  "nat_box as ns = zip (map unat as) (map unat ns)"

lemma nat_box_Cons [simp]: "nat_box (a # as) (n # ns) = (unat a, unat n) # nat_box as ns"
  by (simp add: nat_box_def)

definition box_status :: "box \<Rightarrow> box \<Rightarrow> OverlapStatus" where
  "box_status bs cs =
     (if \<not> list_all meets (zip bs cs) then NO_OVERLAP
      else if list_all encloses (zip bs cs) then COVERED else OTHER)"

lemma overlap_dims_nat:
  assumes "length ns = length as" "length bs = length as" "length ms = length as"
  shows "overlap_dims (zip (map2 dim_seg as ns) (map2 dim_seg bs ms)) covered =
    (if \<not> list_all meets (zip (nat_box as ns) (nat_box bs ms)) then NO_OVERLAP
     else if covered \<and> list_all encloses (zip (nat_box as ns) (nat_box bs ms)) then COVERED else OTHER)"
  using assms
proof (induction as arbitrary: ns bs ms covered)
  case (Cons a as)
  obtain n ns' b bs' m ms' where "ns = n # ns'" "bs = b # bs'" "ms = m # ms'"
    using Cons.prems by (metis length_Suc_conv)
  then show ?case
    using Cons by (simp add: dim_seg_nat)
qed (simp add: nat_box_def)

text \<open>Cutting the outer coordinates to 32 bits does not change how two intervals lie that share a position.\<close>

lemma cut_quotient:
  assumes "b < a + n" and "a mod M + n < M"
  shows "b div M \<le> a div (M :: nat)"
proof (rule ccontr)
  assume "\<not> ?thesis"
  then have "Suc (a div M) * M \<le> b div M * M"
    by (intro mult_le_mono1) simp
  also have "\<dots> \<le> b"
    by simp
  finally have "a div M * M + M \<le> b"
    by simp
  moreover have "a = a div M * M + a mod M"
    by simp
  ultimately show False
    using assms by linarith
qed

lemma cut_interval:
  assumes "a < b + m" "b < a + n" and "a mod M + n < M" "b mod M + m < (M :: nat)"
  shows "meets ((a mod M, n), (b mod M, m))" "encloses ((a mod M, n), (b mod M, m)) \<longleftrightarrow> encloses ((a, n), (b, m))"
proof -
  have q: "a div M = b div M"
    using cut_quotient [OF assms(2,3)] cut_quotient [OF assms(1,4)] by simp
  define d where "d = a div M * M"
  have "a = d + a mod M" "b = d + b mod M"
    unfolding d_def by simp (metis q div_mult_mod_eq)
  then show "meets ((a mod M, n), (b mod M, m))"
      "encloses ((a mod M, n), (b mod M, m)) \<longleftrightarrow> encloses ((a, n), (b, m))"
    using assms(1,2) unfolding interval_simps by linarith+
qed

subsection \<open>Exactness of the dimension-wise test\<close>

definition positions :: "u64 \<Rightarrow> u32 list \<Rightarrow> u32 list \<Rightarrow> nat set" where
  "positions x ns ss = (\<lambda>r. unat x + r) ` offs (nat_dims ns ss)"

lemma unat_ucast_mod: "unat (ucast (r :: u64) :: u32) = unat r mod 2 ^ 32"
  by (simp add: unsigned_ucast_eq take_bit_eq_mod)

lemma view_box:
  assumes s: "0 < s" "divisible (map unat (s # ss))" and ns: "length ns = Suc (length ss)" "\<forall>n \<in> set ns. 0 < n"
    and dec: "decompose (s # ss) x = (as, 0)" and fit: "fits_ref (ref # map2 (div) (s # ss) ss) as ns"
  obtains a as' n ns' where "as = a # as'" "ns = n # ns'" "unat a = (unat x div unat s) mod 2 ^ 32"
    "unat a + unat n < 2 ^ 32" "0 < unat n" "length as' = length ss" "length ns' = length ss"
    "positions x ns (s # ss) = pts (map unat (s # ss)) ((unat x div unat s, unat n) # nat_box as' ns')"
    "boxed (unat s) (map unat ss) (nat_box as' ns')"
proof -
  obtain as' where as: "as = ucast (x div ucast s) # as'"
      "(map unat as', unat (0 :: u64)) = ndecompose (map unat ss) (unat x mod unat s)"
    by (rule decompose_head [OF s(1) dec])
  obtain n ns' where n: "ns = n # ns'" "length ns' = length ss"
    using ns(1) by (metis length_Suc_conv)
  have o: "length as' = length ss" "unat x mod unat s = origin (map unat ss) (map unat as')"
    using ndecompose_origin [OF as(2) [symmetric]] by simp_all
  then have x: "unat x = origin (map unat (s # ss)) (unat x div unat s # map unat as')"
    by (simp flip: o(2))
  have "positions x ns (s # ss) = (\<lambda>r. origin (map unat (s # ss)) (unat x div unat s # map unat as') + r) ` offs (zip (map unat ns) (map unat (s # ss)))"
    unfolding positions_def nat_dims_def using x by simp
  also have "\<dots> = pts (map unat (s # ss)) (zip (unat x div unat s # map unat as') (map unat ns))"
    by (rule offs_pts) (use n o in simp_all)
  also have "\<dots> = pts (map unat (s # ss)) ((unat x div unat s, unat n) # nat_box as' ns')"
    using n by (simp add: nat_box_def)
  finally have p: "positions x ns (s # ss) = pts (map unat (s # ss)) ((unat x div unat s, unat n) # nat_box as' ns')" .
  have f: "unat (ucast (x div ucast s) :: u32) + unat n \<le> unat ref" "fits_ref (map2 (div) (s # ss) ss) as' ns'"
    using fit as(1) n(1) by simp_all
  have b: "boxed (unat s) (map unat ss) (nat_box as' ns')"
    unfolding nat_box_def by (rule fits_boxed [OF s(2,1)]) (use o n ns f in simp_all)
  have "0 < unat n"
    using ns(2) n(1) by (simp add: word_gt_0 unat_gt_0)
  then show ?thesis
    using that [OF as(1) n(1)] p b f(1) o(1) n(2) unsigned_less [of ref, where ?'a = nat]
    by (simp add: unat_ucast_mod unat_u64_div)
qed

lemma pts_quotient:
  assumes "z \<in> pts (s # ss) ((a, n) # bs)" and "boxed s ss bs"
  shows "a \<le> z div s \<and> z div s < a + n"
proof -
  obtain x r where "a \<le> x" "x < a + n" "r \<in> pts ss bs" "z = x * s + r"
    using assms(1) unfolding pts_Cons_iff by blast
  moreover from this have "r < s"
    using boxed_bound [OF assms(2)] by blast
  ultimately show ?thesis
    by simp
qed

lemma boxed_outer:
  assumes "boxed s ss bs" "0 < n" "a + n \<le> K"
  shows "boxed (K * s) (s # ss) ((a, n) # bs)"
proof -
  have "0 < s"
    using assms(1) by (cases "(s, ss, bs)" rule: boxed.cases) (auto intro: Nat.gr0I)
  then show ?thesis
    using assms by simp
qed

lemma boxes_exact:
  assumes s: "0 < s" "divisible (map unat (s # ss))"
    and ns: "length ns = Suc (length ss)" "\<forall>n \<in> set ns. 0 < n" and ms: "length ms = Suc (length ss)" "\<forall>m \<in> set ms. 0 < m"
    and dec: "decompose (s # ss) x = (as, 0)" "decompose (s # ss) y = (bs, 0)"
    and fit: "fits_ref (ref # map2 (div) (s # ss) ss) as ns" "fits_ref (ref # map2 (div) (s # ss) ss) bs ms"
    and near: "z \<in> positions x ns (s # ss)" "unat y \<le> z" "w \<in> positions y ms (s # ss)" "unat x \<le> w"
  shows "positions x ns (s # ss) \<inter> positions y ms (s # ss) \<noteq> {} \<longleftrightarrow> list_all meets (zip (nat_box as ns) (nat_box bs ms))"
    "positions y ms (s # ss) \<subseteq> positions x ns (s # ss) \<longleftrightarrow> list_all encloses (zip (nat_box as ns) (nat_box bs ms))"
proof -
  let ?o = "unat x div unat s" and ?p = "unat y div unat s"
  obtain a as' n ns' where A: "as = a # as'" "ns = n # ns'" "unat a = ?o mod 2 ^ 32" "unat a + unat n < 2 ^ 32"
      "0 < unat n" "positions x ns (s # ss) = pts (map unat (s # ss)) ((?o, unat n) # nat_box as' ns')"
      "boxed (unat s) (map unat ss) (nat_box as' ns')"
    by (rule view_box [OF s ns dec(1) fit(1)])
  obtain b bs' m ms' where B: "bs = b # bs'" "ms = m # ms'" "unat b = ?p mod 2 ^ 32" "unat b + unat m < 2 ^ 32"
      "0 < unat m" "positions y ms (s # ss) = pts (map unat (s # ss)) ((?p, unat m) # nat_box bs' ms')"
      "boxed (unat s) (map unat ss) (nat_box bs' ms')"
    by (rule view_box [OF s ms dec(2) fit(2)])
  have "z div unat s < ?o + unat n" "w div unat s < ?p + unat m"
    using pts_quotient [OF _ A(7)] pts_quotient [OF _ B(7)] near A(6) B(6) by auto
  then have near': "?p < ?o + unat n" "?o < ?p + unat m"
    using div_le_mono [OF near(2), of "unat s"] div_le_mono [OF near(4), of "unat s"] by linarith+
  note cut = cut_interval [OF near'(2,1), of "2 ^ 32", folded A(3) B(3), OF A(4) B(4)]
  define K where "K = max (?o + unat n) (?p + unat m)"
  have K: "?o + unat n \<le> K" "?p + unat m \<le> K"
    by (simp_all add: K_def)
  have bx: "boxed (K * unat s) (map unat (s # ss)) ((?o, unat n) # nat_box as' ns')"
      "boxed (K * unat s) (map unat (s # ss)) ((?p, unat m) # nat_box bs' ms')"
    using boxed_outer [OF A(7,5) K(1)] boxed_outer [OF B(7,5) K(2)] by (simp_all only: list.map)
  show "positions x ns (s # ss) \<inter> positions y ms (s # ss) \<noteq> {} \<longleftrightarrow> list_all meets (zip (nat_box as ns) (nat_box bs ms))"
    unfolding A(6) B(6) pts_meet [OF bx] using near' cut(1) A(1,2) B(1,2) by simp
  show "positions y ms (s # ss) \<subseteq> positions x ns (s # ss) \<longleftrightarrow> list_all encloses (zip (nat_box as ns) (nat_box bs ms))"
    unfolding A(6) B(6) pts_enclose [OF bx] using cut(2) A(1,2) B(1,2) by simp
qed

subsection \<open>The check itself\<close>

lemma row_major_cut:
  "map unat (fst (row_major ns)) = map (\<lambda>x. x mod 2 ^ 32) (strides_of (map unat ns))
    \<and> unat (snd (row_major ns)) = prod_list (map unat ns) mod 2 ^ 32"
proof (induction ns)
  case (Cons n ns)
  then show ?case
    by (auto simp: split_beta Let_def unat_word_ariths mod_mult_left_eq mod_mult_right_eq mult.commute)
qed simp

lemma contiguous_strides:
  assumes "valid_tensor t" and "tn_is_contiguous t"
  shows "fst (row_major (tn_shapes t)) = tn_strides t"
proof -
  have "map unat (tn_strides t) = strides_of (map unat (tn_shapes t))"
    using assms contig_strides [of "map unat (tn_strides t)" "map unat (tn_shapes t)"]
    by (simp add: valid_tensor_def shape_ok_def tn_dims_def nat_dims_def)
  moreover have "map (\<lambda>x. x mod 2 ^ 32) (map unat ss) = map unat (ss :: u32 list)" for ss
    using unsigned_less [where ?'a = nat and ?'b = 32] by (simp add: o_def)
  ultimately have "map unat (fst (row_major (tn_shapes t))) = map unat (tn_strides t)"
    using row_major_cut [of "tn_shapes t"] by metis
  then show ?thesis
    by (simp add: inj_map_eq_map inj_on_def word_unat_eq_iff)
qed

lemma copy_from_tensor_view:
  assumes "valid_tensor t"
  shows "te_strides (copy_from_tensor t e) = tn_strides t" "te_shapes (copy_from_tensor t e) = tn_shapes t"
    "te_start_offset (copy_from_tensor t e) = tn_start_offset t" "te_dtype (copy_from_tensor t e) = tn_dtype t"
    "te_version (copy_from_tensor t e) = tn_version t" "te_buffer_addr (copy_from_tensor t e) = buf_addr (tn_buffer t)"
    "effective_extent_elem (copy_from_tensor t e) = extent_elem t"
  using contiguous_strides [OF assms]
  by (auto simp: copy_from_tensor_def Let_def effective_extent_elem_def extent_elem_def numel_def)

definition canonical :: "Tensor \<Rightarrow> bool" where
  "canonical t \<longleftrightarrow> last (tn_strides t) = 1 \<and> stride_chain (tn_strides t) = Inr True
     \<and> (case get_element_size (tn_dtype t) of Inl _ \<Rightarrow> False
        | Inr es \<Rightarrow>
            (let storage = buf_size (tn_buffer t) div es; s = hd (tn_strides t); (os, rem) = decompose (tn_strides t) (tn_start_offset t)
             in storage mod ucast s = 0 \<and> rem = 0
               \<and> fits_ref (ucast (storage div ucast s) # map2 (div) (tn_strides t) (tl (tn_strides t))) os (tn_shapes t)))"

lemma stride_chain_defined: "\<forall>s \<in> set ss. 0 < s \<Longrightarrow> \<exists>b. stride_chain ss = Inr b"
  by (induction ss rule: stride_chain.induct) auto

lemma length_decompose: "length (fst (decompose ss r)) = length ss"
  by (induction ss arbitrary: r) (auto simp: split_beta Let_def)

lemma element_size_pos: "get_element_size d = Inr es \<Longrightarrow> es \<noteq> 0"
proof -
  assume "get_element_size d = Inr es"
  then have "es \<in> set data_type_size"
    by (auto simp: get_element_size_def split: if_splits)
  then show ?thesis
    by (auto simp: data_type_size_def)
qed

lemma elems_positions: "elems t = positions (tn_start_offset t) (tn_shapes t) (tn_strides t)"
  by (simp add: elems_def positions_def tn_dims_def)

definition status_sound :: "Tensor \<Rightarrow> Tensor \<Rightarrow> OverlapStatus \<Rightarrow> bool" where
  "status_sound input t st \<longleftrightarrow>
     (st = NO_OVERLAP \<longrightarrow> elems input \<inter> elems t = {}) \<and> (st = COVERED \<longrightarrow> elems t \<subseteq> elems input)"

definition status_exact :: "Tensor \<Rightarrow> Tensor \<Rightarrow> OverlapStatus \<Rightarrow> bool" where
  "status_exact input t st \<longleftrightarrow>
     (st = NO_OVERLAP \<longleftrightarrow> elems input \<inter> elems t = {}) \<and> (st = COVERED \<longleftrightarrow> elems t \<subseteq> elems input)"

lemma status_OTHER [simp]: "status_sound input t OTHER"
  by (simp add: status_sound_def)

lemma overlap_boxes_status:
  assumes vi: "valid_tensor input" and vt: "valid_tensor t" and buf: "tn_buffer input = tn_buffer t"
    and dt: "tn_dtype input = tn_dtype t" and str: "tn_strides input = tn_strides t"
    and near: "z \<in> elems input" "unat (tn_start_offset t) \<le> z" "w \<in> elems t" "unat (tn_start_offset input) \<le> w"
  shows "\<exists>st. overlap_boxes (buf_size (tn_buffer input)) (tn_dtype t) (tn_strides t) (tn_start_offset input)
      (tn_shapes input) (tn_start_offset t) (tn_shapes t) = Inr st
    \<and> status_sound input t st \<and> (canonical input \<and> canonical t \<longrightarrow> status_exact input t st)"
proof -
  note ok = valid_shape_ok [OF vi] valid_shape_ok [OF vt]
  obtain s ss where strides: "tn_strides t = s # ss"
    using ok(2) by (cases "tn_strides t") (auto simp: shape_ok_def)
  have pos: "0 < s" "\<forall>s \<in> set (s # ss). 0 < s" and len: "length (tn_shapes input) = Suc (length ss)" "length (tn_shapes t) = Suc (length ss)"
    and ns: "\<forall>n \<in> set (tn_shapes input). 0 < n" "\<forall>n \<in> set (tn_shapes t). 0 < n"
    using ok strides str by (auto simp: shape_ok_def)
  obtain es where es: "get_element_size (tn_dtype t) = Inr es" "es \<noteq> 0"
    using vt element_size_pos by (auto simp: valid_tensor_def in_buffer_def split: sum.splits)
  let ?storage = "buf_size (tn_buffer t) div es"
  let ?refs = "ucast (?storage div ucast s) # map2 (div) (s # ss) ss"
  obtain as ri where di: "decompose (s # ss) (tn_start_offset input) = (as, ri)"
    by (cases "decompose (s # ss) (tn_start_offset input)")
  obtain bs rt where dt': "decompose (s # ss) (tn_start_offset t) = (bs, rt)"
    by (cases "decompose (s # ss) (tn_start_offset t)")
  show ?thesis
  proof (cases "last (s # ss) = 1 \<and> stride_chain (s # ss) = Inr True \<and> ?storage mod ucast s = 0 \<and> ri = 0 \<and> rt = 0
      \<and> fits_ref ?refs as (tn_shapes input) \<and> fits_ref ?refs bs (tn_shapes t)")
    case True
    then have div: "divisible (map unat (s # ss))"
      by (blast intro: stride_chain_divisible)
    have la: "length as = Suc (length ss)" "length bs = Suc (length ss)"
      using length_decompose [of "s # ss"] di dt' by (metis fst_conv length_Cons)+
    have d0: "decompose (s # ss) (tn_start_offset input) = (as, 0)" "decompose (s # ss) (tn_start_offset t) = (bs, 0)"
      and fit: "fits_ref ?refs as (tn_shapes input)" "fits_ref ?refs bs (tn_shapes t)"
      using True di dt' by simp_all
    have pos': "z \<in> positions (tn_start_offset input) (tn_shapes input) (s # ss)"
        "w \<in> positions (tn_start_offset t) (tn_shapes t) (s # ss)"
      using near(1,3) str strides by (simp_all add: elems_positions)
    let ?Z = "zip (nat_box as (tn_shapes input)) (nat_box bs (tn_shapes t))"
    have ex: "elems input \<inter> elems t \<noteq> {} \<longleftrightarrow> list_all meets ?Z" "elems t \<subseteq> elems input \<longleftrightarrow> list_all encloses ?Z"
      using boxes_exact [OF pos(1) div len(1) ns(1) len(2) ns(2) d0 fit pos' (1) near(2) pos' (2) near(4)] str strides
      by (simp_all add: elems_positions)
    have "overlap_boxes (buf_size (tn_buffer input)) (tn_dtype t) (tn_strides t) (tn_start_offset input)
        (tn_shapes input) (tn_start_offset t) (tn_shapes t)
      = Inr (if \<not> list_all meets ?Z then NO_OVERLAP else if list_all encloses ?Z then COVERED else OTHER)"
      using True es di dt' strides buf pos(1) overlap_dims_nat [of "tn_shapes input" as bs "tn_shapes t" True] la len
      by (simp add: overlap_boxes_def word_gt_0)
    moreover have "elems t \<noteq> {}"
      using near by blast
    ultimately show ?thesis
      using ex by (auto simp: status_sound_def status_exact_def)
  next
    case False
    then have "overlap_boxes (buf_size (tn_buffer input)) (tn_dtype t) (tn_strides t) (tn_start_offset input)
        (tn_shapes input) (tn_start_offset t) (tn_shapes t) = Inr OTHER"
      using es di dt' strides buf pos stride_chain_defined [OF pos(2)]
      by (auto simp: overlap_boxes_def Let_def split: bool.splits)
    moreover have "\<not> (canonical input \<and> canonical t)"
      using False es di dt' strides str buf dt by (auto simp: canonical_def Let_def)
    ultimately show ?thesis
      by auto
  qed
qed

lemma check_overlap_status:
  assumes vi: "valid_tensor input" and vt: "valid_tensor t" and buf: "tn_buffer input = tn_buffer t"
    and dt: "tn_dtype input = tn_dtype t" and ver: "tn_version input = tn_version t"
  shows "\<exists>st. check_overlap dbg input (copy_from_tensor t e) = Inr st \<and> status_sound input t st
    \<and> (canonical input \<and> canonical t \<and> tn_strides input = tn_strides t \<longrightarrow> status_exact input t st)"
proof -
  let ?e = "copy_from_tensor t e"
  note cv = copy_from_tensor_view [OF vt, of e] and ok = valid_shape_ok [OF vi] valid_shape_ok [OF vt]
  define ie te where "ie = unat (tn_start_offset input) + dim_extent (tn_dims input)"
    and "te = unat (tn_start_offset t) + dim_extent (tn_dims t)"
  have ends: "unat (tn_start_offset input + extent_elem input) = ie" "unat (tn_start_offset t + extent_elem t) = te"
    using extent_elem_nat vi vt valid_end unfolding ie_def te_def by (simp_all add: unat_add_fits)
  have last: "ie - 1 \<in> elems input" "te - 1 \<in> elems t" "0 < ie" "0 < te"
    using elems_last [OF ok(1)] elems_last [OF ok(2)] by (simp_all add: ie_def te_def)
  define near where "near \<longleftrightarrow> unat (tn_start_offset t) < ie \<and> unat (tn_start_offset input) < te"
  have L1: "line_segment_intersection \<lparr>seg_begin = tn_start_offset input, seg_end = tn_start_offset input + extent_elem input\<rparr>
      \<lparr>seg_begin = tn_start_offset t, seg_end = tn_start_offset t + extent_elem t\<rparr> \<longleftrightarrow> near"
    by (simp add: line_segment_intersection_def word_less_nat_alt ends near_def)
  consider (far) "\<not> near" | (other) "near" "tn_strides input \<noteq> tn_strides t" | (boxes) "near" "tn_strides input = tn_strides t"
    by blast
  then show ?thesis
  proof cases
    case far
    have lo: "unat (tn_start_offset u) \<le> x" if "x \<in> elems u" for x u
      using that by (auto simp: elems_def)
    have "elems input \<inter> elems t = {}"
      using far elems_less [of _ input] elems_less [of _ t] lo [of _ input] lo [of _ t]
      unfolding near_def ie_def te_def by (force simp: not_less)
    moreover from this have "\<not> elems t \<subseteq> elems input"
      using last(2) by blast
    moreover have "check_overlap dbg input ?e = Inr NO_OVERLAP"
      using far L1 cv buf ver by (simp add: check_overlap_def Let_def)
    ultimately show ?thesis
      by (simp add: status_sound_def status_exact_def)
  next
    case other
    then show ?thesis
      using L1 cv buf ver by (simp add: check_overlap_def)
  next
    case boxes
    have le: "unat (tn_start_offset t) \<le> ie - 1" "unat (tn_start_offset input) \<le> te - 1"
      using boxes(1) unfolding near_def by linarith+
    obtain st where st: "overlap_boxes (buf_size (tn_buffer input)) (tn_dtype t) (tn_strides t) (tn_start_offset input)
        (tn_shapes input) (tn_start_offset t) (tn_shapes t) = Inr st"
      "status_sound input t st" "canonical input \<and> canonical t \<longrightarrow> status_exact input t st"
      using overlap_boxes_status [OF vi vt buf dt boxes(2) last(1) le(1) last(2) le(2)] by blast
    have "tn_ndims input = tn_ndims t" "tn_ndims t \<noteq> 0"
      using ok boxes(2) by (simp_all add: shape_ok_def)
    then have "check_overlap dbg input ?e = Inr st"
      using L1 boxes cv buf ver dt st(1) by (simp add: check_overlap_def)
    then show ?thesis
      using st(2,3) by (auto simp: status_sound_def status_exact_def)
  qed
qed

text \<open>
  C36: the overlap check is sound, and exact on row-major views. For an input and a registered tensor of one buffer with
  the same element type and version, the check never fails; \<open>NO_OVERLAP\<close> means they share no element and
  \<open>COVERED\<close> means every element of the registered tensor is one of the input. If both are boxes of one row-major
  layout, the converses hold as well.
\<close>

theorem check_overlap_exact:
  assumes vi: "valid_tensor input" and vt: "valid_tensor t" and buf: "tn_buffer input = tn_buffer t"
    and dt: "tn_dtype input = tn_dtype t" and ver: "tn_version input = tn_version t"
  shows "\<exists>st. check_overlap dbg input (copy_from_tensor t e) = Inr st
    \<and> (st = NO_OVERLAP \<longrightarrow> elems input \<inter> elems t = {}) \<and> (st = COVERED \<longrightarrow> elems t \<subseteq> elems input)
    \<and> (canonical input \<and> canonical t \<and> tn_strides input = tn_strides t \<longrightarrow>
         (st = NO_OVERLAP \<longleftrightarrow> elems input \<inter> elems t = {}) \<and> (st = COVERED \<longleftrightarrow> elems t \<subseteq> elems input))"
  using check_overlap_status [OF assms, of dbg e] by (simp only: status_sound_def status_exact_def conj_assoc)

definition demo_left :: Tensor where
  "demo_left = demo_tensor\<lparr>tn_is_contiguous := False, tn_shapes := [4, 3], tn_extent_elem_cache := 21\<rparr>"

definition demo_right :: Tensor where
  "demo_right = demo_left\<lparr>tn_start_offset := 3\<rparr>"

definition blank_entry :: PTO2TensorMapEntry where
  "blank_entry = \<lparr>te_buffer_addr = 0, te_next_in_bucket = None, te_producer = \<lparr>raw = 0\<rparr>, te_start_offset = 0,
     te_version = 0, te_dtype = 0, te_manual_dep = False, te_is_contiguous = False, te_shapes = [],
     te_prev_in_bucket = None, te_next_in_task = None, te_prev_in_task = None, te_bucket_index = - 1,
     te_extent_elem_cache = 0, te_strides = []\<rparr>"

lemmas overlap_eval =
  demo_left_def demo_right_def demo_tensor_def valid_tensor_def shape_ok_def in_buffer_def tn_dims_def
  get_element_size_def data_type_size_def RUNTIME_MAX_TENSOR_DIMS_def unat_div canonical_def fits_ref_def
  check_overlap_def copy_from_tensor_def extent_elem_def effective_extent_elem_def numel_def shape_product_def
  line_segment_intersection_def seg_contains_def overlap_boxes_def dim_seg_def Let_def blank_entry_def

lemma demo_halves_valid: "valid_tensor demo_left" "valid_tensor demo_right"
  by (simp_all add: overlap_eval)

text \<open>The left and the right half of a matrix interleave in memory and are found disjoint.\<close>

theorem check_overlap_exact_witness:
  "check_overlap True demo_left (copy_from_tensor demo_right blank_entry) = Inr NO_OVERLAP
    \<and> elems demo_left \<inter> elems demo_right = {}"
proof -
  have "check_overlap True demo_left (copy_from_tensor demo_right blank_entry) = Inr NO_OVERLAP"
    by (simp add: overlap_eval)
  then show ?thesis
    using check_overlap_exact [OF demo_halves_valid, of True blank_entry] by (auto simp: overlap_eval)
qed

subsection \<open>Views of different element types\<close>

definition touched_bytes :: "Tensor \<Rightarrow> nat set" where
  "touched_bytes t = (case get_element_size (tn_dtype t) of Inl _ \<Rightarrow> {}
     | Inr es \<Rightarrow> (\<Union>x \<in> elems t. {unat es * x ..< unat es * x + unat es}))"

definition words_view :: Tensor where
  "words_view = demo_tensor\<lparr>tn_shapes := [6], tn_strides := [1], tn_extent_elem_cache := 6\<rparr>"

definition bytes_view :: Tensor where
  "bytes_view = demo_tensor\<lparr>tn_dtype := 4, tn_start_offset := 6, tn_shapes := [18], tn_strides := [1],
     tn_extent_elem_cache := 18\<rparr>"

text \<open>
  C37: overlaps between views of different element types are missed. The range test compares element offsets without
  scaling them by the element size: a view of six 4-byte elements from the start of a buffer and a view of single
  bytes from byte 6 on are both valid and share bytes, yet the check answers \<open>NO_OVERLAP\<close> in both directions.
\<close>

theorem mixed_dtype_overlap_missed:
  "valid_tensor words_view \<and> valid_tensor bytes_view \<and> tn_buffer words_view = tn_buffer bytes_view
    \<and> tn_version words_view = tn_version bytes_view \<and> touched_bytes words_view \<inter> touched_bytes bytes_view \<noteq> {}
    \<and> check_overlap dbg words_view (copy_from_tensor bytes_view e) = Inr NO_OVERLAP
    \<and> check_overlap dbg bytes_view (copy_from_tensor words_view e) = Inr NO_OVERLAP"
proof -
  have "2 \<in> elems words_view" "8 \<in> elems bytes_view"
    by (auto simp: elems_def words_view_def bytes_view_def demo_tensor_def tn_dims_def)
  then have "8 \<in> touched_bytes words_view" "8 \<in> touched_bytes bytes_view"
    by (force simp: touched_bytes_def words_view_def bytes_view_def demo_tensor_def get_element_size_def data_type_size_def)+
  then have "touched_bytes words_view \<inter> touched_bytes bytes_view \<noteq> {}"
    by blast
  then show ?thesis
    by (simp add: words_view_def bytes_view_def overlap_eval)
qed

text \<open>
  Strides are products kept in 32 bits: for a contiguous tensor of four gibi-elements the outer stride wraps to zero,
  and checking such a tensor against itself divides by it.
\<close>

lemma wrapped_stride_division_by_zero:
  assumes "init_external addr bsize [1, 65536, 65536] 4 ver md = Inr t"
  shows "check_overlap dbg t (copy_from_tensor t e) = Inl UndefinedBehaviour"
proof -
  have "tn_strides t = [0, 65536, 1]" "tn_shapes t = [1, 65536, 65536]" "tn_start_offset t = 0" "tn_dtype t = 4"
      "tn_is_contiguous t"
    using assms by (auto simp: init_external_def RUNTIME_MAX_TENSOR_DIMS_def)
  then show ?thesis
    by (simp add: overlap_eval)
qed

end
