(* ===== verification/L2TensorMap.thy ===== *)
theory L2TensorMap
  imports L2OverlapProps
begin

text \<open>
  The device tensor map (\<open>PTO2TensorMap\<close> in \<open>runtime/pto_tensormap.h\<close> and \<open>runtime/shared/pto_tensormap.cpp\<close>): a hash
  table whose chains are doubly linked through a pool of entries, with a second doubly linked chain per task for
  cleanup. Pointers to entries are pool indices. The free list is a list with the next entry to hand out in front.
  A null head stands for an entry pointer that is null; an index outside an array is undefined behaviour. The
  allocations of \<open>init\<close> are a parameter that says which of them fail.
\<close>

record PTO2TensorMap =
  tm_buckets :: "nat option list"
  tm_num_buckets :: nat
  tm_pool :: "PTO2TensorMapEntry list"
  tm_free :: "nat list"
  tm_next_entry_idx :: nat
  tm_task_heads :: "nat option list list"
  tm_windows :: "nat list"
  tm_last_alives :: "int list"
  tm_last_cleanup :: "int list"

subsection \<open>Initialisation\<close>

text \<open>\<open>(n & (n - 1)) == 0\<close>; note that it accepts zero.\<close>

definition pow2_or_zero :: "nat \<Rightarrow> bool" where
  "pow2_or_zero n \<longleftrightarrow> (of_nat n :: u32) AND (of_nat n - 1) = 0"

text \<open>An entry of the zeroed pool after the loop that marks it as not in a bucket.\<close>

definition empty_entry :: PTO2TensorMapEntry where
  "empty_entry = \<lparr>te_buffer_addr = 0, te_next_in_bucket = None, te_producer = \<lparr>raw = 0\<rparr>, te_start_offset = 0,
     te_version = 0, te_dtype = 0, te_manual_dep = False, te_is_contiguous = False, te_shapes = [],
     te_prev_in_bucket = None, te_next_in_task = None, te_prev_in_task = None, te_bucket_index = - 1,
     te_extent_elem_cache = 0, te_strides = []\<rparr>"

text \<open>
  \<open>alloc i\<close> says whether the \<open>i\<close>-th allocation succeeds: the buckets, the pool, the free list, then one array of
  task heads per ring. Every failure path frees what was allocated and returns false.
\<close>

definition tensormap_init :: "(nat \<Rightarrow> bool) \<Rightarrow> nat \<Rightarrow> nat \<Rightarrow> nat list \<Rightarrow> PTO2TensorMap option" where
  "tensormap_init alloc num_buckets pool_size windows =
     (if \<not> pow2_or_zero num_buckets then None
      else if \<not> alloc 0 then None
      else if \<not> alloc 1 then None
      else if \<not> alloc 2 then None
      else if \<not> list_all (\<lambda>r. alloc (3 + r)) [0 ..< PTO2_MAX_RING_DEPTH] then None
      else Some \<lparr>tm_buckets = replicate num_buckets None, tm_num_buckets = num_buckets,
                 tm_pool = replicate pool_size empty_entry, tm_free = [], tm_next_entry_idx = 0,
                 tm_task_heads = map (\<lambda>w. replicate w None) (take PTO2_MAX_RING_DEPTH windows),
                 tm_windows = take PTO2_MAX_RING_DEPTH windows,
                 tm_last_alives = replicate PTO2_MAX_RING_DEPTH 0, tm_last_cleanup = replicate PTO2_MAX_RING_DEPTH 0\<rparr>)"

definition tensormap_init_default :: "(nat \<Rightarrow> bool) \<Rightarrow> nat list \<Rightarrow> PTO2TensorMap option" where
  "tensormap_init_default alloc windows =
     tensormap_init alloc PTO2_TENSORMAP_NUM_BUCKETS PTO2_TENSORMAP_POOL_SIZE windows"

subsection \<open>Slots, hashing, validity\<close>

text \<open>\<open>local_id & (window - 1)\<close> at 32 bits.\<close>

definition slot_of :: "nat \<Rightarrow> u32 \<Rightarrow> nat" where
  "slot_of window local_id = unat (local_id AND (of_nat window - 1))"

definition get_task_local_id_slot :: "u8 \<Rightarrow> u32 \<Rightarrow> PTO2TensorMap \<Rightarrow> nat" where
  "get_task_local_id_slot ring_id local_id M = slot_of (tm_windows M ! unat ring_id) local_id"

fun ctz :: "nat \<Rightarrow> nat" where
  "ctz n = (if n = 0 \<or> odd n then 0 else Suc (ctz (n div 2)))"

declare ctz.simps [simp del]

text \<open>With zero or one bucket the count of trailing zeros is undefined or the shift is by the full width.\<close>

definition hash_index :: "u64 \<Rightarrow> PTO2TensorMap \<Rightarrow> exn + nat" where
  "hash_index key M =
     (if tm_num_buckets M \<le> 1 then Inl UndefinedBehaviour
      else Inr (unat (ucast (drop_bit (64 - ctz (tm_num_buckets M)) (key * 0x9E3779B97F4A7C15)) :: u32)))"

definition entry_valid :: "PTO2TensorMapEntry \<Rightarrow> PTO2TensorMap \<Rightarrow> bool" where
  "entry_valid e M \<longleftrightarrow> sint (tid_local (te_producer e)) \<ge> tm_last_alives M ! unat (tid_ring (te_producer e))"

definition sync_validity :: "nat \<Rightarrow> int \<Rightarrow> PTO2TensorMap \<Rightarrow> PTO2TensorMap" where
  "sync_validity ring_id last_alive M = M\<lparr>tm_last_alives := (tm_last_alives M)[ring_id := last_alive]\<rparr>"

subsection \<open>Entries\<close>

definition upd_entry :: "nat \<Rightarrow> (PTO2TensorMapEntry \<Rightarrow> PTO2TensorMapEntry) \<Rightarrow> PTO2TensorMap \<Rightarrow> PTO2TensorMap" where
  "upd_entry i f M = M\<lparr>tm_pool := (tm_pool M)[i := f (tm_pool M ! i)]\<rparr>"

text \<open>Writing through a pointer that may be null; the code tests it first.\<close>

definition upd_opt :: "nat option \<Rightarrow> (PTO2TensorMapEntry \<Rightarrow> PTO2TensorMapEntry) \<Rightarrow> PTO2TensorMap \<Rightarrow> PTO2TensorMap" where
  "upd_opt p f M = (case p of None \<Rightarrow> M | Some i \<Rightarrow> upd_entry i f M)"

definition new_entry :: "bool \<Rightarrow> PTO2TensorMap \<Rightarrow> (PTO2TensorMap, nat) outcome" where
  "new_entry dbg M =
     (case tm_free M of
        res # rest \<Rightarrow>
          (if dbg \<and> te_bucket_index (tm_pool M ! res) \<noteq> - 1
           then (Inl (assert_failed ''res->bucket_index == -1''), M\<lparr>tm_free := rest\<rparr>)
           else (Inr res, M\<lparr>tm_free := rest\<rparr>))
      | [] \<Rightarrow>
          if \<not> tm_next_entry_idx M < length (tm_pool M)
          then (Inl (assert_failed ''next_entry_idx < pool_size''), M)
          else let res = tm_next_entry_idx M; M1 = M\<lparr>tm_next_entry_idx := res + 1\<rparr>
               in if dbg \<and> te_bucket_index (tm_pool M ! res) \<noteq> - 1
                  then (Inl (assert_failed ''res->bucket_index == -1''), M1) else (Inr res, M1))"

definition free_entry :: "nat \<Rightarrow> PTO2TensorMap \<Rightarrow> (PTO2TensorMap, unit) outcome" where
  "free_entry i M =
     (let e = tm_pool M ! i
      in if te_bucket_index e = - 1 then (Inl (assert_failed ''entry.bucket_index != -1''), M)
         else let M1 = (case te_prev_in_bucket e of
                          None \<Rightarrow> M\<lparr>tm_buckets := (tm_buckets M)[nat (te_bucket_index e) := te_next_in_bucket e]\<rparr>
                        | Some p \<Rightarrow> upd_entry p (\<lambda>x. x\<lparr>te_next_in_bucket := te_next_in_bucket e\<rparr>) M);
                  M2 = upd_opt (te_next_in_bucket e) (\<lambda>x. x\<lparr>te_prev_in_bucket := te_prev_in_bucket e\<rparr>) M1;
                  M3 = M2\<lparr>tm_free := i # tm_free M2\<rparr>
              in (Inr (), upd_entry i (\<lambda>x. x\<lparr>te_bucket_index := - 1, te_next_in_bucket := None,
                     te_prev_in_bucket := None, te_next_in_task := None, te_prev_in_task := None\<rparr>) M3))"

definition remove_from_task :: "nat \<Rightarrow> PTO2TensorMap \<Rightarrow> (PTO2TensorMap, unit) outcome" where
  "remove_from_task i M =
     (let e = tm_pool M ! i
      in if te_bucket_index e = - 1 then (Inl (assert_failed ''entry.bucket_index != -1''), M)
         else let M1 = (case te_prev_in_task e of
                          None \<Rightarrow>
                            let ring_id = unat (tid_ring (te_producer e));
                                task_slot = slot_of (tm_windows M ! ring_id) (tid_local (te_producer e))
                            in M\<lparr>tm_task_heads := (tm_task_heads M)[ring_id :=
                                   (tm_task_heads M ! ring_id)[task_slot := te_next_in_task e]]\<rparr>
                        | Some p \<Rightarrow> upd_entry p (\<lambda>x. x\<lparr>te_next_in_task := te_next_in_task e\<rparr>) M);
                  M2 = upd_opt (te_next_in_task e) (\<lambda>x. x\<lparr>te_prev_in_task := te_prev_in_task e\<rparr>) M1
              in (Inr (), upd_entry i (\<lambda>x. x\<lparr>te_next_in_task := None, te_prev_in_task := None\<rparr>) M2))"

definition remove_entry :: "nat \<Rightarrow> PTO2TensorMap \<Rightarrow> (PTO2TensorMap, unit) outcome" where
  "remove_entry i M =
     (case remove_from_task i M of (Inl ex, M1) \<Rightarrow> (Inl ex, M1) | (Inr _, M1) \<Rightarrow> free_entry i M1)"

definition link_entry :: "nat \<Rightarrow> u64 \<Rightarrow> PTO2TaskId \<Rightarrow> PTO2TensorMap \<Rightarrow> (PTO2TensorMap, unit) outcome" where
  "link_entry i addr producer M =
     (case hash_index addr M of
        Inl ex \<Rightarrow> (Inl ex, M)
      | Inr b \<Rightarrow>
          let ring_id = unat (tid_ring producer)
          in if ring_id \<ge> PTO2_MAX_RING_DEPTH then (Inl UndefinedBehaviour, M)
             else let task_slot = slot_of (tm_windows M ! ring_id) (tid_local producer);
                      bhead = tm_buckets M ! b;
                      M1 = upd_entry i (\<lambda>x. x\<lparr>te_producer := producer, te_bucket_index := int b,
                             te_next_in_bucket := bhead\<rparr>) M;
                      M2 = upd_opt bhead (\<lambda>x. x\<lparr>te_prev_in_bucket := Some i\<rparr>) M1;
                      M3 = upd_entry i (\<lambda>x. x\<lparr>te_prev_in_bucket := None\<rparr>)
                             (M2\<lparr>tm_buckets := (tm_buckets M2)[b := Some i]\<rparr>);
                      thead = tm_task_heads M ! ring_id ! task_slot;
                      M4 = upd_entry i (\<lambda>x. x\<lparr>te_next_in_task := thead, te_prev_in_task := None\<rparr>) M3;
                      M5 = upd_opt thead (\<lambda>x. x\<lparr>te_prev_in_task := Some i\<rparr>) M4
                  in (Inr (), M5\<lparr>tm_task_heads := (tm_task_heads M5)[ring_id :=
                         (tm_task_heads M5 ! ring_id)[task_slot := Some i]]\<rparr>))"

definition tensormap_insert :: "bool \<Rightarrow> Tensor \<Rightarrow> PTO2TaskId \<Rightarrow> PTO2TensorMap \<Rightarrow> (PTO2TensorMap, unit) outcome" where
  "tensormap_insert dbg t producer M =
     (case new_entry dbg M of
        (Inl ex, M1) \<Rightarrow> (Inl ex, M1)
      | (Inr i, M1) \<Rightarrow>
          link_entry i (buf_addr (tn_buffer t)) producer (upd_entry i (copy_from_tensor t) M1))"

subsection \<open>Lookup and cleanup\<close>

text \<open>
  The chain walk of \<open>lookup\<close>. The callback gets the entry and its status and runs on the map together with its own
  captured state; its result says whether to go on. \<open>None\<close> is a walk that does not end (a cyclic chain).
\<close>

partial_function (option) lookup_walk ::
  "bool \<Rightarrow> Tensor \<Rightarrow> (nat \<Rightarrow> OverlapStatus \<Rightarrow> PTO2TensorMap \<times> 'c \<Rightarrow> (PTO2TensorMap \<times> 'c, bool) outcome)
    \<Rightarrow> nat option \<Rightarrow> PTO2TensorMap \<times> 'c \<Rightarrow> (PTO2TensorMap \<times> 'c, unit) outcome option" where
  "lookup_walk dbg t on_match cur Mc =
     (case cur of
        None \<Rightarrow> Some (Inr (), Mc)
      | Some i \<Rightarrow>
          let e = tm_pool (fst Mc) ! i; next_entry = te_next_in_bucket e
          in if \<not> entry_valid e (fst Mc) then lookup_walk dbg t on_match next_entry Mc
             else if buf_addr (tn_buffer t) \<noteq> te_buffer_addr e then lookup_walk dbg t on_match next_entry Mc
             else (case check_overlap dbg t e of
                     Inl ex \<Rightarrow> Some (Inl ex, Mc)
                   | Inr NO_OVERLAP \<Rightarrow> lookup_walk dbg t on_match next_entry Mc
                   | Inr st \<Rightarrow>
                       (case on_match i st Mc of
                          (Inl ex, Mc') \<Rightarrow> Some (Inl ex, Mc')
                        | (Inr go_on, Mc') \<Rightarrow>
                            if go_on then lookup_walk dbg t on_match next_entry Mc' else Some (Inr (), Mc'))))"

definition tensormap_lookup ::
  "bool \<Rightarrow> Tensor \<Rightarrow> (nat \<Rightarrow> OverlapStatus \<Rightarrow> PTO2TensorMap \<times> 'c \<Rightarrow> (PTO2TensorMap \<times> 'c, bool) outcome)
    \<Rightarrow> PTO2TensorMap \<times> 'c \<Rightarrow> (PTO2TensorMap \<times> 'c, unit) outcome option" where
  "tensormap_lookup dbg t on_match Mc =
     (case hash_index (buf_addr (tn_buffer t)) (fst Mc) of
        Inl ex \<Rightarrow> Some (Inl ex, Mc)
      | Inr b \<Rightarrow> lookup_walk dbg t on_match (tm_buckets (fst Mc) ! b) Mc)"

text \<open>Freeing the chain of one retired task.\<close>

partial_function (option) free_task_chain ::
  "bool \<Rightarrow> PTO2TaskId \<Rightarrow> nat option \<Rightarrow> PTO2TensorMap \<Rightarrow> (PTO2TensorMap, unit) outcome option" where
  "free_task_chain dbg task cur M =
     (case cur of
        None \<Rightarrow> Some (Inr (), M)
      | Some i \<Rightarrow>
          let e = tm_pool M ! i; next_entry = te_next_in_task e
          in if dbg \<and> te_producer e \<noteq> task
             then Some (Inl (assert_failed ''cur_entry->producer_task_id == PTO2TaskId::make(ring_id, local_id)''), M)
             else (case free_entry i M of
                     (Inl ex, M') \<Rightarrow> Some (Inl ex, M')
                   | (Inr _, M') \<Rightarrow> free_task_chain dbg task next_entry M'))"

definition cleanup_one :: "bool \<Rightarrow> nat \<Rightarrow> int \<Rightarrow> PTO2TensorMap \<Rightarrow> (PTO2TensorMap, unit) outcome option" where
  "cleanup_one dbg ring_id local_id M =
     (let task_slot = slot_of (tm_windows M ! ring_id) (i32 local_id)
      in case free_task_chain dbg (tid_make (of_nat ring_id) (i32 local_id)) (tm_task_heads M ! ring_id ! task_slot) M of
           None \<Rightarrow> None
         | Some (Inl ex, M1) \<Rightarrow> Some (Inl ex, M1)
         | Some (Inr _, M1) \<Rightarrow>
             Some (Inr (), M1\<lparr>tm_task_heads := (tm_task_heads M1)[ring_id :=
                 (tm_task_heads M1 ! ring_id)[task_slot := None]]\<rparr>))"

fun cleanup_list :: "bool \<Rightarrow> nat \<Rightarrow> int list \<Rightarrow> PTO2TensorMap \<Rightarrow> (PTO2TensorMap, unit) outcome option" where
  "cleanup_list dbg ring_id [] M = Some (Inr (), M)"
| "cleanup_list dbg ring_id (l # ls) M =
     (case cleanup_one dbg ring_id l M of
        Some (Inr _, M1) \<Rightarrow> cleanup_list dbg ring_id ls M1
      | r \<Rightarrow> r)"

definition cleanup_retired :: "bool \<Rightarrow> nat \<Rightarrow> int \<Rightarrow> int \<Rightarrow> PTO2TensorMap \<Rightarrow> (PTO2TensorMap, unit) outcome option" where
  "cleanup_retired dbg ring_id old new M = cleanup_list dbg ring_id [old .. new - 1] M"

definition valid_count :: "PTO2TensorMap \<Rightarrow> nat" where
  "valid_count M = length (filter (\<lambda>e. te_bucket_index e \<noteq> - 1 \<and> entry_valid e M) (tm_pool M))"

definition sync_tensormap :: "bool \<Rightarrow> PTO2TaskId \<Rightarrow> int \<Rightarrow> PTO2TensorMap \<Rightarrow> (PTO2TensorMap, unit) outcome option" where
  "sync_tensormap dbg task sm_last_alive M =
     (let ring_id = unat (tid_ring task)
      in if ring_id \<ge> PTO2_MAX_RING_DEPTH then Some (Inl UndefinedBehaviour, M)
         else let M1 = sync_validity ring_id sm_last_alive M;
                  done_to = tm_last_cleanup M1 ! ring_id;
                  overlap = get_task_local_id_slot (tid_ring task) (tid_local task) M1
                          = get_task_local_id_slot (tid_ring task) (i32 done_to) M1
              in if sm_last_alive - done_to \<ge> PTO2_TENSORMAP_CLEANUP_INTERVAL \<or> overlap
                 then (case cleanup_retired dbg ring_id done_to sm_last_alive M1 of
                         Some (Inr _, M2) \<Rightarrow>
                           Some (Inr (), M2\<lparr>tm_last_cleanup := (tm_last_cleanup M2)[ring_id := sm_last_alive]\<rparr>)
                       | r \<Rightarrow> r)
                 else Some (Inr (), M1))"

end
