(* ===== verification/L2Deps.thy ===== *)
theory L2Deps
  imports L2TensorMap
begin

text \<open>
  Dependency computation at task submission (\<open>runtime/pto_dep_compute.h\<close>), shared by the device orchestrator and the
  trace replay: the producers a new task depends on, and the registration of what it writes. The \<open>emit\<close> callback is a
  parameter: it acts on a state of its own and says whether to go on. An \<open>OUTPUT\<close> argument has no tensor yet, so the
  tensor of an argument is an option; a missing tensor where the code reads one is a null dereference.
\<close>

type_synonym dep_arg = "TensorArgType \<times> Tensor option"

type_synonym 'c emit = "PTO2TaskId \<Rightarrow> 'c \<Rightarrow> 'c \<times> bool"

text \<open>The captured state of the lookup callback: the state of \<open>emit\<close> and the flag \<open>fatal\<close>.\<close>

definition on_match ::
  "'c emit \<Rightarrow> TensorArgType \<Rightarrow> nat \<Rightarrow> OverlapStatus \<Rightarrow> PTO2TensorMap \<times> ('c \<times> bool)
    \<Rightarrow> (PTO2TensorMap \<times> ('c \<times> bool), bool) outcome" where
  "on_match emit ptype i st Mc =
     (case Mc of (M, (c, fatal)) \<Rightarrow>
        (case emit (te_producer (tm_pool M ! i)) c of
           (c', go_on) \<Rightarrow>
             if \<not> go_on then (Inr False, (M, (c', True)))
             else if ptype = INOUT \<and> st = COVERED
             then (case remove_entry i M of
                     (Inl ex, M') \<Rightarrow> (Inl ex, (M', (c', fatal)))
                   | (Inr _, M') \<Rightarrow> (Inr True, (M', (c', fatal))))
             else (Inr True, (M, (c', fatal)))))"

text \<open>One iteration of the loop over the arguments; the result is false when \<open>emit\<close> signalled a fatal error.\<close>

definition fanin_arg ::
  "bool \<Rightarrow> 'c emit \<Rightarrow> dep_arg \<Rightarrow> PTO2TensorMap \<times> 'c \<Rightarrow> (PTO2TensorMap \<times> 'c, bool) outcome option" where
  "fanin_arg dbg emit arg Mc =
     (case (arg, Mc) of ((ptype, tensor), (M, c)) \<Rightarrow>
        if ptype = OUTPUT then Some (Inr True, Mc)
        else case tensor of
            None \<Rightarrow> Some (Inl UndefinedBehaviour, Mc)
          | Some t \<Rightarrow>
              let (c1, go_on) = (if tid_is_valid (tn_owner t) then emit (tn_owner t) c else (c, True))
              in if \<not> go_on then Some (Inr False, (M, c1))
                 else if ptype \<noteq> INPUT \<and> ptype \<noteq> INOUT then Some (Inr True, (M, c1))
                 else if tn_manual_dep t then Some (Inr True, (M, c1))
                 else (case tensormap_lookup dbg t (on_match emit ptype) (M, (c1, False)) of
                         None \<Rightarrow> None
                       | Some (Inl ex, (M', (c2, _))) \<Rightarrow> Some (Inl ex, (M', c2))
                       | Some (Inr _, (M', (c2, fatal))) \<Rightarrow> Some (Inr (\<not> fatal), (M', c2))))"

fun fanin_args ::
  "bool \<Rightarrow> 'c emit \<Rightarrow> dep_arg list \<Rightarrow> PTO2TensorMap \<times> 'c \<Rightarrow> (PTO2TensorMap \<times> 'c, bool) outcome option" where
  "fanin_args dbg emit [] Mc = Some (Inr True, Mc)"
| "fanin_args dbg emit (a # as) Mc =
     (case fanin_arg dbg emit a Mc of
        Some (Inr True, Mc') \<Rightarrow> fanin_args dbg emit as Mc'
      | r \<Rightarrow> r)"

definition compute_task_fanin ::
  "bool \<Rightarrow> dep_arg list \<Rightarrow> bool \<Rightarrow> 'c emit \<Rightarrow> PTO2TensorMap \<times> 'c \<Rightarrow> (PTO2TensorMap \<times> 'c, bool) outcome option" where
  "compute_task_fanin dbg inputs in_manual_scope emit Mc =
     (if in_manual_scope then Some (Inr True, Mc) else fanin_args dbg emit inputs Mc)"

definition register_arg :: "bool \<Rightarrow> PTO2TaskId \<Rightarrow> dep_arg \<Rightarrow> PTO2TensorMap \<Rightarrow> (PTO2TensorMap, unit) outcome" where
  "register_arg dbg task arg M =
     (case arg of (ptype, tensor) \<Rightarrow>
        if ptype = INOUT \<or> ptype = OUTPUT_EXISTING
        then (case tensor of
                None \<Rightarrow> (Inl UndefinedBehaviour, M)
              | Some t \<Rightarrow> if tn_manual_dep t then (Inr (), M) else tensormap_insert dbg t task M)
        else (Inr (), M))"

definition register_task_outputs ::
  "bool \<Rightarrow> dep_arg list \<Rightarrow> PTO2TaskId \<Rightarrow> bool \<Rightarrow> PTO2TensorMap \<Rightarrow> (PTO2TensorMap, unit) outcome" where
  "register_task_outputs dbg inputs task in_manual_scope M =
     (if in_manual_scope then (Inr (), M) else for_each (register_arg dbg task) inputs M)"

end
