(* ===== verification/L2Shared.thy ===== *)
theory L2Shared
  imports L2Deps
begin

text \<open>
  The data the device orchestrator and the device scheduler share: error codes (\<open>common/pto_runtime_status.h\<close>), the
  argument builder (\<open>pto_types.h\<close>), task descriptors, payloads and slot states (\<open>pto_runtime2_types.h\<close>), and the
  shared memory header with its layout (\<open>pto_shared_memory.h\<close>, \<open>shared/pto_shared_memory.cpp\<close>).

  A pointer to a slot state is the pair of its ring and its slot; the payload and the descriptor of a slot are bound
  to it for ever, so the same pair names them. A pointer to a dependency entry is the pair of a ring and an index into
  the dependency pool of that ring. Task counters are integers: they never get near \<open>2 ^ 31\<close> in a run the code
  supports. Atomic loads and stores are reads and writes; a section under \<open>fanout_lock\<close> is one step.
\<close>

text \<open>Conversion to a 16-bit signed integer.\<close>

definition to_i16 :: "int \<Rightarrow> int" where
  "to_i16 i = sint (of_int i :: 16 word)"

subsection \<open>Error codes (pto_runtime_status.h)\<close>

definition PTO2_ERROR_NONE :: int where "PTO2_ERROR_NONE = 0"
definition PTO2_ERROR_SCOPE_DEADLOCK :: int where "PTO2_ERROR_SCOPE_DEADLOCK = 1"
definition PTO2_ERROR_HEAP_RING_DEADLOCK :: int where "PTO2_ERROR_HEAP_RING_DEADLOCK = 2"
definition PTO2_ERROR_FLOW_CONTROL_DEADLOCK :: int where "PTO2_ERROR_FLOW_CONTROL_DEADLOCK = 3"
definition PTO2_ERROR_DEP_POOL_OVERFLOW :: int where "PTO2_ERROR_DEP_POOL_OVERFLOW = 4"
definition PTO2_ERROR_INVALID_ARGS :: int where "PTO2_ERROR_INVALID_ARGS = 5"
definition PTO2_ERROR_REQUIRE_SYNC_START_INVALID :: int where "PTO2_ERROR_REQUIRE_SYNC_START_INVALID = 7"

definition runtime_status_from_error_codes :: "int \<Rightarrow> int \<Rightarrow> int" where
  "runtime_status_from_error_codes orch_error_code sched_error_code =
     (if orch_error_code \<noteq> PTO2_ERROR_NONE
      then (if orch_error_code < 0 then orch_error_code else - orch_error_code)
      else if sched_error_code \<noteq> PTO2_ERROR_NONE
      then (if sched_error_code < 0 then sched_error_code else - sched_error_code)
      else 0)"

text \<open>\<open>compare_exchange_strong\<close> from "no error": the first code is kept.\<close>

definition latch_pool_error :: "int \<Rightarrow> int \<Rightarrow> int" where
  "latch_pool_error code error_code = (if code = PTO2_ERROR_NONE then error_code else code)"

subsection \<open>Arguments of a submission (pto_types.h)\<close>

definition MAX_TENSOR_ARGS :: nat where "MAX_TENSOR_ARGS = 16"
definition MAX_SCALAR_ARGS :: nat where "MAX_SCALAR_ARGS = 32"

record PTO2LaunchSpec =
  block_num :: int
  require_sync_start :: bool

datatype TensorRef = TensorPtr Tensor | CreateInfo TensorCreateInfo

record Arg =
  arg_tensors :: "(TensorArgType \<times> TensorRef) list"
  arg_scalars :: "u64 list"
  has_error :: bool
  error_msg :: "string option"
  launch_spec :: PTO2LaunchSpec
  explicit_deps :: "PTO2TaskId list option"

definition new_arg :: Arg where
  "new_arg = \<lparr>arg_tensors = [], arg_scalars = [], has_error = False, error_msg = None,
     launch_spec = \<lparr>block_num = 1, require_sync_start = False\<rparr>, explicit_deps = None\<rparr>"

definition arg_reset :: "Arg \<Rightarrow> Arg" where
  "arg_reset a = a\<lparr>arg_tensors := [], arg_scalars := [], has_error := False, error_msg := None, explicit_deps := None\<rparr>"

definition set_error :: "string \<Rightarrow> Arg \<Rightarrow> Arg" where
  "set_error msg a = (if has_error a then a else a\<lparr>has_error := True, error_msg := Some msg\<rparr>)"

text \<open>The check before adding \<open>n\<close> tensors: the argument with the error recorded, and whether to go on.\<close>

definition check_add_tensor_valid :: "nat \<Rightarrow> Arg \<Rightarrow> Arg \<times> bool" where
  "check_add_tensor_valid n a =
     (if arg_scalars a \<noteq> []
      then (set_error (''add_input/add_output/add_inout called after add_scalar: ''
                       @ ''all tensors must be added before any scalars'') a, False)
      else if length (arg_tensors a) + n > MAX_TENSOR_ARGS
      then (set_error ''Too many tensor args (exceeds MAX_TENSOR_ARGS=16)'' a, False)
      else (a, True))"

definition add_refs :: "TensorArgType \<Rightarrow> TensorRef list \<Rightarrow> Arg \<Rightarrow> Arg" where
  "add_refs tag refs a =
     (case check_add_tensor_valid (length refs) a of
        (a', ok) \<Rightarrow> if ok then a'\<lparr>arg_tensors := arg_tensors a' @ map (Pair tag) refs\<rparr> else a')"

definition add_input :: "Tensor list \<Rightarrow> Arg \<Rightarrow> Arg" where
  "add_input ts = add_refs INPUT (map TensorPtr ts)"

definition add_output_create :: "TensorCreateInfo list \<Rightarrow> Arg \<Rightarrow> Arg" where
  "add_output_create cis = add_refs OUTPUT (map CreateInfo cis)"

definition add_output_existing :: "Tensor list \<Rightarrow> Arg \<Rightarrow> Arg" where
  "add_output_existing ts = add_refs OUTPUT_EXISTING (map TensorPtr ts)"

definition add_inout :: "Tensor list \<Rightarrow> Arg \<Rightarrow> Arg" where
  "add_inout ts = add_refs INOUT (map TensorPtr ts)"

definition add_no_dep :: "Tensor list \<Rightarrow> Arg \<Rightarrow> Arg" where
  "add_no_dep ts = add_refs NO_DEP (map TensorPtr ts)"

text \<open>A null array is \<open>None\<close>; a count of zero clears the dependencies.\<close>

definition set_dependencies :: "PTO2TaskId list option \<Rightarrow> nat \<Rightarrow> Arg \<Rightarrow> Arg" where
  "set_dependencies deps cnt a =
     (if cnt = 0 then a\<lparr>explicit_deps := None\<rparr>
      else case deps of
          None \<Rightarrow> set_error ''set_dependencies: deps must not be null when count > 0'' a
        | Some ds \<Rightarrow>
            if explicit_deps a \<noteq> None then set_error ''set_dependencies: may be called at most once per Arg'' a
            else a\<lparr>explicit_deps := Some (take cnt ds)\<rparr>)"

definition explicit_dep_list :: "Arg \<Rightarrow> PTO2TaskId list" where
  "explicit_dep_list a = (case explicit_deps a of None \<Rightarrow> [] | Some ds \<Rightarrow> ds)"

definition too_many_scalars :: string where
  "too_many_scalars = ''Too many scalar args (exceeds MAX_SCALAR_ARGS=32)''"

definition add_scalars :: "u64 list \<Rightarrow> Arg \<Rightarrow> Arg" where
  "add_scalars vs a =
     (if length (arg_scalars a) + length vs > MAX_SCALAR_ARGS then set_error too_many_scalars a
      else a\<lparr>arg_scalars := arg_scalars a @ vs\<rparr>)"

definition add_scalars_i32 :: "u32 list \<Rightarrow> Arg \<Rightarrow> Arg" where
  "add_scalars_i32 vs a =
     (if length (arg_scalars a) + length vs > MAX_SCALAR_ARGS then set_error too_many_scalars a
      else a\<lparr>arg_scalars := arg_scalars a @ map ucast vs\<rparr>)"

definition copy_scalars_from :: "Arg \<Rightarrow> nat \<Rightarrow> nat \<Rightarrow> Arg \<Rightarrow> Arg" where
  "copy_scalars_from src src_offset cnt a =
     (if src_offset + cnt > length (arg_scalars src)
      then set_error ''Source scalar range out of bounds in copy_scalars_from'' a
      else if length (arg_scalars a) + cnt > MAX_SCALAR_ARGS then set_error too_many_scalars a
      else a\<lparr>arg_scalars := arg_scalars a @ take cnt (drop src_offset (arg_scalars src))\<rparr>)"

record TaskOutputTensors =
  out_task_id :: PTO2TaskId
  out_tensors :: "Tensor list"

definition no_outputs :: TaskOutputTensors where
  "no_outputs = \<lparr>out_task_id = tid_invalid, out_tensors = []\<rparr>"

definition materialize_output :: "Tensor \<Rightarrow> TaskOutputTensors \<Rightarrow> exn + TaskOutputTensors" where
  "materialize_output t r =
     (if length (out_tensors r) < MAX_TENSOR_ARGS then Inr (r\<lparr>out_tensors := out_tensors r @ [t]\<rparr>)
      else Inl (assert_failed ''output_count_ < MAX_TENSOR_ARGS''))"

definition get_ref :: "nat \<Rightarrow> TaskOutputTensors \<Rightarrow> exn + Tensor" where
  "get_ref i r = (if i < length (out_tensors r) then Inr (out_tensors r ! i) else Inl (assert_failed ''index < output_count_''))"

subsection \<open>Tasks (pto_runtime2_types.h)\<close>

type_synonym slot_ref = "nat \<times> nat"
type_synonym dep_ref = "nat \<times> nat"

definition PTO2_TASK_WINDOW_SIZE :: nat where "PTO2_TASK_WINDOW_SIZE = 16384"
definition PTO2_HEAP_SIZE :: u64 where "PTO2_HEAP_SIZE = 256 * 1024 * 1024"
definition PTO2_DEP_LIST_POOL_SIZE :: nat where "PTO2_DEP_LIST_POOL_SIZE = 16384"
definition PTO2_MAX_SCOPE_DEPTH :: int where "PTO2_MAX_SCOPE_DEPTH = 64"
definition PTO2_READY_QUEUE_SIZE :: nat where "PTO2_READY_QUEUE_SIZE = 65536"
definition PTO2_WRIRING_QUEUE_SIZE :: nat where "PTO2_WRIRING_QUEUE_SIZE = 1024"

datatype PTO2TaskState = PTO2_TASK_PENDING | PTO2_TASK_COMPLETED | PTO2_TASK_CONSUMED

text \<open>Heap pointers are addresses, null is 0. A failed allocation has task id and slot \<open>-1\<close>.\<close>

record PTO2TaskAllocResult =
  ta_task_id :: int
  ta_slot :: int
  ta_packed_base :: u64
  ta_packed_end :: u64

definition alloc_failed :: "PTO2TaskAllocResult \<Rightarrow> bool" where
  "alloc_failed r \<longleftrightarrow> ta_task_id r < 0"

text \<open>One offset and one size per argument, zero where the argument is not an output.\<close>

record PTO2OutputLayout =
  ol_offsets :: "u64 list"
  ol_buffer_sizes :: "u64 list"
  ol_total_output_size :: int

record PTO2DepListEntry =
  de_slot_state :: "slot_ref option"
  de_next :: "dep_ref option"

record PTO2TaskDescriptor =
  td_task_id :: PTO2TaskId
  td_kernel_id :: "int list"
  td_packed_base :: u64
  td_packed_end :: u64

text \<open>
  \<open>pl_spill_pool\<close> is the ring whose spill pool the payload points to. The inline fanin array keeps its 64 cells.
\<close>

record PTO2TaskPayload =
  pl_fanin_count :: int
  pl_spill_start :: int
  pl_spill_pool :: "nat option"
  pl_inline :: "slot_ref option list"
  pl_tensors :: "Tensor list"
  pl_scalars :: "u64 list"

record PTO2TaskSlotState =
  ss_fanout_lock :: int
  ss_fanout_count :: int
  ss_fanout_head :: "dep_ref option"
  ss_task_state :: PTO2TaskState
  ss_fanin_refcount :: int
  ss_fanin_count :: int
  ss_fanout_refcount :: int
  ss_active_mask :: u8
  ss_ring_id :: nat
  ss_dep_pool_mark :: int
  ss_completed_subtasks :: int
  ss_total_required :: int
  ss_block_num :: int
  ss_next_block_idx :: int

definition reset_for_reuse :: "PTO2TaskSlotState \<Rightarrow> PTO2TaskSlotState" where
  "reset_for_reuse s = s\<lparr>ss_fanout_lock := 0, ss_fanout_count := 1, ss_fanout_head := None, ss_fanin_refcount := 0,
     ss_fanout_refcount := 0, ss_completed_subtasks := 0, ss_next_block_idx := 0\<rparr>"

text \<open>
  The tensors of a payload. An output tensor is created at its offset in the packed buffer, takes the task as owner and
  is appended to the result; filling it with an initial value writes the heap, which is given as its base address and
  its bytes. A tensor where a create info is expected, or the other way round, would be read through the wrong
  member of a union.
\<close>

fun init_tensors ::
  "u64 \<Rightarrow> PTO2TaskAllocResult \<Rightarrow> ((TensorArgType \<times> TensorRef) \<times> (u64 \<times> u64)) list
    \<Rightarrow> Tensor list \<times> TaskOutputTensors \<times> bytes \<Rightarrow> exn + Tensor list \<times> TaskOutputTensors \<times> bytes" where
  "init_tensors heap_base ar [] acc = Inr acc"
| "init_tensors heap_base ar (((tag, ref), (off, bsize)) # rest) (ts, result, heap) =
     (case ref of
        TensorPtr t \<Rightarrow>
          if tag = OUTPUT then Inl UndefinedBehaviour
          else init_tensors heap_base ar rest (ts @ [t], result, heap)
      | CreateInfo ci \<Rightarrow>
          if tag \<noteq> OUTPUT then Inl UndefinedBehaviour
          else let addr = ta_packed_base ar + off; at = unat (addr - heap_base)
               in (case init_from_create_info ci addr bsize (drop at heap) of
                     Inl ex \<Rightarrow> Inl ex
                   | Inr (t, mem) \<Rightarrow>
                       let t' = t\<lparr>tn_owner := out_task_id result\<rparr>
                       in (case materialize_output t' result of
                             Inl ex \<Rightarrow> Inl ex
                           | Inr result' \<Rightarrow>
                               init_tensors heap_base ar rest (ts @ [t'], result', take at heap @ mem))))"

definition payload_init ::
  "u64 \<Rightarrow> Arg \<Rightarrow> PTO2TaskAllocResult \<Rightarrow> PTO2OutputLayout \<Rightarrow> PTO2TaskPayload \<Rightarrow> TaskOutputTensors \<times> bytes
    \<Rightarrow> exn + PTO2TaskPayload \<times> TaskOutputTensors \<times> bytes" where
  "payload_init heap_base args ar lay p rm =
     (case init_tensors heap_base ar (zip (arg_tensors args) (zip (ol_offsets lay) (ol_buffer_sizes lay)))
             ([], fst rm, snd rm) of
        Inl ex \<Rightarrow> Inl ex
      | Inr (ts, result, heap) \<Rightarrow>
          Inr (p\<lparr>pl_tensors := ts, pl_scalars := arg_scalars args\<rparr>, result, heap))"

subsection \<open>The shared memory header (pto_shared_memory.h)\<close>

record PTO2SharedMemoryRingHeader =
  rh_current_task_index :: int
  rh_last_task_alive :: int
  rh_window :: nat
  rh_heap_size :: u64
  rh_descriptors_offset :: u64
  rh_descriptors :: "PTO2TaskDescriptor list"
  rh_payloads :: "PTO2TaskPayload list"
  rh_slots :: "PTO2TaskSlotState list"

record PTO2SharedMemoryHeader =
  sh_rings :: "PTO2SharedMemoryRingHeader list"
  sh_orchestrator_done :: bool
  sh_total_size :: u64
  sh_graph_output_ptr :: u64
  sh_graph_output_size :: u64
  sh_orch_error_code :: int
  sh_sched_error_bitmap :: u32
  sh_sched_error_code :: int
  sh_sched_error_thread :: int

definition fc_init :: "PTO2SharedMemoryRingHeader \<Rightarrow> PTO2SharedMemoryRingHeader" where
  "fc_init r = r\<lparr>rh_current_task_index := 0, rh_last_task_alive := 0\<rparr>"

definition slot_by_task_id :: "PTO2SharedMemoryRingHeader \<Rightarrow> int \<Rightarrow> nat" where
  "slot_by_task_id r local_id = slot_of (rh_window r) (i32 local_id)"

definition get_slot :: "slot_ref \<Rightarrow> PTO2SharedMemoryHeader \<Rightarrow> PTO2TaskSlotState" where
  "get_slot p H = rh_slots (sh_rings H ! fst p) ! snd p"

definition upd_ring :: "nat \<Rightarrow> (PTO2SharedMemoryRingHeader \<Rightarrow> PTO2SharedMemoryRingHeader) \<Rightarrow> PTO2SharedMemoryHeader
    \<Rightarrow> PTO2SharedMemoryHeader" where
  "upd_ring r f H = H\<lparr>sh_rings := (sh_rings H)[r := f (sh_rings H ! r)]\<rparr>"

definition upd_slot_state :: "slot_ref \<Rightarrow> (PTO2TaskSlotState \<Rightarrow> PTO2TaskSlotState) \<Rightarrow> PTO2SharedMemoryHeader
    \<Rightarrow> PTO2SharedMemoryHeader" where
  "upd_slot_state p f = upd_ring (fst p) (\<lambda>r. r\<lparr>rh_slots := (rh_slots r)[snd p := f (rh_slots r ! snd p)]\<rparr>)"

definition get_payload :: "slot_ref \<Rightarrow> PTO2SharedMemoryHeader \<Rightarrow> PTO2TaskPayload" where
  "get_payload p H = rh_payloads (sh_rings H ! fst p) ! snd p"

definition upd_payload :: "slot_ref \<Rightarrow> (PTO2TaskPayload \<Rightarrow> PTO2TaskPayload) \<Rightarrow> PTO2SharedMemoryHeader
    \<Rightarrow> PTO2SharedMemoryHeader" where
  "upd_payload p f = upd_ring (fst p) (\<lambda>r. r\<lparr>rh_payloads := (rh_payloads r)[snd p := f (rh_payloads r ! snd p)]\<rparr>)"

definition upd_descriptor :: "slot_ref \<Rightarrow> (PTO2TaskDescriptor \<Rightarrow> PTO2TaskDescriptor) \<Rightarrow> PTO2SharedMemoryHeader
    \<Rightarrow> PTO2SharedMemoryHeader" where
  "upd_descriptor p f =
     upd_ring (fst p) (\<lambda>r. r\<lparr>rh_descriptors := (rh_descriptors r)[snd p := f (rh_descriptors r ! snd p)]\<rparr>)"

end
