(* ===== verification/L2Memory.thy ===== *)
theory L2Memory
  imports L2Shared SlabRing
begin

text \<open>
  Layout and initialisation of the shared memory block (\<open>shared/pto_shared_memory.cpp\<close>): the header, then for each
  ring its task descriptors, payloads and slot states, every array rounded up to a cache line. The sizes of the
  structs are those of a 64-bit target; the sources pin most of them by \<open>static_assert\<close>. Addresses are 64-bit words,
  as is every size computation. The allocation of the block is a parameter; the printing of the layout is left out.
\<close>

definition sizeof_header :: u64 where "sizeof_header = 832"
definition sizeof_descriptor :: u64 where "sizeof_descriptor = 40"
definition sizeof_payload :: u64 where "sizeof_payload = 2880"
definition sizeof_slot_state :: u64 where "sizeof_slot_state = 64"

definition array_bytes :: "u64 \<Rightarrow> u64 \<Rightarrow> u64" where
  "array_bytes n elem = PTO2_ALIGN_UP (n * elem) PTO2_ALIGN_SIZE"

definition header_bytes :: u64 where
  "header_bytes = PTO2_ALIGN_UP sizeof_header PTO2_ALIGN_SIZE"

fun ring_bytes :: "u64 \<Rightarrow> u64 list \<Rightarrow> u64" where
  "ring_bytes acc [] = acc"
| "ring_bytes acc (w # ws) =
     ring_bytes (acc + array_bytes w sizeof_descriptor + array_bytes w sizeof_payload + array_bytes w sizeof_slot_state) ws"

definition calculate_size_per_ring :: "u64 list \<Rightarrow> u64" where
  "calculate_size_per_ring windows = ring_bytes (0 + header_bytes) windows"

definition calculate_size :: "u64 \<Rightarrow> u64" where
  "calculate_size w = calculate_size_per_ring (replicate PTO2_MAX_RING_DEPTH w)"

text \<open>The three array pointers of every ring.\<close>

fun setup_rings :: "u64 \<Rightarrow> u64 list \<Rightarrow> (u64 \<times> u64 \<times> u64) list" where
  "setup_rings ptr [] = []"
| "setup_rings ptr (w # ws) =
     (let descs = ptr; ptr = ptr + array_bytes w sizeof_descriptor;
          pays = ptr; ptr = ptr + array_bytes w sizeof_payload;
          slots = ptr; ptr = ptr + array_bytes w sizeof_slot_state
      in (descs, pays, slots) # setup_rings ptr ws)"

definition setup_pointers_per_ring :: "u64 \<Rightarrow> u64 list \<Rightarrow> (u64 \<times> u64 \<times> u64) list" where
  "setup_pointers_per_ring sm_base windows = setup_rings (sm_base + header_bytes) windows"

definition setup_pointers :: "u64 \<Rightarrow> u64 \<Rightarrow> (u64 \<times> u64 \<times> u64) list" where
  "setup_pointers sm_base w = setup_pointers_per_ring sm_base (replicate PTO2_MAX_RING_DEPTH w)"

fun init_ring_layout :: "u64 \<Rightarrow> (u64 \<times> u64) list \<Rightarrow> PTO2SharedMemoryRingHeader list \<Rightarrow> PTO2SharedMemoryRingHeader list" where
  "init_ring_layout off ((w, hs) # ws) (r # rs) =
     r\<lparr>rh_window := unat w, rh_heap_size := hs, rh_descriptors_offset := off\<rparr>
     # init_ring_layout (off + array_bytes w sizeof_descriptor + array_bytes w sizeof_payload
                             + array_bytes w sizeof_slot_state) ws rs"
| "init_ring_layout off _ rs = rs"

definition init_header_per_ring :: "u64 \<Rightarrow> u64 list \<Rightarrow> u64 list \<Rightarrow> PTO2SharedMemoryHeader \<Rightarrow> PTO2SharedMemoryHeader" where
  "init_header_per_ring sm_size windows heap_sizes H =
     H\<lparr>sh_rings := init_ring_layout header_bytes (zip windows heap_sizes) (map fc_init (sh_rings H)),
       sh_orchestrator_done := False, sh_total_size := sm_size,
       sh_graph_output_ptr := 0, sh_graph_output_size := 0, sh_orch_error_code := PTO2_ERROR_NONE,
       sh_sched_error_bitmap := 0, sh_sched_error_code := PTO2_ERROR_NONE, sh_sched_error_thread := - 1\<rparr>"

definition init_header :: "u64 \<Rightarrow> u64 \<Rightarrow> u64 \<Rightarrow> PTO2SharedMemoryHeader \<Rightarrow> PTO2SharedMemoryHeader" where
  "init_header sm_size w heap_size =
     init_header_per_ring sm_size (replicate PTO2_MAX_RING_DEPTH w) (replicate PTO2_MAX_RING_DEPTH heap_size)"

record PTO2SharedMemoryHandle =
  sm_base :: u64
  sm_size :: u64
  sm_header :: PTO2SharedMemoryHeader
  sm_pointers :: "(u64 \<times> u64 \<times> u64) list"
  sm_is_owner :: bool

text \<open>What zeroed memory of a block with windows of \<open>w\<close> tasks reads as.\<close>

definition zero_descriptor :: PTO2TaskDescriptor where
  "zero_descriptor = \<lparr>td_task_id = \<lparr>raw = 0\<rparr>, td_kernel_id = [0, 0, 0], td_packed_base = 0, td_packed_end = 0\<rparr>"

definition zero_payload :: PTO2TaskPayload where
  "zero_payload = \<lparr>pl_fanin_count = 0, pl_spill_start = 0, pl_spill_pool = None,
     pl_inline = replicate PTO2_FANIN_INLINE_CAP None, pl_tensors = [], pl_scalars = []\<rparr>"

definition zero_slot_state :: PTO2TaskSlotState where
  "zero_slot_state = \<lparr>ss_fanout_lock = 0, ss_fanout_count = 0, ss_fanout_head = None, ss_task_state = PTO2_TASK_PENDING,
     ss_fanin_refcount = 0, ss_fanin_count = 0, ss_fanout_refcount = 0, ss_active_mask = 0, ss_ring_id = 0,
     ss_dep_pool_mark = 0, ss_completed_subtasks = 0, ss_total_required = 0, ss_block_num = 0, ss_next_block_idx = 0\<rparr>"

definition zero_ring :: "nat \<Rightarrow> PTO2SharedMemoryRingHeader" where
  "zero_ring w = \<lparr>rh_current_task_index = 0, rh_last_task_alive = 0, rh_window = 0, rh_heap_size = 0,
     rh_descriptors_offset = 0, rh_descriptors = replicate w zero_descriptor, rh_payloads = replicate w zero_payload,
     rh_slots = replicate w zero_slot_state\<rparr>"

definition zero_header :: "nat \<Rightarrow> PTO2SharedMemoryHeader" where
  "zero_header w = \<lparr>sh_rings = replicate PTO2_MAX_RING_DEPTH (zero_ring w), sh_orchestrator_done = False, sh_total_size = 0,
     sh_graph_output_ptr = 0, sh_graph_output_size = 0, sh_orch_error_code = 0, sh_sched_error_bitmap = 0,
     sh_sched_error_code = 0, sh_sched_error_thread = 0\<rparr>"

text \<open>\<open>handle_ok\<close> is whether the handle could be allocated, \<open>block\<close> the address of the block or a failure.\<close>

definition sm_create :: "bool \<Rightarrow> u64 option \<Rightarrow> u64 \<Rightarrow> u64 \<Rightarrow> PTO2SharedMemoryHandle option" where
  "sm_create handle_ok block w heap_size =
     (if \<not> handle_ok then None
      else let bsize = calculate_size w
           in case block of
                None \<Rightarrow> None
              | Some base \<Rightarrow>
                  Some \<lparr>sm_base = base, sm_size = bsize, sm_header = init_header bsize w heap_size (zero_header (unat w)),
                        sm_pointers = setup_pointers base w, sm_is_owner = True\<rparr>)"

definition sm_create_default :: "bool \<Rightarrow> u64 option \<Rightarrow> PTO2SharedMemoryHandle option" where
  "sm_create_default handle_ok block = sm_create handle_ok block (of_nat PTO2_TASK_WINDOW_SIZE) PTO2_HEAP_SIZE"

text \<open>\<open>old\<close> is what the buffer holds before; the arrays of the rings are not cleared.\<close>

definition sm_create_from_buffer ::
  "bool \<Rightarrow> PTO2SharedMemoryHeader \<Rightarrow> u64 \<Rightarrow> u64 \<Rightarrow> u64 \<Rightarrow> u64 \<Rightarrow> PTO2SharedMemoryHandle option" where
  "sm_create_from_buffer handle_ok old base bsize w heap_size =
     (if base = 0 \<or> bsize = 0 then None
      else if bsize < calculate_size w then None
      else if \<not> handle_ok then None
      else Some \<lparr>sm_base = base, sm_size = bsize, sm_header = init_header bsize w heap_size old,
                 sm_pointers = setup_pointers base w, sm_is_owner = False\<rparr>)"

definition fc_validate :: "PTO2SharedMemoryHandle \<Rightarrow> int \<Rightarrow> bool" where
  "fc_validate h ring_id \<longleftrightarrow>
     0 \<le> ring_id \<and> ring_id < int PTO2_MAX_RING_DEPTH
     \<and> (let r = sh_rings (sm_header h) ! nat ring_id
        in rh_descriptors_offset r < sh_total_size (sm_header h)
         \<and> fst (sm_pointers h ! nat ring_id) mod PTO2_ALIGN_SIZE = 0
         \<and> rh_current_task_index r \<ge> 0 \<and> rh_last_task_alive r \<ge> 0)"

definition sm_validate :: "PTO2SharedMemoryHandle \<Rightarrow> bool" where
  "sm_validate h \<longleftrightarrow> sm_base h \<noteq> 0 \<and> list_all (\<lambda>r. fc_validate h (int r)) [0 ..< PTO2_MAX_RING_DEPTH]"

end
