(* ===== verification/L2Chains.thy ===== *)
theory L2Chains
  imports Main
begin

text \<open>
  Doubly linked chains through a pool, stated on the functions that give the successor and the predecessor of a cell.
  \<open>linked n p q h xs\<close>: following \<open>n\<close> from \<open>h\<close> visits exactly \<open>xs\<close>, and \<open>p\<close> leads back, from the first cell to \<open>q\<close>. The two
  operations of an intrusive list are the insertion at the head and the removal of a cell through its own links.
\<close>

primrec linked :: "('a \<Rightarrow> 'a option) \<Rightarrow> ('a \<Rightarrow> 'a option) \<Rightarrow> 'a option \<Rightarrow> 'a option \<Rightarrow> 'a list \<Rightarrow> bool" where
  "linked n p q h [] \<longleftrightarrow> h = None"
| "linked n p q h (x # xs) \<longleftrightarrow> h = Some x \<and> p x = q \<and> linked n p (Some x) (n x) xs"

text \<open>Following the successors only.\<close>

primrec follows :: "('a \<Rightarrow> 'a option) \<Rightarrow> 'a option \<Rightarrow> 'a list \<Rightarrow> bool" where
  "follows n h [] \<longleftrightarrow> h = None"
| "follows n h (x # xs) \<longleftrightarrow> h = Some x \<and> follows n (n x) xs"

lemma linked_follows: "linked n p q h xs \<Longrightarrow> follows n h xs"
  by (induction xs arbitrary: q h) auto

lemma linked_cong:
  "(\<And>x. x \<in> set xs \<Longrightarrow> n' x = n x \<and> p' x = p x) \<Longrightarrow> linked n' p' q h xs = linked n p q h xs"
  by (induction xs arbitrary: q h) auto

lemma follows_cong: "(\<And>x. x \<in> set xs \<Longrightarrow> n' x = n x) \<Longrightarrow> follows n' h xs = follows n h xs"
  by (induction xs arbitrary: h) auto

lemma linked_head: "linked n p q h xs \<Longrightarrow> h = (if xs = [] then None else Some (hd xs))"
  by (cases xs) auto

lemma linked_in: "linked n p q (Some y) xs \<Longrightarrow> y \<in> set xs"
  by (cases xs) auto

lemma linked_next: "linked n p q h xs \<Longrightarrow> x \<in> set xs \<Longrightarrow> n x = Some y \<Longrightarrow> y \<in> set xs"
  by (induction xs arbitrary: q h) (auto dest: linked_in)

lemma linked_prev:
  "linked n p q h xs \<Longrightarrow> x \<in> set xs \<Longrightarrow> p x = (if x = hd xs \<and> distinct xs then q else p x)"
  by (cases xs) auto

lemma linked_prev_in:
  "linked n p q h xs \<Longrightarrow> x \<in> set xs \<Longrightarrow> distinct xs \<Longrightarrow> x \<noteq> hd xs \<Longrightarrow> \<exists>y \<in> set xs. p x = Some y"
proof (induction xs arbitrary: q h)
  case (Cons a xs)
  then show ?case
    by (cases xs) (auto 4 3)
qed simp

definition push_prev :: "('a \<Rightarrow> 'a option) \<Rightarrow> 'a option \<Rightarrow> 'a \<Rightarrow> 'a \<Rightarrow> 'a option" where
  "push_prev p h i = (case h of None \<Rightarrow> p | Some y \<Rightarrow> p(y := Some i))(i := None)"

lemma linked_push:
  assumes "linked n p None h xs" and "i \<notin> set xs" and "distinct xs"
  shows "linked (n(i := h)) (push_prev p h i) None (Some i) (i # xs)"
proof (cases xs)
  case Nil
  then show ?thesis
    using assms by (simp add: push_prev_def)
next
  case (Cons y ys)
  have "linked (n(i := h)) (push_prev p h i) (Some y) (n y) ys = linked n p (Some y) (n y) ys"
    using assms Cons by (intro linked_cong) (auto simp: push_prev_def)
  then show ?thesis
    using assms Cons by (auto simp: push_prev_def)
qed

text \<open>Removal of \<open>i\<close>: its neighbours are joined, and a removed first cell leaves its successor as the head.\<close>

definition cut_next :: "('a \<Rightarrow> 'a option) \<Rightarrow> ('a \<Rightarrow> 'a option) \<Rightarrow> 'a \<Rightarrow> 'a \<Rightarrow> 'a option" where
  "cut_next n p i = (case p i of None \<Rightarrow> n | Some a \<Rightarrow> n(a := n i))"

definition cut_prev :: "('a \<Rightarrow> 'a option) \<Rightarrow> ('a \<Rightarrow> 'a option) \<Rightarrow> 'a \<Rightarrow> 'a \<Rightarrow> 'a option" where
  "cut_prev n p i = (case n i of None \<Rightarrow> p | Some y \<Rightarrow> p(y := p i))"

definition cut_head :: "('a \<Rightarrow> 'a option) \<Rightarrow> ('a \<Rightarrow> 'a option) \<Rightarrow> 'a option \<Rightarrow> 'a \<Rightarrow> 'a option" where
  "cut_head n p h i = (case p i of None \<Rightarrow> n i | Some _ \<Rightarrow> h)"

lemma linked_cut_first:
  assumes "linked n p (Some i) (n i) xs" and "i \<notin> set xs" and "distinct xs"
    and "\<And>x. x \<in> set xs \<Longrightarrow> n' x = n x"
  shows "linked n' (cut_prev n p i) (p i) (n i) xs"
proof (cases xs)
  case Nil
  then show ?thesis
    using assms by simp
next
  case (Cons y ys)
  have "linked n' (cut_prev n p i) (Some y) (n y) ys = linked n p (Some y) (n y) ys"
    using assms Cons by (intro linked_cong) (auto simp: cut_prev_def)
  then show ?thesis
    using assms Cons by (auto simp: cut_prev_def)
qed

lemma linked_cut_after:
  assumes "linked n p (Some a) h xs" and "i \<in> set xs" and "distinct (a # xs)"
  shows "linked (cut_next n p i) (cut_prev n p i) (Some a) (if hd xs = i then n i else h) (remove1 i xs)"
  using assms
proof (induction xs arbitrary: a h)
  case (Cons x xs)
  show ?case
  proof (cases "x = i")
    case True
    have "linked (cut_next n p i) (cut_prev n p i) (p i) (n i) xs"
      using Cons.prems True by (intro linked_cut_first) (auto simp: cut_next_def)
    then show ?thesis
      using Cons.prems True by simp
  next
    case False
    then have i: "i \<in> set xs" and lx: "linked n p (Some x) (n x) xs"
      using Cons.prems by auto
    have "linked (cut_next n p i) (cut_prev n p i) (Some x) (if hd xs = i then n i else n x) (remove1 i xs)"
      using Cons.IH [OF lx i] Cons.prems by simp
    moreover have "cut_next n p i x = (if hd xs = i then n i else n x)"
      using lx i Cons.prems linked_prev_in [OF lx i]
      by (cases xs) (auto simp: cut_next_def split: option.splits)
    moreover have "cut_prev n p i x = p x"
      using lx i Cons.prems linked_next [OF lx i] by (auto simp: cut_prev_def split: option.splits)
    ultimately show ?thesis
      using Cons.prems False by auto
  qed
qed simp

lemma linked_cut:
  assumes l: "linked n p None h xs" and i: "i \<in> set xs" and d: "distinct xs"
  shows "linked (cut_next n p i) (cut_prev n p i) None (cut_head n p h i) (remove1 i xs)"
proof (cases xs)
  case Nil
  then show ?thesis
    using i by simp
next
  case (Cons x ys)
  show ?thesis
  proof (cases "x = i")
    case True
    then have "linked (cut_next n p i) (cut_prev n p i) (p i) (n i) ys"
      using assms Cons by (intro linked_cut_first) (auto simp: cut_next_def)
    then show ?thesis
      using assms Cons True by (simp add: cut_head_def)
  next
    case False
    then have iy: "i \<in> set ys" and ly: "linked n p (Some x) (n x) ys"
      using assms Cons by auto
    have "linked (cut_next n p i) (cut_prev n p i) (Some x) (if hd ys = i then n i else n x) (remove1 i ys)"
      using linked_cut_after [OF ly iy] d Cons by simp
    moreover have "cut_next n p i x = (if hd ys = i then n i else n x)"
      using ly iy d Cons linked_prev_in [OF ly iy]
      by (cases ys) (auto simp: cut_next_def split: option.splits)
    moreover have "cut_prev n p i x = p x"
      using ly iy d Cons linked_next [OF ly iy] by (auto simp: cut_prev_def split: option.splits)
    moreover have "\<exists>y. p i = Some y"
      using ly iy d Cons linked_prev_in [OF ly iy] by (cases ys) auto
    ultimately show ?thesis
      using l Cons False by (auto simp: cut_head_def)
  qed
qed

text \<open>Cells of other chains keep their links.\<close>

lemma cut_next_other: "linked n p None h xs \<Longrightarrow> i \<in> set xs \<Longrightarrow> distinct xs \<Longrightarrow> x \<notin> set xs \<Longrightarrow> cut_next n p i x = n x"
  by (cases "i = hd xs") (auto simp: cut_next_def split: option.splits dest: linked_prev_in linked_prev)

lemma cut_prev_other: "linked n p None h xs \<Longrightarrow> i \<in> set xs \<Longrightarrow> x \<notin> set xs \<Longrightarrow> cut_prev n p i x = p x"
  by (auto simp: cut_prev_def split: option.splits dest: linked_next)

lemma push_prev_other: "linked n p None h xs \<Longrightarrow> x \<notin> set xs \<Longrightarrow> x \<noteq> i \<Longrightarrow> push_prev p h i x = p x"
  by (cases xs) (auto simp: push_prev_def split: option.splits)

end
