(* ===== verification/L2TensorMapInv.thy ===== *)
theory L2TensorMapInv
  imports L2TensorMap L2Chains
begin

text \<open>
  The representation invariant of the device tensor map: the chains of the hash buckets and of the tasks, as lists of
  pool indices, and how they agree with each other and with the free list. Every operation keeps it; insertion,
  removal and cleanup act on the chains as the corresponding list operations.
\<close>

subsection \<open>Fields of entries\<close>

abbreviation nbk :: "PTO2TensorMap \<Rightarrow> nat \<Rightarrow> nat option" where "nbk M i \<equiv> te_next_in_bucket (tm_pool M ! i)"
abbreviation pbk :: "PTO2TensorMap \<Rightarrow> nat \<Rightarrow> nat option" where "pbk M i \<equiv> te_prev_in_bucket (tm_pool M ! i)"
abbreviation ntk :: "PTO2TensorMap \<Rightarrow> nat \<Rightarrow> nat option" where "ntk M i \<equiv> te_next_in_task (tm_pool M ! i)"
abbreviation ptk :: "PTO2TensorMap \<Rightarrow> nat \<Rightarrow> nat option" where "ptk M i \<equiv> te_prev_in_task (tm_pool M ! i)"
abbreviation bkt :: "PTO2TensorMap \<Rightarrow> nat \<Rightarrow> int" where "bkt M i \<equiv> te_bucket_index (tm_pool M ! i)"

definition te_ring :: "PTO2TensorMapEntry \<Rightarrow> nat" where
  "te_ring e = unat (tid_ring (te_producer e))"

definition te_slot :: "PTO2TensorMap \<Rightarrow> PTO2TensorMapEntry \<Rightarrow> nat" where
  "te_slot M e = slot_of (tm_windows M ! te_ring e) (tid_local (te_producer e))"

text \<open>An entry without its links and its bucket.\<close>

definition content :: "PTO2TensorMapEntry \<Rightarrow> PTO2TensorMapEntry" where
  "content e = e\<lparr>te_next_in_bucket := None, te_prev_in_bucket := None, te_next_in_task := None, te_prev_in_task := None,
     te_bucket_index := 0\<rparr>"

lemma content_simps [simp]:
  "content (e\<lparr>te_next_in_bucket := a\<rparr>) = content e" "content (e\<lparr>te_prev_in_bucket := a\<rparr>) = content e"
  "content (e\<lparr>te_next_in_task := a\<rparr>) = content e" "content (e\<lparr>te_prev_in_task := a\<rparr>) = content e"
  "content (e\<lparr>te_bucket_index := c\<rparr>) = content e" "content (content e) = content e"
  by (simp_all add: content_def)

lemma content_fields [simp]:
  "te_producer (content e) = te_producer e" "te_buffer_addr (content e) = te_buffer_addr e"
  "te_ring (content e) = te_ring e" "te_slot M (content e) = te_slot M e"
  by (simp_all add: content_def te_ring_def te_slot_def)

lemma content_eqD:
  assumes "content e = content f"
  shows "te_producer e = te_producer f" "te_buffer_addr e = te_buffer_addr f" "te_ring e = te_ring f" "te_slot M e = te_slot M f"
  using assms by (metis content_fields)+

lemma check_overlap_content: "check_overlap dbg t (content e) = check_overlap dbg t e"
  by (simp add: check_overlap_def content_def effective_extent_elem_def Let_def cong: if_cong)

lemma entry_valid_content: "entry_valid (content e) M = entry_valid e M"
  by (simp add: entry_valid_def)

lemma pool_upd_entry [simp]:
  "x < length (tm_pool M) \<Longrightarrow> tm_pool (upd_entry j f M) ! x = (if x = j then f (tm_pool M ! x) else tm_pool M ! x)"
  "length (tm_pool (upd_entry j f M)) = length (tm_pool M)"
  by (auto simp: upd_entry_def)

lemma pool_upd_opt [simp]:
  "x < length (tm_pool M) \<Longrightarrow> tm_pool (upd_opt p f M) ! x = (if p = Some x then f (tm_pool M ! x) else tm_pool M ! x)"
  "length (tm_pool (upd_opt p f M)) = length (tm_pool M)"
  by (auto simp: upd_opt_def split: option.splits)

lemma upd_entry_frame [simp]:
  "tm_buckets (upd_entry j f M) = tm_buckets M" "tm_num_buckets (upd_entry j f M) = tm_num_buckets M"
  "tm_free (upd_entry j f M) = tm_free M" "tm_next_entry_idx (upd_entry j f M) = tm_next_entry_idx M"
  "tm_task_heads (upd_entry j f M) = tm_task_heads M" "tm_windows (upd_entry j f M) = tm_windows M"
  "tm_last_alives (upd_entry j f M) = tm_last_alives M" "tm_last_cleanup (upd_entry j f M) = tm_last_cleanup M"
  by (simp_all add: upd_entry_def)

lemma upd_opt_frame [simp]:
  "tm_buckets (upd_opt p f M) = tm_buckets M" "tm_num_buckets (upd_opt p f M) = tm_num_buckets M"
  "tm_free (upd_opt p f M) = tm_free M" "tm_next_entry_idx (upd_opt p f M) = tm_next_entry_idx M"
  "tm_task_heads (upd_opt p f M) = tm_task_heads M" "tm_windows (upd_opt p f M) = tm_windows M"
  "tm_last_alives (upd_opt p f M) = tm_last_alives M" "tm_last_cleanup (upd_opt p f M) = tm_last_cleanup M"
  by (simp_all add: upd_opt_def split: option.splits)

subsection \<open>The invariant\<close>

text \<open>What never changes after initialisation.\<close>

definition tm_geo :: "PTO2TensorMap \<Rightarrow> bool" where
  "tm_geo M \<longleftrightarrow> (\<exists>k. 0 < k \<and> k < 32 \<and> tm_num_buckets M = 2 ^ k) \<and> length (tm_buckets M) = tm_num_buckets M
     \<and> length (tm_windows M) = PTO2_MAX_RING_DEPTH \<and> length (tm_task_heads M) = PTO2_MAX_RING_DEPTH
     \<and> length (tm_last_alives M) = PTO2_MAX_RING_DEPTH \<and> length (tm_last_cleanup M) = PTO2_MAX_RING_DEPTH
     \<and> (\<forall>r < PTO2_MAX_RING_DEPTH. length (tm_task_heads M ! r) = tm_windows M ! r \<and> (\<exists>j < 31. tm_windows M ! r = 2 ^ j))"

text \<open>The registered entries.\<close>

definition registered :: "PTO2TensorMap \<Rightarrow> nat set" where
  "registered M = {i. i < length (tm_pool M) \<and> bkt M i \<noteq> - 1}"

definition buckets_ok :: "(nat \<Rightarrow> nat list) \<Rightarrow> PTO2TensorMap \<Rightarrow> bool" where
  "buckets_ok B M \<longleftrightarrow>
     (\<forall>b < tm_num_buckets M. linked (nbk M) (pbk M) None (tm_buckets M ! b) (B b) \<and> distinct (B b))"

text \<open>The chains in \<open>X\<close> are being taken apart: only their membership matters.\<close>

definition tasks_ok :: "(nat \<times> nat) set \<Rightarrow> (nat \<Rightarrow> nat \<Rightarrow> nat list) \<Rightarrow> PTO2TensorMap \<Rightarrow> bool" where
  "tasks_ok X T M \<longleftrightarrow>
     (\<forall>r < PTO2_MAX_RING_DEPTH. \<forall>s < tm_windows M ! r.
        distinct (T r s) \<and> ((r, s) \<notin> X \<longrightarrow> linked (ntk M) (ptk M) None (tm_task_heads M ! r ! s) (T r s)))"

definition members_ok :: "(nat \<Rightarrow> nat list) \<Rightarrow> (nat \<Rightarrow> nat \<Rightarrow> nat list) \<Rightarrow> PTO2TensorMap \<Rightarrow> bool" where
  "members_ok B T M \<longleftrightarrow>
     (\<forall>b < tm_num_buckets M. \<forall>i. i \<in> set (B b) \<longleftrightarrow> i < length (tm_pool M) \<and> bkt M i = int b)
   \<and> (\<forall>r < PTO2_MAX_RING_DEPTH. \<forall>s < tm_windows M ! r. \<forall>i.
        i \<in> set (T r s) \<longleftrightarrow> i \<in> registered M \<and> te_ring (tm_pool M ! i) = r \<and> te_slot M (tm_pool M ! i) = s)"

definition entries_ok :: "PTO2TensorMap \<Rightarrow> bool" where
  "entries_ok M \<longleftrightarrow> (\<forall>i < length (tm_pool M). bkt M i \<noteq> - 1 \<longrightarrow>
     i < tm_next_entry_idx M \<and> te_ring (tm_pool M ! i) < PTO2_MAX_RING_DEPTH
     \<and> (\<exists>b < tm_num_buckets M. bkt M i = int b \<and> hash_index (te_buffer_addr (tm_pool M ! i)) M = Inr b))"

definition free_ok :: "PTO2TensorMap \<Rightarrow> bool" where
  "free_ok M \<longleftrightarrow> tm_next_entry_idx M \<le> length (tm_pool M) \<and> distinct (tm_free M)
     \<and> (\<forall>i. i \<in> set (tm_free M) \<longleftrightarrow> i < tm_next_entry_idx M \<and> bkt M i = - 1)"

definition tm_rep :: "(nat \<times> nat) set \<Rightarrow> (nat \<Rightarrow> nat list) \<Rightarrow> (nat \<Rightarrow> nat \<Rightarrow> nat list) \<Rightarrow> PTO2TensorMap \<Rightarrow> bool" where
  "tm_rep X B T M \<longleftrightarrow> tm_geo M \<and> buckets_ok B M \<and> tasks_ok X T M \<and> members_ok B T M \<and> entries_ok M \<and> free_ok M"

definition tm_inv :: "PTO2TensorMap \<Rightarrow> bool" where
  "tm_inv M \<longleftrightarrow> (\<exists>B T. tm_rep {} B T M)"

lemma slot_of_mod: "w = 2 ^ j \<Longrightarrow> slot_of w l = unat l mod w"
  by (simp add: slot_of_def flip: mask_eq_exp_minus_1 take_bit_eq_mask)
    (subst unsigned_take_bit_eq, rule take_bit_eq_mod)

lemma slot_of_less: "w = 2 ^ j \<Longrightarrow> slot_of w l < w"
  by (simp add: slot_of_mod)

lemma ctz_pow2: "ctz (2 ^ k) = k"
  by (induction k) (subst ctz.simps; simp)+

lemma hash_index_ok:
  assumes "tm_geo M"
  shows "\<exists>b < tm_num_buckets M. hash_index key M = Inr b"
proof -
  obtain k where k: "0 < k" "k < 32" "tm_num_buckets M = 2 ^ k"
    using assms by (auto simp: tm_geo_def)
  let ?x = "key * 0x9E3779B97F4A7C15"
  have "2 \<le> (2 :: nat) ^ k"
    using k(1) by (cases k) auto
  then have h: "hash_index key M = Inr (unat (ucast (drop_bit (64 - k) ?x) :: u32))"
    by (simp add: hash_index_def k(3) ctz_pow2)
  have "unat (ucast (drop_bit (64 - k) ?x) :: u32) \<le> unat (drop_bit (64 - k) ?x)"
    by (simp add: unsigned_ucast_eq take_bit_eq_mod)
  also have "\<dots> = unat ?x div 2 ^ (64 - k)"
    by (subst unat_drop_bit_eq) (rule drop_bit_eq_div)
  also have "\<dots> < 2 ^ k"
  proof (rule less_mult_imp_div_less)
    have "(2 :: nat) ^ k * 2 ^ (64 - k) = 2 ^ 64"
      using k(2) by (simp flip: power_add)
    then show "unat ?x < 2 ^ k * 2 ^ (64 - k)"
      using unsigned_less [where ?'a = nat, of ?x] by simp
  qed
  finally show ?thesis
    using h k(3) by auto
qed

lemma hash_index_frame: "tm_num_buckets M' = tm_num_buckets M \<Longrightarrow> hash_index key M' = hash_index key M"
  by (simp add: hash_index_def)

lemma te_slot_less:
  assumes "tm_geo M" and "te_ring e < PTO2_MAX_RING_DEPTH"
  shows "te_slot M e < tm_windows M ! te_ring e"
  using assms by (auto simp: tm_geo_def te_slot_def intro: slot_of_less)

text \<open>The chain of a bucket and of a task are those of the invariant.\<close>

lemma rep_bucket:
  assumes "tm_rep X B T M" and "b < tm_num_buckets M"
  shows "linked (nbk M) (pbk M) None (tm_buckets M ! b) (B b)" "distinct (B b)"
    "\<And>i. i \<in> set (B b) \<longleftrightarrow> i < length (tm_pool M) \<and> bkt M i = int b"
  using assms unfolding tm_rep_def buckets_ok_def members_ok_def by blast+

lemma rep_task:
  assumes "tm_rep X B T M" and "r < PTO2_MAX_RING_DEPTH" and "s < tm_windows M ! r"
  shows "distinct (T r s)"
    "\<And>i. i \<in> set (T r s) \<longleftrightarrow> i \<in> registered M \<and> te_ring (tm_pool M ! i) = r \<and> te_slot M (tm_pool M ! i) = s"
    "(r, s) \<notin> X \<Longrightarrow> linked (ntk M) (ptk M) None (tm_task_heads M ! r ! s) (T r s)"
  using assms unfolding tm_rep_def tasks_ok_def members_ok_def by blast+

lemma rep_registered:
  assumes "tm_rep X B T M" and "i \<in> registered M"
  obtains b where "b < tm_num_buckets M" "bkt M i = int b" "i \<in> set (B b)" "i < length (tm_pool M)"
    "hash_index (te_buffer_addr (tm_pool M ! i)) M = Inr b" "te_ring (tm_pool M ! i) < PTO2_MAX_RING_DEPTH"
    "te_slot M (tm_pool M ! i) < tm_windows M ! te_ring (tm_pool M ! i)"
    "i \<in> set (T (te_ring (tm_pool M ! i)) (te_slot M (tm_pool M ! i)))"
proof -
  have i: "i < length (tm_pool M)" "bkt M i \<noteq> - 1"
    using assms(2) by (auto simp: registered_def)
  have geo: "tm_geo M" and e: "entries_ok M"
    using assms(1) by (simp_all add: tm_rep_def)
  then obtain b where b: "b < tm_num_buckets M" "bkt M i = int b" "hash_index (te_buffer_addr (tm_pool M ! i)) M = Inr b"
    and r: "te_ring (tm_pool M ! i) < PTO2_MAX_RING_DEPTH"
    using i by (auto simp: entries_ok_def)
  note s = te_slot_less [OF geo r]
  show ?thesis
    by (rule that [OF b(1,2) _ i(1) b(3) r s]) (use rep_bucket(3) [OF assms(1) b(1)] rep_task(2) [OF assms(1) r s] assms(2) i b in auto)
qed

lemma tm_geo_frame:
  assumes "tm_geo M" and "tm_num_buckets M' = tm_num_buckets M" and "length (tm_buckets M') = length (tm_buckets M)"
    and "tm_windows M' = tm_windows M" and "map length (tm_task_heads M') = map length (tm_task_heads M)"
    and "length (tm_last_alives M') = length (tm_last_alives M)" and "length (tm_last_cleanup M') = length (tm_last_cleanup M)"
  shows "tm_geo M'"
proof -
  have "length (tm_task_heads M') = length (tm_task_heads M)"
    using assms(5) by (metis length_map)
  moreover have "\<And>r. r < length (tm_task_heads M) \<Longrightarrow> length (tm_task_heads M' ! r) = length (tm_task_heads M ! r)"
    using assms(5) calculation by (metis nth_map)
  ultimately show ?thesis
    using assms by (simp add: tm_geo_def)
qed

lemma heads_lengths:
  "map length (hs[r := (hs ! r)[s := x]]) = map length hs"
  by (rule nth_equalityI) (auto simp: nth_list_update_if)

subsection \<open>Linking an entry\<close>

lemma link_entry_effect:
  assumes i: "i < length (tm_pool M)" and b: "hash_index addr M = Inr b" and r: "unat (tid_ring producer) = r" "r < PTO2_MAX_RING_DEPTH"
    and s: "slot_of (tm_windows M ! r) (tid_local producer) = s"
    and fresh: "tm_buckets M ! b \<noteq> Some i" "tm_task_heads M ! r ! s \<noteq> Some i"
  obtains M' where "link_entry i addr producer M = (Inr (), M')"
    "length (tm_pool M') = length (tm_pool M)"
    "\<And>x. x < length (tm_pool M) \<Longrightarrow> nbk M' x = ((nbk M)(i := tm_buckets M ! b)) x"
    "\<And>x. x < length (tm_pool M) \<Longrightarrow> pbk M' x = push_prev (pbk M) (tm_buckets M ! b) i x"
    "\<And>x. x < length (tm_pool M) \<Longrightarrow> ntk M' x = ((ntk M)(i := tm_task_heads M ! r ! s)) x"
    "\<And>x. x < length (tm_pool M) \<Longrightarrow> ptk M' x = push_prev (ptk M) (tm_task_heads M ! r ! s) i x"
    "\<And>x. x < length (tm_pool M) \<Longrightarrow> x \<noteq> i \<Longrightarrow> content (tm_pool M' ! x) = content (tm_pool M ! x) \<and> bkt M' x = bkt M x"
    "content (tm_pool M' ! i) = content ((tm_pool M ! i)\<lparr>te_producer := producer\<rparr>)" "bkt M' i = int b"
    "tm_buckets M' = (tm_buckets M)[b := Some i]"
    "tm_task_heads M' = (tm_task_heads M)[r := (tm_task_heads M ! r)[s := Some i]]"
    "tm_num_buckets M' = tm_num_buckets M" "tm_windows M' = tm_windows M" "tm_free M' = tm_free M"
    "tm_next_entry_idx M' = tm_next_entry_idx M" "tm_last_alives M' = tm_last_alives M" "tm_last_cleanup M' = tm_last_cleanup M"
proof -
  define bh th where "bh = tm_buckets M ! b" and "th = tm_task_heads M ! r ! s"
  define M' where "M' = snd (link_entry i addr producer M)"
  have e: "link_entry i addr producer M = (Inr (), M')"
    using r s by (simp add: M'_def link_entry_def b Let_def)
  note unf = M'_def link_entry_def b Let_def r(1) s
  have c: "bh \<noteq> Some i" "th \<noteq> Some i"
    using fresh by (simp_all add: bh_def th_def)
  show ?thesis
  proof (rule that [OF e])
    fix x
    assume x: "x < length (tm_pool M)"
    show "nbk M' x = ((nbk M)(i := tm_buckets M ! b)) x"
      using x r(2) by (simp add: unf)
    show "pbk M' x = push_prev (pbk M) (tm_buckets M ! b) i x"
      using x r(2) fresh by (auto simp: unf push_prev_def split: option.splits)
    show "ntk M' x = ((ntk M)(i := tm_task_heads M ! r ! s)) x"
      using x r(2) by (simp add: unf)
    show "ptk M' x = push_prev (ptk M) (tm_task_heads M ! r ! s) i x"
      using x r(2) fresh by (auto simp: unf push_prev_def split: option.splits)
    show "x \<noteq> i \<Longrightarrow> content (tm_pool M' ! x) = content (tm_pool M ! x) \<and> bkt M' x = bkt M x"
      using x r(2) by (simp add: unf)
  qed (use i r(2) in \<open>simp_all add: unf content_def\<close>)
qed

lemma rep_parts:
  assumes "tm_rep X B T M"
  shows "tm_geo M" "buckets_ok B M" "tasks_ok X T M" "members_ok B T M" "entries_ok M" "free_ok M"
  using assms by (simp_all add: tm_rep_def)

lemma new_entry_ok:
  assumes rep: "tm_rep X B T M" and room: "tm_free M \<noteq> [] \<or> tm_next_entry_idx M < length (tm_pool M)"
  obtains i fr nx where "new_entry dbg M = (Inr i, M\<lparr>tm_free := fr, tm_next_entry_idx := nx\<rparr>)" "i < nx" "nx \<le> length (tm_pool M)"
    "tm_next_entry_idx M \<le> nx" "bkt M i = - 1" "distinct fr" "\<And>j. j \<in> set fr \<longleftrightarrow> j < nx \<and> bkt M j = - 1 \<and> j \<noteq> i"
proof -
  have fr: "tm_next_entry_idx M \<le> length (tm_pool M)" "distinct (tm_free M)"
    "\<And>j. j \<in> set (tm_free M) \<longleftrightarrow> j < tm_next_entry_idx M \<and> bkt M j = - 1"
    and en: "\<And>j. j < length (tm_pool M) \<Longrightarrow> bkt M j \<noteq> - 1 \<Longrightarrow> j < tm_next_entry_idx M"
    using rep_parts [OF rep] by (auto simp: free_ok_def entries_ok_def)
  show ?thesis
  proof (cases "tm_free M")
    case Nil
    then have n: "tm_next_entry_idx M < length (tm_pool M)"
      using room by simp
    moreover have "bkt M (tm_next_entry_idx M) = - 1"
      using en [OF n] by auto
    moreover have "\<not> (j < tm_next_entry_idx M \<and> bkt M j = - 1)" for j
      using fr(3) Nil by auto
    ultimately show ?thesis
      using Nil by (intro that [where i = "tm_next_entry_idx M" and fr = "[]" and nx = "tm_next_entry_idx M + 1"])
        (auto simp: new_entry_def Let_def less_Suc_eq)
  next
    case (Cons i rest)
    then have "i < tm_next_entry_idx M" "bkt M i = - 1" "i \<notin> set rest" "distinct rest"
      using fr(2,3) by auto
    moreover have "j \<in> set rest \<longleftrightarrow> j < tm_next_entry_idx M \<and> bkt M j = - 1 \<and> j \<noteq> i" for j
      using fr(2,3) Cons by auto
    ultimately show ?thesis
      using Cons fr(1) by (intro that [where i = i and fr = rest and nx = "tm_next_entry_idx M"]) (auto simp: new_entry_def)
  qed
qed

lemma new_entry_full:
  "tm_free M = [] \<Longrightarrow> \<not> tm_next_entry_idx M < length (tm_pool M) \<Longrightarrow>
   new_entry dbg M = (Inl (assert_failed ''next_entry_idx < pool_size''), M)"
  by (simp add: new_entry_def)

lemma copy_from_tensor_frame [simp]:
  "te_next_in_bucket (copy_from_tensor t e) = te_next_in_bucket e" "te_prev_in_bucket (copy_from_tensor t e) = te_prev_in_bucket e"
  "te_next_in_task (copy_from_tensor t e) = te_next_in_task e" "te_prev_in_task (copy_from_tensor t e) = te_prev_in_task e"
  "te_bucket_index (copy_from_tensor t e) = te_bucket_index e" "te_buffer_addr (copy_from_tensor t e) = buf_addr (tn_buffer t)"
  by (simp_all add: copy_from_tensor_def Let_def)

text \<open>What a registration of tensor \<open>t\<close> by \<open>producer\<close> stores.\<close>

definition reg_entry :: "Tensor \<Rightarrow> PTO2TaskId \<Rightarrow> PTO2TensorMapEntry" where
  "reg_entry t producer = content ((copy_from_tensor t empty_entry)\<lparr>te_producer := producer\<rparr>)"

lemma content_copy: "content ((copy_from_tensor t e)\<lparr>te_producer := producer\<rparr>) = reg_entry t producer"
  by (simp add: reg_entry_def copy_from_tensor_def content_def Let_def)

lemma reg_entry_fields [simp]:
  "te_producer (reg_entry t p) = p" "te_buffer_addr (reg_entry t p) = buf_addr (tn_buffer t)" "te_ring (reg_entry t p) = unat (tid_ring p)"
  "te_slot M (reg_entry t p) = slot_of (tm_windows M ! unat (tid_ring p)) (tid_local p)"
  by (simp_all add: reg_entry_def te_ring_def te_slot_def)

subsection \<open>Insertion\<close>

text \<open>What an operation keeps of the rest of the map.\<close>

definition tm_frame :: "PTO2TensorMap \<Rightarrow> PTO2TensorMap \<Rightarrow> bool" where
  "tm_frame M M' \<longleftrightarrow> tm_num_buckets M' = tm_num_buckets M \<and> tm_windows M' = tm_windows M
     \<and> length (tm_buckets M') = length (tm_buckets M) \<and> map length (tm_task_heads M') = map length (tm_task_heads M)
     \<and> length (tm_pool M') = length (tm_pool M) \<and> tm_last_alives M' = tm_last_alives M \<and> tm_last_cleanup M' = tm_last_cleanup M"

lemma tm_frame_refl [simp]: "tm_frame M M"
  by (simp add: tm_frame_def)

lemma tm_frame_trans: "tm_frame M M' \<Longrightarrow> tm_frame M' M'' \<Longrightarrow> tm_frame M M''"
  by (simp add: tm_frame_def)

lemma tm_frame_geo: "tm_frame M M' \<Longrightarrow> tm_geo M \<Longrightarrow> tm_geo M'"
  by (rule tm_geo_frame) (auto simp: tm_frame_def)

lemma tm_frame_entry:
  assumes "tm_frame M M'"
  shows "hash_index key M' = hash_index key M" "te_slot M' e = te_slot M e" "entry_valid e M' = entry_valid e M"
  using assms by (simp_all add: tm_frame_def hash_index_def te_slot_def entry_valid_def)

text \<open>\<open>M'\<close> is \<open>M\<close> with entry \<open>i\<close> pushed on bucket \<open>b\<close> and on the task chain \<open>(r, s)\<close>.\<close>

definition pushed :: "nat \<Rightarrow> nat \<Rightarrow> nat \<Rightarrow> nat \<Rightarrow> PTO2TensorMap \<Rightarrow> PTO2TensorMap \<Rightarrow> bool" where
  "pushed i b r s M M' \<longleftrightarrow> tm_frame M M' \<and> i < length (tm_pool M) \<and> bkt M i = - 1
     \<and> (\<forall>x < length (tm_pool M). nbk M' x = ((nbk M)(i := tm_buckets M ! b)) x
          \<and> pbk M' x = push_prev (pbk M) (tm_buckets M ! b) i x \<and> ntk M' x = ((ntk M)(i := tm_task_heads M ! r ! s)) x
          \<and> ptk M' x = push_prev (ptk M) (tm_task_heads M ! r ! s) i x
          \<and> (x \<noteq> i \<longrightarrow> content (tm_pool M' ! x) = content (tm_pool M ! x) \<and> bkt M' x = bkt M x))
     \<and> bkt M' i = int b \<and> hash_index (te_buffer_addr (tm_pool M' ! i)) M = Inr b
     \<and> te_ring (tm_pool M' ! i) = r \<and> te_slot M (tm_pool M' ! i) = s
     \<and> tm_buckets M' = (tm_buckets M)[b := Some i]
     \<and> tm_task_heads M' = (tm_task_heads M)[r := (tm_task_heads M ! r)[s := Some i]]
     \<and> distinct (tm_free M') \<and> i < tm_next_entry_idx M' \<and> tm_next_entry_idx M \<le> tm_next_entry_idx M'
     \<and> tm_next_entry_idx M' \<le> length (tm_pool M)
     \<and> (\<forall>j. j \<in> set (tm_free M') \<longleftrightarrow> j < tm_next_entry_idx M' \<and> bkt M j = - 1 \<and> j \<noteq> i)"

lemma insert_pushed:
  assumes rep: "tm_rep {} B T M" and ring: "unat (tid_ring producer) < PTO2_MAX_RING_DEPTH"
    and room: "tm_free M \<noteq> [] \<or> tm_next_entry_idx M < length (tm_pool M)"
  obtains i b s M' where "tensormap_insert dbg t producer M = (Inr (), M')" "b < tm_num_buckets M"
    "s < tm_windows M ! unat (tid_ring producer)"
    "pushed i b (unat (tid_ring producer)) s M M'" "content (tm_pool M' ! i) = reg_entry t producer"
proof -
  let ?r = "unat (tid_ring producer)"
  let ?s = "slot_of (tm_windows M ! ?r) (tid_local producer)"
  note geo = rep_parts(1) [OF rep]
  obtain i fr nx where new: "new_entry dbg M = (Inr i, M\<lparr>tm_free := fr, tm_next_entry_idx := nx\<rparr>)"
    and nx: "i < nx" "nx \<le> length (tm_pool M)" "tm_next_entry_idx M \<le> nx" and bi: "bkt M i = - 1"
    and fr: "distinct fr" "\<And>j. j \<in> set fr \<longleftrightarrow> j < nx \<and> bkt M j = - 1 \<and> j \<noteq> i"
    using new_entry_ok [OF rep room] by metis
  obtain b where b: "b < tm_num_buckets M" "hash_index (buf_addr (tn_buffer t)) M = Inr b"
    using hash_index_ok [OF geo] by blast
  have i: "i < length (tm_pool M)" "i \<notin> registered M"
    using nx bi by (auto simp: registered_def)
  have s: "?s < tm_windows M ! ?r"
    using geo ring by (auto simp: tm_geo_def intro: slot_of_less)
  note Bb = rep_bucket [OF rep b(1)] and Ts = rep_task [OF rep ring s]
  have ib: "i \<notin> set (B b)" and it: "i \<notin> set (T ?r ?s)"
    using Bb(3) bi Ts(2) i by auto
  define M2 where "M2 = upd_entry i (copy_from_tensor t) (M\<lparr>tm_free := fr, tm_next_entry_idx := nx\<rparr>)"
  have p2: "x < length (tm_pool M) \<Longrightarrow> tm_pool M2 ! x = (if x = i then copy_from_tensor t (tm_pool M ! x) else tm_pool M ! x)" for x
    by (simp add: M2_def)
  have M2: "length (tm_pool M2) = length (tm_pool M)" "tm_buckets M2 = tm_buckets M" "tm_task_heads M2 = tm_task_heads M"
    "tm_windows M2 = tm_windows M" "tm_num_buckets M2 = tm_num_buckets M" "tm_free M2 = fr" "tm_next_entry_idx M2 = nx"
    "tm_last_alives M2 = tm_last_alives M" "tm_last_cleanup M2 = tm_last_cleanup M"
    by (simp_all add: M2_def)
  have h2: "hash_index (buf_addr (tn_buffer t)) M2 = Inr b"
    using b(2) M2(5) hash_index_frame by metis
  have links2: "x < length (tm_pool M) \<Longrightarrow> nbk M2 x = nbk M x \<and> pbk M2 x = pbk M x \<and> ntk M2 x = ntk M x \<and> ptk M2 x = ptk M x" for x
    by (simp add: p2)
  have nh: "tm_buckets M2 ! b \<noteq> Some i" "tm_task_heads M2 ! ?r ! ?s \<noteq> Some i"
    using linked_in [of _ _ _ i "B b"] Bb(1) ib linked_in [of _ _ _ i "T ?r ?s"] Ts(3) it M2 by auto
  have s2: "slot_of (tm_windows M2 ! ?r) (tid_local producer) = ?s"
    by (simp add: M2)
  show ?thesis
  proof (rule link_entry_effect [OF _ h2 refl ring s2 nh])
    show "i < length (tm_pool M2)"
      using i M2 by simp
    fix M'
    assume link: "link_entry i (buf_addr (tn_buffer t)) producer M2 = (Inr (), M')"
      and body: "content (tm_pool M' ! i) = content ((tm_pool M2 ! i)\<lparr>te_producer := producer\<rparr>)"
    assume rest: "length (tm_pool M') = length (tm_pool M2)"
      "\<And>x. x < length (tm_pool M2) \<Longrightarrow> nbk M' x = ((nbk M2)(i := tm_buckets M2 ! b)) x"
      "\<And>x. x < length (tm_pool M2) \<Longrightarrow> pbk M' x = push_prev (pbk M2) (tm_buckets M2 ! b) i x"
      "\<And>x. x < length (tm_pool M2) \<Longrightarrow> ntk M' x = ((ntk M2)(i := tm_task_heads M2 ! ?r ! ?s)) x"
      "\<And>x. x < length (tm_pool M2) \<Longrightarrow> ptk M' x = push_prev (ptk M2) (tm_task_heads M2 ! ?r ! ?s) i x"
      "\<And>x. x < length (tm_pool M2) \<Longrightarrow> x \<noteq> i \<Longrightarrow> content (tm_pool M' ! x) = content (tm_pool M2 ! x) \<and> bkt M' x = bkt M2 x"
      "bkt M' i = int b" "tm_buckets M' = (tm_buckets M2)[b := Some i]"
      "tm_task_heads M' = (tm_task_heads M2)[?r := (tm_task_heads M2 ! ?r)[?s := Some i]]"
      "tm_num_buckets M' = tm_num_buckets M2" "tm_windows M' = tm_windows M2" "tm_free M' = tm_free M2"
      "tm_next_entry_idx M' = tm_next_entry_idx M2" "tm_last_alives M' = tm_last_alives M2" "tm_last_cleanup M' = tm_last_cleanup M2"
    have c: "content (tm_pool M' ! i) = reg_entry t producer"
      using body p2 [OF i(1)] by (simp add: content_copy)
    have ci: "te_ring (tm_pool M' ! i) = ?r" "te_slot M (tm_pool M' ! i) = ?s" "te_buffer_addr (tm_pool M' ! i) = buf_addr (tn_buffer t)"
      using c by (metis content_fields reg_entry_fields)+
    have "tensormap_insert dbg t producer M = (Inr (), M')"
      using link new by (simp add: tensormap_insert_def M2_def)
    moreover have "tm_frame M M'"
      using rest M2 by (simp add: tm_frame_def heads_lengths)
    moreover have "push_prev (pbk M2) h i x = push_prev (pbk M) h i x" "push_prev (ptk M2) h i x = push_prev (ptk M) h i x"
      if "x < length (tm_pool M)" for h x
      using links2 [OF that] by (auto simp: push_prev_def split: option.splits)
    ultimately show thesis
      using that [of M' b ?s i] b s c ci rest M2 links2 p2 nx bi fr i by (simp add: pushed_def)
  qed
qed

lemma pushedD:
  assumes "pushed i b r s M M'"
  shows "tm_frame M M'" "i < length (tm_pool M)" "bkt M i = - 1" "bkt M' i = int b"
    "hash_index (te_buffer_addr (tm_pool M' ! i)) M = Inr b" "te_ring (tm_pool M' ! i) = r" "te_slot M (tm_pool M' ! i) = s"
    "tm_buckets M' = (tm_buckets M)[b := Some i]"
    "tm_task_heads M' = (tm_task_heads M)[r := (tm_task_heads M ! r)[s := Some i]]"
    "\<And>x. x < length (tm_pool M) \<Longrightarrow> nbk M' x = ((nbk M)(i := tm_buckets M ! b)) x \<and> pbk M' x = push_prev (pbk M) (tm_buckets M ! b) i x"
    "\<And>x. x < length (tm_pool M) \<Longrightarrow>
       ntk M' x = ((ntk M)(i := tm_task_heads M ! r ! s)) x \<and> ptk M' x = push_prev (ptk M) (tm_task_heads M ! r ! s) i x"
    "\<And>x. x < length (tm_pool M) \<Longrightarrow> x \<noteq> i \<Longrightarrow> content (tm_pool M' ! x) = content (tm_pool M ! x) \<and> bkt M' x = bkt M x"
  using assms unfolding pushed_def by blast+

lemma pushed_bkt: "pushed i b r s M M' \<Longrightarrow> x < length (tm_pool M) \<Longrightarrow> bkt M' x = (if x = i then int b else bkt M x)"
  using pushedD(4,12) by metis

lemma pushed_registered:
  assumes "pushed i b r s M M'"
  shows "registered M' = insert i (registered M)"
proof -
  have "length (tm_pool M') = length (tm_pool M)"
    using pushedD(1) [OF assms] by (simp add: tm_frame_def)
  then show ?thesis
    using pushedD(2) [OF assms] pushed_bkt [OF assms] by (auto simp: registered_def split: if_splits)
qed

lemma pushed_buckets:
  assumes rep: "tm_rep {} B T M" and b: "b < tm_num_buckets M" and p: "pushed i b r s M M'"
  shows "buckets_ok (B(b := i # B b)) M'"
proof -
  note P = pushedD [OF p] and Bb = rep_bucket [OF rep b]
  have ib: "i \<notin> set (B b)"
    using Bb(3) P(3) by auto
  have len: "length (tm_buckets M) = tm_num_buckets M"
    using rep_parts(1) [OF rep] by (simp add: tm_geo_def)
  have "linked (nbk M') (pbk M') None (tm_buckets M' ! b) (i # B b)"
  proof (subst linked_cong)
    show "nbk M' x = ((nbk M)(i := tm_buckets M ! b)) x \<and> pbk M' x = push_prev (pbk M) (tm_buckets M ! b) i x"
      if "x \<in> set (i # B b)" for x
      using that Bb(3) [of x] P(2) by (intro P(10)) auto
    show "linked ((nbk M)(i := tm_buckets M ! b)) (push_prev (pbk M) (tm_buckets M ! b) i) None (tm_buckets M' ! b) (i # B b)"
      using linked_push [OF Bb(1) ib Bb(2)] b len P(8) by simp
  qed
  moreover have "linked (nbk M') (pbk M') None (tm_buckets M' ! c) (B c) \<and> distinct (B c)"
    if c: "c < tm_num_buckets M" "c \<noteq> b" for c
  proof -
    note Bc = rep_bucket [OF rep c(1)]
    have "nbk M' x = nbk M x \<and> pbk M' x = pbk M x" if x: "x \<in> set (B c)" for x
    proof -
      have "x \<notin> set (B b)" "x \<noteq> i" "x < length (tm_pool M)"
        using x c(2) Bc(3) [of x] Bb(3) [of x] P(3) by auto
      then show ?thesis
        using P(10) [of x] push_prev_other [OF Bb(1), of x i] by simp
    qed
    then have "linked (nbk M') (pbk M') None (tm_buckets M ! c) (B c)"
      using Bc(1) linked_cong [of "B c" "nbk M'" "nbk M" "pbk M'" "pbk M"] by blast
    then show ?thesis
      using Bc(2) c(2) P(8) by simp
  qed
  ultimately show ?thesis
    using ib Bb(2) P(1) by (auto simp: buckets_ok_def tm_frame_def)
qed

definition push_task :: "nat \<Rightarrow> nat \<Rightarrow> nat \<Rightarrow> (nat \<Rightarrow> nat \<Rightarrow> nat list) \<Rightarrow> nat \<Rightarrow> nat \<Rightarrow> nat list" where
  "push_task i r s T = T(r := (T r)(s := i # T r s))"

lemma pushed_tasks:
  assumes rep: "tm_rep {} B T M" and r: "r < PTO2_MAX_RING_DEPTH" and s: "s < tm_windows M ! r" and p: "pushed i b r s M M'"
  shows "tasks_ok {} (push_task i r s T) M'"
proof -
  note P = pushedD [OF p] and Ts = rep_task [OF rep r s]
  have reg: "i \<notin> registered M"
    using P(3) by (simp add: registered_def)
  then have it: "i \<notin> set (T r s)"
    using Ts(2) by auto
  have len: "length (tm_task_heads M) = PTO2_MAX_RING_DEPTH" "length (tm_task_heads M ! r) = tm_windows M ! r"
    using rep_parts(1) [OF rep] r by (auto simp: tm_geo_def)
  have in_pool: "x \<in> registered M \<Longrightarrow> x < length (tm_pool M)" for x
    by (simp add: registered_def)
  have "linked (ntk M') (ptk M') None (Some i) (i # T r s)"
  proof (subst linked_cong)
    show "ntk M' x = ((ntk M)(i := tm_task_heads M ! r ! s)) x \<and> ptk M' x = push_prev (ptk M) (tm_task_heads M ! r ! s) i x"
      if "x \<in> set (i # T r s)" for x
      using that Ts(2) [of x] in_pool [of x] P(2) by (intro P(11)) auto
    show "linked ((ntk M)(i := tm_task_heads M ! r ! s)) (push_prev (ptk M) (tm_task_heads M ! r ! s) i) None (Some i) (i # T r s)"
      using linked_push [OF Ts(3) it Ts(1)] by simp
  qed
  moreover have "linked (ntk M') (ptk M') None (tm_task_heads M ! q ! u) (T q u) \<and> distinct (T q u)"
    if q: "q < PTO2_MAX_RING_DEPTH" "u < tm_windows M ! q" "(q, u) \<noteq> (r, s)" for q u
  proof -
    note Tq = rep_task [OF rep q(1,2)]
    have "ntk M' x = ntk M x \<and> ptk M' x = ptk M x" if x: "x \<in> set (T q u)" for x
    proof -
      have "x \<notin> set (T r s)" "x \<noteq> i" "x < length (tm_pool M)"
        using x Tq(2) [of x] Ts(2) [of x] q(3) reg in_pool by auto
      then show ?thesis
        using P(11) [of x] push_prev_other [OF Ts(3), of x i] by simp
    qed
    then show ?thesis
      using Tq linked_cong [of "T q u" "ntk M'" "ntk M" "ptk M'" "ptk M"] by blast
  qed
  ultimately show ?thesis
    using P(1,9) it Ts(1) r s len by (auto simp: tasks_ok_def push_task_def tm_frame_def nth_list_update_if)
qed

lemma pushed_rep:
  assumes rep: "tm_rep {} B T M" and b: "b < tm_num_buckets M" and r: "r < PTO2_MAX_RING_DEPTH" and s: "s < tm_windows M ! r"
    and p: "pushed i b r s M M'"
  shows "tm_rep {} (B(b := i # B b)) (push_task i r s T) M'"
proof -
  note P = pushedD [OF p] and regs = pushed_registered [OF p]
  have num: "tm_num_buckets M' = tm_num_buckets M" "tm_windows M' = tm_windows M" "length (tm_pool M') = length (tm_pool M)"
    using P(1) by (simp_all add: tm_frame_def)
  have same: "te_ring (tm_pool M' ! x) = te_ring (tm_pool M ! x)" "te_slot M' (tm_pool M' ! x) = te_slot M (tm_pool M ! x)"
    "te_buffer_addr (tm_pool M' ! x) = te_buffer_addr (tm_pool M ! x)" "bkt M' x = bkt M x" if "x < length (tm_pool M)" "x \<noteq> i" for x
    using P(12) [OF that] content_eqD tm_frame_entry(2) [OF P(1)] by metis+
  have "members_ok (B(b := i # B b)) (push_task i r s T) M'"
    unfolding members_ok_def num
  proof (intro conjI allI impI)
    fix c x
    assume c: "c < tm_num_buckets M"
    show "x \<in> set ((B(b := i # B b)) c) \<longleftrightarrow> x < length (tm_pool M) \<and> bkt M' x = int c"
      using rep_bucket(3) [OF rep c, of x] rep_bucket(3) [OF rep b, of x] same(4) [of x] P(2,3,4) by (cases "x = i") auto
  next
    fix q u x
    assume q: "q < PTO2_MAX_RING_DEPTH" "u < tm_windows M ! q"
    have i: "te_ring (tm_pool M' ! i) = r" "te_slot M' (tm_pool M' ! i) = s"
      using P(6,7) tm_frame_entry(2) [OF P(1)] by simp_all
    show "x \<in> set (push_task i r s T q u) \<longleftrightarrow>
        x \<in> registered M' \<and> te_ring (tm_pool M' ! x) = q \<and> te_slot M' (tm_pool M' ! x) = u"
    proof (cases "x = i")
      case True
      moreover have "i \<notin> set (T q u)"
        using rep_task(2) [OF rep q, of i] P(3) by (simp add: registered_def)
      ultimately show ?thesis
        using i regs by (auto simp: push_task_def)
    next
      case False
      then have "x \<in> set (push_task i r s T q u) \<longleftrightarrow> x \<in> set (T q u)"
        by (simp add: push_task_def)
      also have "\<dots> \<longleftrightarrow> x \<in> registered M \<and> te_ring (tm_pool M ! x) = q \<and> te_slot M (tm_pool M ! x) = u"
        by (rule rep_task(2) [OF rep q])
      also have "\<dots> \<longleftrightarrow> x \<in> registered M \<and> te_ring (tm_pool M' ! x) = q \<and> te_slot M' (tm_pool M' ! x) = u"
        using same(1,2) [of x] False by (simp add: registered_def cong: conj_cong)
      finally show ?thesis
        using False regs by simp
    qed
  qed
  moreover have "entries_ok M'"
    unfolding entries_ok_def num
  proof (intro allI impI)
    fix x
    assume x: "x < length (tm_pool M)" "bkt M' x \<noteq> - 1"
    have nx: "i < tm_next_entry_idx M'" "tm_next_entry_idx M \<le> tm_next_entry_idx M'"
      using p by (simp_all add: pushed_def)
    show "x < tm_next_entry_idx M' \<and> te_ring (tm_pool M' ! x) < PTO2_MAX_RING_DEPTH \<and>
        (\<exists>b < tm_num_buckets M. bkt M' x = int b \<and> hash_index (te_buffer_addr (tm_pool M' ! x)) M' = Inr b)"
    proof (cases "x = i")
      case True
      then show ?thesis
        using nx P(4,5,6) b r tm_frame_entry(1) [OF P(1)] by auto
    next
      case False
      then show ?thesis
        using rep_parts(5) [OF rep] x same [OF x(1) False] nx(2) tm_frame_entry(1) [OF P(1)] by (fastforce simp: entries_ok_def)
    qed
  qed
  moreover have "free_ok M'"
  proof -
    have f: "distinct (tm_free M')" "tm_next_entry_idx M' \<le> length (tm_pool M)"
      "\<And>j. j \<in> set (tm_free M') \<longleftrightarrow> j < tm_next_entry_idx M' \<and> bkt M j = - 1 \<and> j \<noteq> i"
      using p by (simp_all add: pushed_def)
    have "j \<in> set (tm_free M') \<longleftrightarrow> j < tm_next_entry_idx M' \<and> bkt M' j = - 1" for j
      using f(2) f(3) [of j] pushed_bkt [OF p, of j] by (auto split: if_splits)
    then show ?thesis
      using f(1,2) num by (simp add: free_ok_def)
  qed
  ultimately show ?thesis
    using tm_frame_geo [OF P(1) rep_parts(1) [OF rep]] pushed_buckets [OF rep b p] pushed_tasks [OF rep r s p]
    by (simp add: tm_rep_def)
qed

end
