(* ===== verification/L2TensorMapCut.thy ===== *)
theory L2TensorMapCut
  imports L2TensorMapInv
begin

text \<open>
  Removal of entries from the device tensor map keeps its representation invariant: one entry taken out of both its
  chains, and the cleanup of the chains of retired tasks.
\<close>

subsection \<open>Removal\<close>

lemma free_entry_effect:
  assumes i: "i < length (tm_pool M)" and b: "bkt M i = int b" and ends: "nbk M i \<noteq> Some i" "pbk M i \<noteq> Some i"
  obtains M' where "free_entry i M = (Inr (), M')" "tm_frame M M'"
    "\<And>x. x < length (tm_pool M) \<Longrightarrow> x \<noteq> i \<Longrightarrow> nbk M' x = cut_next (nbk M) (pbk M) i x \<and> pbk M' x = cut_prev (nbk M) (pbk M) i x
       \<and> ntk M' x = ntk M x \<and> ptk M' x = ptk M x"
    "\<And>x. x < length (tm_pool M) \<Longrightarrow> content (tm_pool M' ! x) = content (tm_pool M ! x) \<and> bkt M' x = (if x = i then - 1 else bkt M x)"
    "tm_buckets M' = (tm_buckets M)[b := cut_head (nbk M) (pbk M) (tm_buckets M ! b) i]"
    "tm_task_heads M' = tm_task_heads M" "tm_free M' = i # tm_free M" "tm_next_entry_idx M' = tm_next_entry_idx M"
proof -
  define M' where "M' = snd (free_entry i M)"
  have e: "free_entry i M = (Inr (), M')"
    using b by (simp add: M'_def free_entry_def Let_def)
  note unf = M'_def free_entry_def Let_def b
  show ?thesis
  proof (rule that [OF e])
    show "tm_frame M M'"
      using b by (auto simp: unf tm_frame_def split: option.splits)
    show "nbk M' x = cut_next (nbk M) (pbk M) i x \<and> pbk M' x = cut_prev (nbk M) (pbk M) i x \<and> ntk M' x = ntk M x \<and> ptk M' x = ptk M x"
      if "x < length (tm_pool M)" "x \<noteq> i" for x
      using that ends by (auto simp: unf cut_next_def cut_prev_def split: option.splits)
    show "content (tm_pool M' ! x) = content (tm_pool M ! x) \<and> bkt M' x = (if x = i then - 1 else bkt M x)"
      if "x < length (tm_pool M)" for x
      using that ends by (auto simp: unf split: option.splits)
    show "tm_buckets M' = (tm_buckets M)[b := cut_head (nbk M) (pbk M) (tm_buckets M ! b) i]"
      by (auto simp: unf cut_head_def split: option.splits)
    show "tm_task_heads M' = tm_task_heads M" "tm_free M' = i # tm_free M" "tm_next_entry_idx M' = tm_next_entry_idx M"
      by (auto simp: unf split: option.splits)
  qed
qed

lemma linked_not_self: "linked n p None h xs \<Longrightarrow> distinct xs \<Longrightarrow> i \<in> set xs \<Longrightarrow> n i \<noteq> Some i \<and> p i \<noteq> Some i"
proof (induction xs arbitrary: h)
  case (Cons x xs)
  have "\<And>q h. linked n p q h xs \<Longrightarrow> distinct xs \<Longrightarrow> q \<notin> Some ` set xs \<Longrightarrow> i \<in> set xs \<Longrightarrow> n i \<noteq> Some i \<and> p i \<noteq> Some i" for xs
  proof -
    show "\<And>q h. linked n p q h xs \<Longrightarrow> distinct xs \<Longrightarrow> q \<notin> Some ` set xs \<Longrightarrow> i \<in> set xs \<Longrightarrow> n i \<noteq> Some i \<and> p i \<noteq> Some i"
      by (induction xs) (auto dest: linked_in)
  qed
  then show ?case
    using Cons.prems by blast
qed simp

text \<open>Freeing an entry whose task chain is being taken apart.\<close>

definition cut_all :: "nat \<Rightarrow> ('b \<Rightarrow> nat list) \<Rightarrow> 'b \<Rightarrow> nat list" where
  "cut_all i C = (\<lambda>c. remove1 i (C c))"

definition freed :: "nat \<Rightarrow> PTO2TensorMap \<Rightarrow> PTO2TensorMap \<Rightarrow> bool" where
  "freed i M M' \<longleftrightarrow> tm_frame M M' \<and> tm_task_heads M' = tm_task_heads M
     \<and> (\<forall>x < length (tm_pool M). content (tm_pool M' ! x) = content (tm_pool M ! x)
          \<and> (x \<noteq> i \<longrightarrow> ntk M' x = ntk M x \<and> ptk M' x = ptk M x))
     \<and> registered M' = registered M - {i}"

lemma cut_all_mem: "distinct (C c) \<Longrightarrow> x \<in> set (cut_all i C c) \<longleftrightarrow> x \<in> set (C c) \<and> x \<noteq> i"
  by (auto simp: cut_all_def)

lemma cut_all_other: "i \<notin> set (C c) \<Longrightarrow> cut_all i C c = C c"
  by (simp add: cut_all_def remove1_idem)

lemma cut_buckets:
  assumes rep: "tm_rep X B T M" and b: "b < tm_num_buckets M" "bkt M i = int b" and i: "i < length (tm_pool M)" and fr: "tm_frame M M'"
    and links: "\<And>x. x < length (tm_pool M) \<Longrightarrow> x \<noteq> i \<Longrightarrow> nbk M' x = cut_next (nbk M) (pbk M) i x \<and> pbk M' x = cut_prev (nbk M) (pbk M) i x"
    and heads: "tm_buckets M' = (tm_buckets M)[b := cut_head (nbk M) (pbk M) (tm_buckets M ! b) i]"
  shows "buckets_ok (cut_all i B) M'"
  unfolding buckets_ok_def
proof (intro allI impI)
  fix c
  assume "c < tm_num_buckets M'"
  then have c: "c < tm_num_buckets M"
    using fr by (simp add: tm_frame_def)
  note Bb = rep_bucket [OF rep b(1)] and Bc = rep_bucket [OF rep c]
  have ib: "i \<in> set (B b)" and len: "length (tm_buckets M) = tm_num_buckets M"
    using Bb(3) i b rep_parts(1) [OF rep] by (auto simp: tm_geo_def)
  show "linked (nbk M') (pbk M') None (tm_buckets M' ! c) (cut_all i B c) \<and> distinct (cut_all i B c)"
  proof (cases "c = b")
    case True
    have "linked (nbk M') (pbk M') None (tm_buckets M' ! b) (remove1 i (B b))"
    proof (subst linked_cong)
      show "nbk M' x = cut_next (nbk M) (pbk M) i x \<and> pbk M' x = cut_prev (nbk M) (pbk M) i x" if "x \<in> set (remove1 i (B b))" for x
        using that Bb(2) Bb(3) [of x] by (intro links) auto
      show "linked (cut_next (nbk M) (pbk M) i) (cut_prev (nbk M) (pbk M) i) None (tm_buckets M' ! b) (remove1 i (B b))"
        using linked_cut [OF Bb(1) ib Bb(2)] heads b len by simp
    qed
    then show ?thesis
      using True Bb(2) by (simp add: cut_all_def)
  next
    case False
    have "nbk M' x = nbk M x \<and> pbk M' x = pbk M x" if x: "x \<in> set (B c)" for x
    proof -
      have "x \<notin> set (B b)" "x \<noteq> i" "x < length (tm_pool M)"
        using x False Bc(3) [of x] Bb(3) [of x] b by auto
      then show ?thesis
        using links [of x] cut_next_other [OF Bb(1) ib Bb(2)] cut_prev_other [OF Bb(1) ib] by simp
    qed
    then have "linked (nbk M') (pbk M') None (tm_buckets M' ! c) (B c)"
      using Bc(1) linked_cong [of "B c" "nbk M'" "nbk M" "pbk M'" "pbk M"] heads False by simp
    moreover have "i \<notin> set (B c)"
      using Bc(3) [of i] b False by simp
    ultimately show ?thesis
      using Bc(2) by (simp add: cut_all_other)
  qed
qed

lemma cut_tasks:
  assumes rep: "tm_rep X B T M" and x: "(te_ring (tm_pool M ! i), te_slot M (tm_pool M ! i)) \<in> X" and fr: "tm_frame M M'"
    and links: "\<And>x. x < length (tm_pool M) \<Longrightarrow> x \<noteq> i \<Longrightarrow> ntk M' x = ntk M x \<and> ptk M' x = ptk M x"
    and heads: "tm_task_heads M' = tm_task_heads M"
  shows "tasks_ok X (\<lambda>r. cut_all i (T r)) M'"
  unfolding tasks_ok_def
proof (intro allI impI conjI)
  fix r s
  assume "r < PTO2_MAX_RING_DEPTH" "s < tm_windows M' ! r"
  then have r: "r < PTO2_MAX_RING_DEPTH" "s < tm_windows M ! r"
    using fr by (simp_all add: tm_frame_def)
  note Ts = rep_task [OF rep r]
  show "distinct (cut_all i (T r) s)"
    using Ts(1) by (simp add: cut_all_def)
  assume out: "(r, s) \<notin> X"
  then have "i \<notin> set (T r s)"
    using Ts(2) [of i] x by auto
  moreover have "ntk M' x = ntk M x \<and> ptk M' x = ptk M x" if "x \<in> set (T r s)" for x
    using that Ts(2) [of x] calculation by (intro links) (auto simp: registered_def)
  ultimately show "linked (ntk M') (ptk M') None (tm_task_heads M' ! r ! s) (cut_all i (T r) s)"
    using Ts(3) [OF out] linked_cong [of "T r s" "ntk M'" "ntk M" "ptk M'" "ptk M"] by (simp add: cut_all_other heads)
qed

lemma cut_members:
  assumes rep: "tm_rep X B T M" and fr: "tm_frame M M'"
    and same: "\<And>x. x < length (tm_pool M) \<Longrightarrow> content (tm_pool M' ! x) = content (tm_pool M ! x) \<and> bkt M' x = (if x = i then - 1 else bkt M x)"
    and regs: "registered M' = registered M - {i}"
  shows "members_ok (cut_all i B) (\<lambda>r. cut_all i (T r)) M'" "entries_ok M \<Longrightarrow> tm_next_entry_idx M' = tm_next_entry_idx M \<Longrightarrow> entries_ok M'"
proof -
  have num: "tm_num_buckets M' = tm_num_buckets M" "tm_windows M' = tm_windows M" "length (tm_pool M') = length (tm_pool M)"
    using fr by (simp_all add: tm_frame_def)
  have fields: "te_ring (tm_pool M' ! x) = te_ring (tm_pool M ! x)" "te_slot M' (tm_pool M' ! x) = te_slot M (tm_pool M ! x)"
    "te_buffer_addr (tm_pool M' ! x) = te_buffer_addr (tm_pool M ! x)" if "x < length (tm_pool M)" for x
    using same [OF that] content_eqD tm_frame_entry(2) [OF fr] by metis+
  show "members_ok (cut_all i B) (\<lambda>r. cut_all i (T r)) M'"
    unfolding members_ok_def num
  proof (intro conjI allI impI)
    fix c x
    assume c: "c < tm_num_buckets M"
    show "x \<in> set (cut_all i B c) \<longleftrightarrow> x < length (tm_pool M) \<and> bkt M' x = int c"
      using cut_all_mem [of B c x i] rep_bucket(2) [OF rep c] rep_bucket(3) [OF rep c, of x] same [of x] by (auto split: if_splits)
  next
    fix r s x
    assume r: "r < PTO2_MAX_RING_DEPTH" "s < tm_windows M ! r"
    have "x \<in> set (cut_all i (T r) s) \<longleftrightarrow> x \<in> registered M' \<and> te_ring (tm_pool M ! x) = r \<and> te_slot M (tm_pool M ! x) = s"
      using cut_all_mem [of "T r" s x i] rep_task(1,2) [OF rep r] regs by auto
    also have "\<dots> \<longleftrightarrow> x \<in> registered M' \<and> te_ring (tm_pool M' ! x) = r \<and> te_slot M' (tm_pool M' ! x) = s"
      using fields [of x] by (simp add: registered_def num cong: conj_cong)
    finally show "x \<in> set (cut_all i (T r) s) \<longleftrightarrow> x \<in> registered M' \<and> te_ring (tm_pool M' ! x) = r \<and> te_slot M' (tm_pool M' ! x) = s" .
  qed
  show "entries_ok M'" if "entries_ok M" "tm_next_entry_idx M' = tm_next_entry_idx M"
    unfolding entries_ok_def num
  proof (intro allI impI)
    fix x
    assume x: "x < length (tm_pool M)" "bkt M' x \<noteq> - 1"
    have "bkt M' x = bkt M x" "bkt M x \<noteq> - 1"
      using same [OF x(1)] x(2) by (auto split: if_splits)
    then show "x < tm_next_entry_idx M' \<and> te_ring (tm_pool M' ! x) < PTO2_MAX_RING_DEPTH \<and>
        (\<exists>b < tm_num_buckets M. bkt M' x = int b \<and> hash_index (te_buffer_addr (tm_pool M' ! x)) M' = Inr b)"
      using that x(1) fields [OF x(1)] tm_frame_entry(1) [OF fr] by (simp add: entries_ok_def)
  qed
qed

lemma free_rep:
  assumes rep: "tm_rep X B T M" and reg: "i \<in> registered M" and x: "(te_ring (tm_pool M ! i), te_slot M (tm_pool M ! i)) \<in> X"
  obtains M' where "free_entry i M = (Inr (), M')" "freed i M M'" "tm_rep X (cut_all i B) (\<lambda>r. cut_all i (T r)) M'"
proof -
  obtain b where b: "b < tm_num_buckets M" "bkt M i = int b" and ib: "i \<in> set (B b)" and i: "i < length (tm_pool M)"
    using rep_registered [OF rep reg] by metis
  note Bb = rep_bucket [OF rep b(1)]
  have ends: "nbk M i \<noteq> Some i" "pbk M i \<noteq> Some i"
    using linked_not_self [OF Bb(1,2) ib] by auto
  show ?thesis
  proof (rule free_entry_effect [OF i b(2) ends])
    fix M'
    assume free: "free_entry i M = (Inr (), M')" and fr: "tm_frame M M'" and heads: "tm_task_heads M' = tm_task_heads M"
      and links: "\<And>x. x < length (tm_pool M) \<Longrightarrow> x \<noteq> i \<Longrightarrow> nbk M' x = cut_next (nbk M) (pbk M) i x \<and> pbk M' x = cut_prev (nbk M) (pbk M) i x
        \<and> ntk M' x = ntk M x \<and> ptk M' x = ptk M x"
      and same: "\<And>x. x < length (tm_pool M) \<Longrightarrow> content (tm_pool M' ! x) = content (tm_pool M ! x) \<and> bkt M' x = (if x = i then - 1 else bkt M x)"
      and bks: "tm_buckets M' = (tm_buckets M)[b := cut_head (nbk M) (pbk M) (tm_buckets M ! b) i]"
      and frl: "tm_free M' = i # tm_free M" "tm_next_entry_idx M' = tm_next_entry_idx M"
    have num: "tm_num_buckets M' = tm_num_buckets M" "tm_windows M' = tm_windows M" "length (tm_pool M') = length (tm_pool M)"
      using fr by (simp_all add: tm_frame_def)
    have regs: "registered M' = registered M - {i}"
      using same num by (auto simp: registered_def split: if_splits)
    have "freed i M M'"
      using fr heads links same regs by (simp add: freed_def)
    moreover have "tm_rep X (cut_all i B) (\<lambda>r. cut_all i (T r)) M'"
      unfolding tm_rep_def
    proof (intro conjI)
      show "tm_geo M'"
        by (rule tm_frame_geo [OF fr rep_parts(1) [OF rep]])
      show "buckets_ok (cut_all i B) M'"
        by (rule cut_buckets [OF rep b i fr _ bks]) (use links in blast)
      show "tasks_ok X (\<lambda>r. cut_all i (T r)) M'"
        by (rule cut_tasks [OF rep x fr _ heads]) (use links in blast)
      show "members_ok (cut_all i B) (\<lambda>r. cut_all i (T r)) M'"
        by (rule cut_members(1) [OF rep fr same regs])
      show "entries_ok M'"
        by (rule cut_members(2) [OF rep fr same regs rep_parts(5) [OF rep] frl(2)])
      have fo: "tm_next_entry_idx M \<le> length (tm_pool M)" "distinct (tm_free M)"
        "\<And>j. j \<in> set (tm_free M) \<longleftrightarrow> j < tm_next_entry_idx M \<and> bkt M j = - 1" and "i < tm_next_entry_idx M"
        using rep_parts(5,6) [OF rep] i b by (auto simp: free_ok_def entries_ok_def)
      moreover have "j \<in> set (i # tm_free M) \<longleftrightarrow> j < tm_next_entry_idx M \<and> bkt M' j = - 1" for j
        using fo(1) fo(3) [of j] same [of j] \<open>i < tm_next_entry_idx M\<close> by (auto split: if_splits)
      moreover have "i \<notin> set (tm_free M)"
        using fo(3) b by simp
      ultimately show "free_ok M'"
        unfolding free_ok_def frl num by auto
    qed
    ultimately show thesis
      using that free by blast
  qed
qed

lemma tm_rep_weaken: "tm_rep X B T M \<Longrightarrow> X \<subseteq> Y \<Longrightarrow> tm_rep Y B T M"
  by (auto simp: tm_rep_def tasks_ok_def)

lemma same_members:
  assumes rep: "tm_rep X B T M" and fr: "tm_frame M M'"
    and same: "\<And>x. x < length (tm_pool M) \<Longrightarrow> content (tm_pool M' ! x) = content (tm_pool M ! x) \<and> bkt M' x = bkt M x"
    and frl: "tm_free M' = tm_free M" "tm_next_entry_idx M' = tm_next_entry_idx M"
  shows "members_ok B T M'" "entries_ok M'" "free_ok M'" "registered M' = registered M"
proof -
  have num: "tm_num_buckets M' = tm_num_buckets M" "tm_windows M' = tm_windows M" "length (tm_pool M') = length (tm_pool M)"
    using fr by (simp_all add: tm_frame_def)
  have fields: "te_ring (tm_pool M' ! x) = te_ring (tm_pool M ! x)" "te_slot M' (tm_pool M' ! x) = te_slot M (tm_pool M ! x)"
    "te_buffer_addr (tm_pool M' ! x) = te_buffer_addr (tm_pool M ! x)" "bkt M' x = bkt M x" if "x < length (tm_pool M)" for x
    using same [OF that] content_eqD tm_frame_entry(2) [OF fr] by metis+
  show regs: "registered M' = registered M"
    using fields(4) num by (auto simp: registered_def)
  show "members_ok B T M'"
    unfolding members_ok_def num regs
  proof (intro conjI allI impI)
    fix c x
    assume c: "c < tm_num_buckets M"
    show "x \<in> set (B c) \<longleftrightarrow> x < length (tm_pool M) \<and> bkt M' x = int c"
      using rep_bucket(3) [OF rep c, of x] fields(4) [of x] by auto
  next
    fix r s x
    assume r: "r < PTO2_MAX_RING_DEPTH" "s < tm_windows M ! r"
    show "x \<in> set (T r s) \<longleftrightarrow> x \<in> registered M \<and> te_ring (tm_pool M' ! x) = r \<and> te_slot M' (tm_pool M' ! x) = s"
      using rep_task(2) [OF rep r, of x] fields(1,2) [of x] by (simp add: registered_def cong: conj_cong)
  qed
  show "entries_ok M'"
    using rep_parts(5) [OF rep] fields tm_frame_entry(1) [OF fr] frl num by (simp add: entries_ok_def)
  have "j < tm_next_entry_idx M \<Longrightarrow> j < length (tm_pool M)" for j
    using rep_parts(6) [OF rep] by (simp add: free_ok_def)
  then show "free_ok M'"
    using rep_parts(6) [OF rep] fields(4) frl num by (simp add: free_ok_def cong: conj_cong)
qed

lemma remove_from_task_links:
  assumes i: "i < length (tm_pool M)" and b: "bkt M i \<noteq> - 1" and r: "te_ring (tm_pool M ! i) = r" and s: "te_slot M (tm_pool M ! i) = s"
    and ends: "ntk M i \<noteq> Some i" "ptk M i \<noteq> Some i"
  obtains M' where "remove_from_task i M = (Inr (), M')" "tm_frame M M'" "tm_buckets M' = tm_buckets M"
    "tm_free M' = tm_free M" "tm_next_entry_idx M' = tm_next_entry_idx M"
    "\<And>x. x < length (tm_pool M) \<Longrightarrow> x \<noteq> i \<Longrightarrow> ntk M' x = cut_next (ntk M) (ptk M) i x \<and> ptk M' x = cut_prev (ntk M) (ptk M) i x"
    "\<And>x. x < length (tm_pool M) \<Longrightarrow> nbk M' x = nbk M x \<and> pbk M' x = pbk M x"
    "\<And>x. x < length (tm_pool M) \<Longrightarrow> content (tm_pool M' ! x) = content (tm_pool M ! x) \<and> bkt M' x = bkt M x"
    "tm_task_heads M' = (tm_task_heads M)[r := (tm_task_heads M ! r)[s := cut_head (ntk M) (ptk M) (tm_task_heads M ! r ! s) i]]"
proof -
  define M' where "M' = snd (remove_from_task i M)"
  have e: "remove_from_task i M = (Inr (), M')"
    using b by (simp add: M'_def remove_from_task_def Let_def)
  note unf = M'_def remove_from_task_def Let_def
  have slot: "slot_of (tm_windows M ! unat (tid_ring (te_producer (tm_pool M ! i)))) (tid_local (te_producer (tm_pool M ! i))) = s"
    "unat (tid_ring (te_producer (tm_pool M ! i))) = r"
    using r s by (simp_all add: te_slot_def te_ring_def)
  show ?thesis
  proof (rule that [OF e])
    show "tm_frame M M'" "tm_buckets M' = tm_buckets M" "tm_free M' = tm_free M" "tm_next_entry_idx M' = tm_next_entry_idx M"
      using b by (auto simp: unf tm_frame_def heads_lengths split: option.splits)
    show "ntk M' x = cut_next (ntk M) (ptk M) i x \<and> ptk M' x = cut_prev (ntk M) (ptk M) i x"
      if "x < length (tm_pool M)" "x \<noteq> i" for x
      using that ends b by (auto simp: unf cut_next_def cut_prev_def split: option.splits)
    show "nbk M' x = nbk M x \<and> pbk M' x = pbk M x" "content (tm_pool M' ! x) = content (tm_pool M ! x) \<and> bkt M' x = bkt M x"
      if "x < length (tm_pool M)" for x
      using that ends b by (auto simp: unf split: option.splits)
    show "tm_task_heads M' = (tm_task_heads M)[r := (tm_task_heads M ! r)[s := cut_head (ntk M) (ptk M) (tm_task_heads M ! r ! s) i]]"
      using b slot by (auto simp: unf cut_head_def split: option.splits)
  qed
qed

lemma remove_from_task_rep:
  assumes rep: "tm_rep {} B T M" and reg: "i \<in> registered M"
    and r: "te_ring (tm_pool M ! i) = r" and s: "te_slot M (tm_pool M ! i) = s"
  obtains M' where "remove_from_task i M = (Inr (), M')" "tm_rep {(r, s)} B T M'" "tm_frame M M'" "registered M' = registered M"
    "\<And>x. x < length (tm_pool M) \<Longrightarrow> content (tm_pool M' ! x) = content (tm_pool M ! x)"
    "linked (ntk M') (ptk M') None (tm_task_heads M' ! r ! s) (remove1 i (T r s))"
proof -
  obtain i: "i < length (tm_pool M)" "bkt M i \<noteq> - 1" and rs: "r < PTO2_MAX_RING_DEPTH" "s < tm_windows M ! r" and it: "i \<in> set (T r s)"
    using rep_registered [OF rep reg] r s reg by (auto simp: registered_def)
  note Ts = rep_task [OF rep rs]
  have lin: "linked (ntk M) (ptk M) None (tm_task_heads M ! r ! s) (T r s)"
    using Ts(3) by simp
  have ends: "ntk M i \<noteq> Some i" "ptk M i \<noteq> Some i"
    using linked_not_self [OF lin Ts(1) it] by auto
  have heads: "length (tm_task_heads M) = PTO2_MAX_RING_DEPTH" "length (tm_task_heads M ! r) = tm_windows M ! r"
    using rep_parts(1) [OF rep] rs by (auto simp: tm_geo_def)
  show ?thesis
  proof (rule remove_from_task_links [OF i r s ends])
    fix M'
    assume e: "remove_from_task i M = (Inr (), M')" and fr: "tm_frame M M'" and bk: "tm_buckets M' = tm_buckets M"
      and frl: "tm_free M' = tm_free M" "tm_next_entry_idx M' = tm_next_entry_idx M"
      and tl: "\<And>x. x < length (tm_pool M) \<Longrightarrow> x \<noteq> i \<Longrightarrow> ntk M' x = cut_next (ntk M) (ptk M) i x \<and> ptk M' x = cut_prev (ntk M) (ptk M) i x"
      and bl: "\<And>x. x < length (tm_pool M) \<Longrightarrow> nbk M' x = nbk M x \<and> pbk M' x = pbk M x"
      and same: "\<And>x. x < length (tm_pool M) \<Longrightarrow> content (tm_pool M' ! x) = content (tm_pool M ! x) \<and> bkt M' x = bkt M x"
      and hd': "tm_task_heads M' = (tm_task_heads M)[r := (tm_task_heads M ! r)[s := cut_head (ntk M) (ptk M) (tm_task_heads M ! r ! s) i]]"
    have num: "tm_num_buckets M' = tm_num_buckets M" "tm_windows M' = tm_windows M"
      using fr by (simp_all add: tm_frame_def)
    note mem = same_members [OF rep fr same frl]
    have "buckets_ok B M'"
      unfolding buckets_ok_def num
    proof (intro allI impI)
      fix c
      assume c: "c < tm_num_buckets M"
      show "linked (nbk M') (pbk M') None (tm_buckets M' ! c) (B c) \<and> distinct (B c)"
        using rep_bucket [OF rep c] bl bk linked_cong [of "B c" "nbk M'" "nbk M" "pbk M'" "pbk M"] by simp
    qed
    moreover have "tasks_ok {(r, s)} T M'"
      unfolding tasks_ok_def num
    proof (intro allI impI conjI)
      fix q u
      assume q: "q < PTO2_MAX_RING_DEPTH" "u < tm_windows M ! q"
      note Tq = rep_task [OF rep q]
      show "distinct (T q u)"
        by (rule Tq(1))
      assume ne: "(q, u) \<notin> {(r, s)}"
      have "ntk M' x = ntk M x \<and> ptk M' x = ptk M x" if x: "x \<in> set (T q u)" for x
      proof -
        have "x \<notin> set (T r s)" "x < length (tm_pool M)" "x \<noteq> i"
          using x Tq(2) [of x] Ts(2) [of x] ne it by (auto simp: registered_def)
        then show ?thesis
          using tl [of x] cut_next_other [OF lin it Ts(1)] cut_prev_other [OF lin it] by simp
      qed
      moreover have "tm_task_heads M' ! q ! u = tm_task_heads M ! q ! u"
        using ne by (auto simp: hd' nth_list_update_if)
      ultimately show "linked (ntk M') (ptk M') None (tm_task_heads M' ! q ! u) (T q u)"
        using Tq(3) linked_cong [of "T q u" "ntk M'" "ntk M" "ptk M'" "ptk M"] by simp
    qed
    ultimately have rep': "tm_rep {(r, s)} B T M'"
      using mem(1,2,3) tm_frame_geo [OF fr rep_parts(1) [OF rep]] by (simp add: tm_rep_def)
    have "linked (ntk M') (ptk M') None (tm_task_heads M' ! r ! s) (remove1 i (T r s))"
    proof (subst linked_cong)
      show "ntk M' x = cut_next (ntk M) (ptk M) i x \<and> ptk M' x = cut_prev (ntk M) (ptk M) i x" if "x \<in> set (remove1 i (T r s))" for x
        using that Ts(1) Ts(2) [of x] by (intro tl) (auto simp: registered_def)
      show "linked (cut_next (ntk M) (ptk M) i) (cut_prev (ntk M) (ptk M) i) None (tm_task_heads M' ! r ! s) (remove1 i (T r s))"
        using linked_cut [OF lin it Ts(1)] rs heads by (simp add: hd')
    qed
    then show thesis
      using that [OF e rep' fr mem(4)] same by blast
  qed
qed

lemma tm_rep_close:
  assumes "tm_rep {(r, s)} B T M" and "linked (ntk M) (ptk M) None (tm_task_heads M ! r ! s) (T r s)"
  shows "tm_rep {} B T M"
  using assms unfolding tm_rep_def tasks_ok_def by blast

text \<open>The effect of an operation that only takes entries out.\<close>

definition taken_out :: "nat set \<Rightarrow> PTO2TensorMap \<Rightarrow> PTO2TensorMap \<Rightarrow> bool" where
  "taken_out I M M' \<longleftrightarrow> tm_frame M M' \<and> (\<forall>x < length (tm_pool M). content (tm_pool M' ! x) = content (tm_pool M ! x))
     \<and> registered M' = registered M - I"

lemma taken_out_empty [simp]: "taken_out {} M M"
  by (simp add: taken_out_def)

lemma taken_out_trans: "taken_out I M M' \<Longrightarrow> taken_out J M' M'' \<Longrightarrow> taken_out (I \<union> J) M M''"
  unfolding taken_out_def by (auto intro: tm_frame_trans simp: tm_frame_def)

lemma taken_out_fields:
  assumes "taken_out I M M'" and "x < length (tm_pool M)"
  shows "te_producer (tm_pool M' ! x) = te_producer (tm_pool M ! x)" "te_ring (tm_pool M' ! x) = te_ring (tm_pool M ! x)"
    "te_slot M' (tm_pool M' ! x) = te_slot M (tm_pool M ! x)" "te_buffer_addr (tm_pool M' ! x) = te_buffer_addr (tm_pool M ! x)"
  using assms content_eqD tm_frame_entry(2) unfolding taken_out_def by metis+

lemma freed_taken_out: "freed i M M' \<Longrightarrow> taken_out {i} M M'"
  by (simp add: freed_def taken_out_def)

lemma remove_rep:
  assumes rep: "tm_rep {} B T M" and reg: "i \<in> registered M"
  obtains M' where "remove_entry i M = (Inr (), M')" "taken_out {i} M M'" "tm_rep {} (cut_all i B) (\<lambda>r. cut_all i (T r)) M'"
proof -
  let ?r = "te_ring (tm_pool M ! i)" and ?s = "te_slot M (tm_pool M ! i)"
  obtain rs: "i < length (tm_pool M)" "?r < PTO2_MAX_RING_DEPTH" "?s < tm_windows M ! ?r"
    using rep_registered [OF rep reg] by metis
  show ?thesis
  proof (rule remove_from_task_rep [OF rep reg refl refl])
    fix M1
    assume e1: "remove_from_task i M = (Inr (), M1)" and rep1: "tm_rep {(?r, ?s)} B T M1" and fr1: "tm_frame M M1"
      and reg1: "registered M1 = registered M"
      and c1: "\<And>x. x < length (tm_pool M) \<Longrightarrow> content (tm_pool M1 ! x) = content (tm_pool M ! x)"
      and lin: "linked (ntk M1) (ptk M1) None (tm_task_heads M1 ! ?r ! ?s) (remove1 i (T ?r ?s))"
    have t1: "taken_out {} M M1"
      using fr1 reg1 c1 by (simp add: taken_out_def)
    have f1: "te_ring (tm_pool M1 ! i) = ?r" "te_slot M1 (tm_pool M1 ! i) = ?s"
      using taken_out_fields [OF t1 rs(1)] by simp_all
    have w1: "?s < tm_windows M1 ! ?r"
      using rs(3) fr1 by (simp add: tm_frame_def)
    show thesis
    proof (rule free_rep [OF rep1, of i])
      fix M'
      assume e2: "free_entry i M1 = (Inr (), M')" and fd: "freed i M1 M'"
        and rep2: "tm_rep {(?r, ?s)} (cut_all i B) (\<lambda>r. cut_all i (T r)) M'"
      have "linked (ntk M') (ptk M') None (tm_task_heads M' ! ?r ! ?s) (cut_all i (T ?r) ?s)"
      proof (unfold cut_all_def, subst linked_cong)
        show "linked (ntk M1) (ptk M1) None (tm_task_heads M' ! ?r ! ?s) (remove1 i (T ?r ?s))"
          using lin fd by (simp add: freed_def)
        show "ntk M' x = ntk M1 x \<and> ptk M' x = ptk M1 x" if "x \<in> set (remove1 i (T ?r ?s))" for x
          using that rep_task(1,2) [OF rep1 rs(2) w1] fd by (auto simp: freed_def registered_def)
      qed
      then have "tm_rep {} (cut_all i B) (\<lambda>r. cut_all i (T r)) M'"
        using rep2 by (rule tm_rep_close [rotated])
      moreover have "taken_out {i} M M'"
        using taken_out_trans [OF t1 freed_taken_out [OF fd]] by simp
      ultimately show thesis
        using that e1 e2 by (simp add: remove_entry_def)
    qed (use reg reg1 f1 in auto)
  qed
qed

subsection \<open>Cleanup\<close>

lemma free_task_chain_rep:
  assumes "tm_rep {(r, s)} B T M" and "r < PTO2_MAX_RING_DEPTH" and "s < tm_windows M ! r"
    and "follows (ntk M) cur (T r s)" and "dbg \<Longrightarrow> \<forall>i \<in> set (T r s). te_producer (tm_pool M ! i) = task"
  shows "\<exists>M' B' T'. free_task_chain dbg task cur M = Some (Inr (), M') \<and> taken_out (set (T r s)) M M'
    \<and> tm_task_heads M' = tm_task_heads M \<and> tm_rep {(r, s)} B' T' M' \<and> T' r s = []"
  using assms
proof (induction "T r s" arbitrary: T B M cur)
  case Nil
  then have "T r s = []" "cur = None"
    using Nil.prems(4) by auto
  then show ?case
    using Nil.prems(1) by (subst free_task_chain.simps) (simp, blast)
next
  case (Cons i xs)
  have Tn: "T r s = i # xs"
    using Cons.hyps(2) by simp
  note Ts = rep_task [OF Cons.prems(1-3)]
  have cur: "cur = Some i" and nx: "follows (ntk M) (ntk M i) xs"
    using Cons.prems(4) Tn by simp_all
  have reg: "i \<in> registered M" "te_ring (tm_pool M ! i) = r" "te_slot M (tm_pool M ! i) = s" "i \<notin> set xs"
    using Ts(1) Ts(2) [of i] Tn by auto
  then have x: "(te_ring (tm_pool M ! i), te_slot M (tm_pool M ! i)) \<in> {(r, s)}"
    by simp
  show ?case
  proof (rule free_rep [OF Cons.prems(1) reg(1) x])
    fix M1
    assume e: "free_entry i M = (Inr (), M1)" and fd: "freed i M M1"
      and rep1: "tm_rep {(r, s)} (cut_all i B) (\<lambda>r. cut_all i (T r)) M1"
    let ?T1 = "\<lambda>r. cut_all i (T r)"
    have T1: "?T1 r s = xs"
      using Tn by (simp add: cut_all_def)
    have inM: "y < length (tm_pool M)" if "y \<in> set xs" for y
      using Ts(2) [of y] Tn that by (simp add: registered_def)
    have "follows (ntk M1) (ntk M i) xs"
      using nx fd inM reg(4) by (subst follows_cong [of xs _ "ntk M"]) (auto simp: freed_def)
    moreover have "dbg \<Longrightarrow> \<forall>j \<in> set xs. te_producer (tm_pool M1 ! j) = task"
      using Cons.prems(5) Tn taken_out_fields(1) [OF freed_taken_out [OF fd]] inM by auto
    moreover have "s < tm_windows M1 ! r"
      using Cons.prems(3) fd by (simp add: freed_def tm_frame_def)
    ultimately obtain M' B' T' where ih: "free_task_chain dbg task (ntk M i) M1 = Some (Inr (), M')" "taken_out (set xs) M1 M'"
      "tm_task_heads M' = tm_task_heads M1" "tm_rep {(r, s)} B' T' M'" "T' r s = []"
      using Cons.hyps(1) [of ?T1 "cut_all i B" M1 "ntk M i"] rep1 Cons.prems(2) T1 by auto
    have "free_task_chain dbg task cur M = Some (Inr (), M')"
      using ih(1) e cur Cons.prems(5) Tn by (subst free_task_chain.simps) (auto simp: Let_def)
    moreover have "taken_out (set (T r s)) M M'"
      using taken_out_trans [OF freed_taken_out [OF fd] ih(2)] Tn by simp
    moreover have "tm_task_heads M' = tm_task_heads M"
      using ih(3) fd by (simp add: freed_def)
    ultimately show ?case
      using ih(4,5) by blast
  qed
qed

definition chain_of :: "nat \<Rightarrow> nat \<Rightarrow> PTO2TensorMap \<Rightarrow> nat set" where
  "chain_of r s M = {i \<in> registered M. te_ring (tm_pool M ! i) = r \<and> te_slot M (tm_pool M ! i) = s}"

lemma cleanup_one_inv:
  assumes inv: "tm_inv M" and r: "r < PTO2_MAX_RING_DEPTH" and s: "slot_of (tm_windows M ! r) (i32 l) = s"
    and task: "dbg \<Longrightarrow> \<forall>i \<in> chain_of r s M. te_producer (tm_pool M ! i) = tid_make (of_nat r) (i32 l)"
  shows "\<exists>M'. cleanup_one dbg r l M = Some (Inr (), M') \<and> tm_inv M' \<and> taken_out (chain_of r s M) M M'"
proof -
  obtain B T where rep: "tm_rep {} B T M"
    using inv by (auto simp: tm_inv_def)
  have sw: "s < tm_windows M ! r"
    using rep_parts(1) [OF rep] r s by (auto simp: tm_geo_def intro: slot_of_less)
  note Ts = rep_task [OF rep r sw]
  have ch: "set (T r s) = chain_of r s M"
    using Ts(2) by (auto simp: chain_of_def)
  have "follows (ntk M) (tm_task_heads M ! r ! s) (T r s)"
    using Ts(3) linked_follows by fastforce
  then obtain M1 B' T' where e: "free_task_chain dbg (tid_make (of_nat r) (i32 l)) (tm_task_heads M ! r ! s) M = Some (Inr (), M1)"
    and out: "taken_out (chain_of r s M) M M1" and h: "tm_task_heads M1 = tm_task_heads M"
    and rep1: "tm_rep {(r, s)} B' T' M1" "T' r s = []"
    using free_task_chain_rep [of r s B T M "tm_task_heads M ! r ! s" dbg] tm_rep_weaken [OF rep, of "{(r, s)}"] r sw task ch
    by (metis empty_subsetI)
  let ?M2 = "M1\<lparr>tm_task_heads := (tm_task_heads M1)[r := (tm_task_heads M1 ! r)[s := None]]\<rparr>"
  have one: "cleanup_one dbg r l M = Some (Inr (), ?M2)"
    using e s by (simp add: cleanup_one_def Let_def)
  have hl: "length (tm_task_heads M1) = PTO2_MAX_RING_DEPTH" "length (tm_task_heads M1 ! r) = tm_windows M1 ! r" "s < tm_windows M1 ! r"
    using rep_parts(1) [OF rep1(1)] r sw out by (auto simp: tm_geo_def taken_out_def tm_frame_def)
  have fr2: "tm_frame M1 ?M2"
    by (simp add: tm_frame_def heads_lengths)
  have "tasks_ok {} T' ?M2"
    using rep_parts(3) [OF rep1(1)] hl r rep1(2) by (auto simp: tasks_ok_def nth_list_update_if)
  moreover have "members_ok B' T' ?M2" "entries_ok ?M2" "free_ok ?M2"
    by (rule same_members [OF rep1(1) fr2]; simp)+
  moreover have "buckets_ok B' ?M2"
    using rep_parts(2) [OF rep1(1)] by (simp add: buckets_ok_def)
  ultimately have "tm_inv ?M2"
    using tm_frame_geo [OF fr2 rep_parts(1) [OF rep1(1)]] unfolding tm_inv_def tm_rep_def by blast
  moreover have "taken_out {} M1 ?M2"
    using fr2 by (simp add: taken_out_def registered_def)
  ultimately show ?thesis
    using one taken_out_trans [OF out] by fastforce
qed

lemma chain_of_taken_out:
  assumes "taken_out I M M'"
  shows "chain_of r s M' = chain_of r s M - I"
  using assms taken_out_fields [OF assms] by (auto simp: chain_of_def taken_out_def registered_def)

lemma cleanup_list_inv:
  assumes "tm_inv M" and "r < PTO2_MAX_RING_DEPTH"
    and "dbg \<Longrightarrow> \<forall>l \<in> set ls. \<forall>i \<in> chain_of r (slot_of (tm_windows M ! r) (i32 l)) M. te_producer (tm_pool M ! i) = tid_make (of_nat r) (i32 l)"
  shows "\<exists>M'. cleanup_list dbg r ls M = Some (Inr (), M') \<and> tm_inv M'
    \<and> taken_out (\<Union>l \<in> set ls. chain_of r (slot_of (tm_windows M ! r) (i32 l)) M) M M'"
  using assms
proof (induction ls arbitrary: M)
  case Nil
  then show ?case
    by simp
next
  case (Cons l ls)
  let ?C = "\<lambda>l M. chain_of r (slot_of (tm_windows M ! r) (i32 l)) M"
  obtain M1 where one: "cleanup_one dbg r l M = Some (Inr (), M1)" "tm_inv M1" "taken_out (?C l M) M M1"
    using cleanup_one_inv [OF Cons.prems(1,2) refl, of dbg l] Cons.prems(3) by auto
  have w: "tm_windows M1 = tm_windows M"
    using one(3) by (simp add: taken_out_def tm_frame_def)
  have C1: "?C k M1 = ?C k M - ?C l M" for k
    using chain_of_taken_out [OF one(3)] w by simp
  have prod1: "te_producer (tm_pool M1 ! i) = te_producer (tm_pool M ! i)" if "i \<in> ?C k M" for i k
    using that taken_out_fields(1) [OF one(3), of i] by (simp add: chain_of_def registered_def)
  have "dbg \<Longrightarrow> \<forall>k \<in> set ls. \<forall>i \<in> ?C k M1. te_producer (tm_pool M1 ! i) = tid_make (of_nat r) (i32 k)"
    using Cons.prems(3) C1 prod1 by auto
  then obtain M2 where two: "cleanup_list dbg r ls M1 = Some (Inr (), M2)" "tm_inv M2" "taken_out (\<Union>k \<in> set ls. ?C k M1) M1 M2"
    using Cons.IH [OF one(2) Cons.prems(2)] by blast
  have "?C l M \<union> (\<Union>k \<in> set ls. ?C k M1) = (\<Union>k \<in> set (l # ls). ?C k M)"
    using C1 by auto
  then show ?case
    using one(1) two(1,2) taken_out_trans [OF one(3) two(3)] by simp
qed

end
