(* ===== verification/L2TensorMapProps.thy ===== *)
theory L2TensorMapProps
  imports L2TensorMapCut L2Deps
begin

text \<open>
  What the device tensor map promises: it holds the live registrations. A registration is a producer with the tensor
  it writes; it is live until its producer retires. Insertion adds one, synchronisation drops those of retired
  producers, and a lookup visits exactly the live ones that overlap its tensor.
\<close>

subsection \<open>Freshness\<close>

abbreviation te_local :: "PTO2TensorMapEntry \<Rightarrow> int" where
  "te_local e \<equiv> sint (tid_local (te_producer e))"

text \<open>
  The entries of a ring belong to tasks of one window, counted from the last cleanup, so that a task chain never mixes
  two tasks.
\<close>

definition tm_fresh :: "PTO2TensorMap \<Rightarrow> bool" where
  "tm_fresh M \<longleftrightarrow> (\<forall>r < PTO2_MAX_RING_DEPTH. 0 \<le> tm_last_cleanup M ! r)
     \<and> (\<forall>i \<in> registered M. let e = tm_pool M ! i; c = tm_last_cleanup M ! te_ring e
          in te_producer e = tid_make (tid_ring (te_producer e)) (tid_local (te_producer e))
           \<and> c \<le> te_local e \<and> te_local e < c + int (tm_windows M ! te_ring e))"

lemma i32_sint: "i32 (sint l) = l"
  by (simp add: i32_def)

lemma slot_of_int:
  assumes "w = 2 ^ j" and "0 \<le> sint l"
  shows "int (slot_of w l) = sint l mod int w"
proof -
  have "sint l = uint l"
    using assms(2) sint_lt [of l] by (simp add: uint_sint take_bit_int_eq_self)
  then show ?thesis
    by (simp add: slot_of_mod [OF assms(1)] zmod_int)
qed

lemma int_window_unique:
  fixes a b c w :: int
  assumes "a mod w = b mod w" and "c \<le> a" "a < c + w" and "c \<le> b" "b < c + w"
  shows "a = b"
proof -
  have "(a - c) mod w = (b - c) mod w"
    using assms(1) by (metis mod_diff_left_eq)
  then show ?thesis
    using assms(2-) by (simp add: mod_pos_pos_trivial)
qed

lemma sint_i32: "0 \<le> n \<Longrightarrow> n < 2 ^ 31 \<Longrightarrow> sint (i32 n) = n"
  using of_i32_i32 [of n] by (simp add: of_i32_def)

lemma ring_of_nat: "r < PTO2_MAX_RING_DEPTH \<Longrightarrow> unat (of_nat r :: u8) = r"
  by (simp add: PTO2_MAX_RING_DEPTH_def unat_of_nat)

lemma tm_inv_counters:
  assumes "tm_inv M" and "length xs = PTO2_MAX_RING_DEPTH" and "length ys = PTO2_MAX_RING_DEPTH"
  shows "tm_inv (M\<lparr>tm_last_alives := xs, tm_last_cleanup := ys\<rparr>)" (is "tm_inv ?M")
proof -
  obtain B T where "tm_rep {} B T M"
    using assms(1) by (auto simp: tm_inv_def)
  moreover have "te_slot ?M e = te_slot M e" "hash_index k ?M = hash_index k M" "registered ?M = registered M" for e k
    by (simp_all add: te_slot_def hash_index_def registered_def)
  ultimately have "tm_rep {} B T ?M"
    using assms(2,3)
    by (simp add: tm_rep_def tm_geo_def buckets_ok_def tasks_ok_def members_ok_def entries_ok_def free_ok_def)
  then show ?thesis
    by (auto simp: tm_inv_def)
qed

text \<open>A task chain of a fresh map holds the entries of one task.\<close>

lemma fresh_chain:
  assumes inv: "tm_inv M" and fresh: "tm_fresh M" and r: "r < PTO2_MAX_RING_DEPTH" and c: "tm_last_cleanup M ! r = c"
    and l: "c \<le> l" "l < c + int (tm_windows M ! r)" "l < 2 ^ 31"
  shows "chain_of r (slot_of (tm_windows M ! r) (i32 l)) M = {i \<in> registered M. te_ring (tm_pool M ! i) = r \<and> te_local (tm_pool M ! i) = l}"
    and "i \<in> chain_of r (slot_of (tm_windows M ! r) (i32 l)) M \<Longrightarrow> te_producer (tm_pool M ! i) = tid_make (of_nat r) (i32 l)"
proof -
  obtain j where j: "tm_windows M ! r = 2 ^ j"
    using inv r by (auto simp: tm_inv_def tm_rep_def tm_geo_def)
  have c0: "0 \<le> c"
    using fresh r c by (auto simp: tm_fresh_def)
  have sl: "sint (i32 l) = l"
    using l c0 by (intro sint_i32) auto
  have key: "te_slot M (tm_pool M ! i) = slot_of (tm_windows M ! r) (i32 l) \<longleftrightarrow> te_local (tm_pool M ! i) = l"
    if "i \<in> registered M" "te_ring (tm_pool M ! i) = r" for i
  proof -
    let ?e = "tm_pool M ! i"
    have b: "c \<le> te_local ?e" "te_local ?e < c + int (tm_windows M ! r)"
      using fresh that c by (auto simp: tm_fresh_def Let_def)
    have "int (te_slot M ?e) = te_local ?e mod int (tm_windows M ! r)"
      using slot_of_int [OF j] b(1) c0 that(2) by (simp add: te_slot_def)
    moreover have "int (slot_of (tm_windows M ! r) (i32 l)) = l mod int (tm_windows M ! r)"
      using slot_of_int [OF j, of "i32 l"] sl l(1) c0 by simp
    ultimately have "te_slot M ?e = slot_of (tm_windows M ! r) (i32 l) \<longleftrightarrow>
        te_local ?e mod int (tm_windows M ! r) = l mod int (tm_windows M ! r)"
      by linarith
    also have "\<dots> \<longleftrightarrow> te_local ?e = l"
      using int_window_unique [of "te_local ?e" "int (tm_windows M ! r)" l c] b l by auto
    finally show ?thesis .
  qed
  then show eq: "chain_of r (slot_of (tm_windows M ! r) (i32 l)) M = {i \<in> registered M. te_ring (tm_pool M ! i) = r \<and> te_local (tm_pool M ! i) = l}"
    by (auto simp: chain_of_def)
  show "te_producer (tm_pool M ! i) = tid_make (of_nat r) (i32 l)"
    if "i \<in> chain_of r (slot_of (tm_windows M ! r) (i32 l)) M"
  proof -
    have i: "i \<in> registered M" "te_ring (tm_pool M ! i) = r" "te_local (tm_pool M ! i) = l"
      using that eq by auto
    then have "tid_local (te_producer (tm_pool M ! i)) = i32 l" "tid_ring (te_producer (tm_pool M ! i)) = of_nat r"
      using i32_sint by (metis, auto simp: te_ring_def)
    moreover have "te_producer (tm_pool M ! i) = tid_make (tid_ring (te_producer (tm_pool M ! i))) (tid_local (te_producer (tm_pool M ! i)))"
      using fresh i(1) by (simp add: tm_fresh_def Let_def)
    ultimately show ?thesis
      by metis
  qed
qed

text \<open>
  The state of the map when task \<open>L\<close> of ring \<open>r\<close> is submitted and the oldest task alive is \<open>la\<close>: the cleanup is at most one
  window behind the task, and the task fits in a window with the tasks alive.
\<close>

definition sync_ready :: "nat \<Rightarrow> int \<Rightarrow> int \<Rightarrow> PTO2TensorMap \<Rightarrow> bool" where
  "sync_ready r L la M \<longleftrightarrow> r < PTO2_MAX_RING_DEPTH \<and> tm_last_cleanup M ! r \<le> la \<and> la \<le> L
     \<and> L \<le> tm_last_cleanup M ! r + int (tm_windows M ! r) \<and> L < la + int (tm_windows M ! r) \<and> L < 2 ^ 31"

definition synced :: "nat \<Rightarrow> int \<Rightarrow> int \<Rightarrow> PTO2TensorMap \<Rightarrow> PTO2TensorMap \<Rightarrow> bool" where
  "synced r L la M M' \<longleftrightarrow> tm_inv M' \<and> tm_fresh M' \<and> tm_last_alives M' = (tm_last_alives M)[r := la]
     \<and> tm_windows M' = tm_windows M \<and> length (tm_pool M') = length (tm_pool M)
     \<and> (\<forall>x < length (tm_pool M). content (tm_pool M' ! x) = content (tm_pool M ! x)) \<and> registered M' \<subseteq> registered M
     \<and> (\<forall>i \<in> registered M - registered M'. te_ring (tm_pool M ! i) = r \<and> te_local (tm_pool M ! i) < la)
     \<and> L < tm_last_cleanup M' ! r + int (tm_windows M ! r) \<and> tm_last_cleanup M' ! r \<le> la
     \<and> (\<forall>q. q \<noteq> r \<longrightarrow> tm_last_cleanup M' ! q = tm_last_cleanup M ! q)"

lemma fresh_taken_out:
  assumes fresh: "tm_fresh M" and out: "taken_out I M M'" and cl: "\<And>r. r < PTO2_MAX_RING_DEPTH \<Longrightarrow> 0 \<le> ys ! r"
    and keep: "\<And>i. i \<in> registered M - I \<Longrightarrow> let e = tm_pool M ! i; c = ys ! te_ring e
      in c \<le> te_local e \<and> te_local e < c + int (tm_windows M ! te_ring e)"
  shows "tm_fresh (M'\<lparr>tm_last_alives := xs, tm_last_cleanup := ys\<rparr>)"
  unfolding tm_fresh_def
proof (intro conjI allI impI ballI)
  fix i
  assume "i \<in> registered (M'\<lparr>tm_last_alives := xs, tm_last_cleanup := ys\<rparr>)"
  then have i: "i \<in> registered M - I" "i < length (tm_pool M)"
    using out by (auto simp: taken_out_def registered_def)
  note f = taken_out_fields [OF out i(2)]
  have w: "tm_windows M' = tm_windows M"
    using out by (simp add: taken_out_def tm_frame_def)
  show "let e = tm_pool (M'\<lparr>tm_last_alives := xs, tm_last_cleanup := ys\<rparr>) ! i;
            c = tm_last_cleanup (M'\<lparr>tm_last_alives := xs, tm_last_cleanup := ys\<rparr>) ! te_ring e
        in te_producer e = tid_make (tid_ring (te_producer e)) (tid_local (te_producer e)) \<and> c \<le> te_local e
         \<and> te_local e < c + int (tm_windows (M'\<lparr>tm_last_alives := xs, tm_last_cleanup := ys\<rparr>) ! te_ring e)"
    using keep [OF i(1)] fresh i(1) f w by (simp add: tm_fresh_def Let_def)
qed (use cl in auto)

lemma sync_ok:
  assumes inv: "tm_inv M" and fresh: "tm_fresh M" and ready: "sync_ready r L la M"
  shows "\<exists>M'. sync_tensormap dbg (tid_make (of_nat r) (i32 L)) la M = Some (Inr (), M') \<and> synced r L la M M'"
proof -
  let ?c = "tm_last_cleanup M ! r" and ?w = "tm_windows M ! r"
  have r: "r < PTO2_MAX_RING_DEPTH" and b: "?c \<le> la" "la \<le> L" "L \<le> ?c + int ?w" "L < la + int ?w" "L < 2 ^ 31"
    using ready by (auto simp: sync_ready_def)
  have c0: "0 \<le> ?c"
    using fresh r by (simp add: tm_fresh_def)
  have len: "length (tm_last_alives M) = PTO2_MAX_RING_DEPTH" "length (tm_last_cleanup M) = PTO2_MAX_RING_DEPTH"
    and pw: "\<exists>j. ?w = 2 ^ j"
    using inv r by (auto simp: tm_inv_def tm_rep_def tm_geo_def)
  let ?xs = "(tm_last_alives M)[r := la]"
  let ?M1 = "M\<lparr>tm_last_alives := ?xs\<rparr>"
  have M1: "?M1 = M\<lparr>tm_last_alives := ?xs, tm_last_cleanup := tm_last_cleanup M\<rparr>"
    by simp
  have "tm_inv (M\<lparr>tm_last_alives := ?xs, tm_last_cleanup := tm_last_cleanup M\<rparr>)"
    by (rule tm_inv_counters [OF inv]) (use len in simp_all)
  then have inv1: "tm_inv ?M1"
    by (simp only: M1 [symmetric])
  have "tm_fresh (M\<lparr>tm_last_alives := ?xs, tm_last_cleanup := tm_last_cleanup M\<rparr>)"
    by (rule fresh_taken_out [OF fresh taken_out_empty]) (use fresh in \<open>auto simp: tm_fresh_def Let_def\<close>)
  then have fresh1: "tm_fresh ?M1"
    by (simp only: M1 [symmetric])
  have reg1: "registered ?M1 = registered M"
    by (simp add: registered_def)
  define clean where "clean \<longleftrightarrow> la - ?c \<ge> PTO2_TENSORMAP_CLEANUP_INTERVAL
    \<or> slot_of ?w (i32 L) = slot_of ?w (i32 ?c)"
  have eq: "sync_tensormap dbg (tid_make (of_nat r) (i32 L)) la M =
      (if clean then (case cleanup_retired dbg r ?c la ?M1 of
           Some (Inr _, M2) \<Rightarrow> Some (Inr (), M2\<lparr>tm_last_cleanup := (tm_last_cleanup M2)[r := la]\<rparr>) | x \<Rightarrow> x)
       else Some (Inr (), ?M1))"
    using r by (simp add: sync_tensormap_def clean_def sync_validity_def get_task_local_id_slot_def ring_of_nat Let_def)
  show ?thesis
  proof (cases clean)
    case False
    have "L \<noteq> ?c + int ?w"
    proof
      assume L: "L = ?c + int ?w"
      obtain j where j: "?w = 2 ^ j"
        using pw by blast
      have "int (slot_of ?w (i32 L)) = L mod int ?w" "int (slot_of ?w (i32 ?c)) = ?c mod int ?w"
        using slot_of_int [OF j, of "i32 L"] slot_of_int [OF j, of "i32 ?c"] sint_i32 [of L] sint_i32 [of ?c] b c0 by simp_all
      then have "slot_of ?w (i32 L) = slot_of ?w (i32 ?c)"
        using L by simp
      then show False
        using False by (simp add: clean_def)
    qed
    then have "synced r L la M ?M1"
      using inv1 fresh1 b reg1 by (simp add: synced_def)
    then show ?thesis
      using eq False by auto
  next
    case True
    let ?U = "\<Union>l \<in> set [?c .. la - 1]. chain_of r (slot_of ?w (i32 l)) ?M1"
    have fc: "chain_of r (slot_of ?w (i32 l)) ?M1 = {i \<in> registered M. te_ring (tm_pool M ! i) = r \<and> te_local (tm_pool M ! i) = l}"
      "i \<in> chain_of r (slot_of ?w (i32 l)) ?M1 \<Longrightarrow> te_producer (tm_pool ?M1 ! i) = tid_make (of_nat r) (i32 l)"
      if "l \<in> set [?c .. la - 1]" for l i
      using fresh_chain [OF inv1 fresh1 r, of ?c l] that b reg1 by auto
    obtain M2 where M2: "cleanup_retired dbg r ?c la ?M1 = Some (Inr (), M2)" "tm_inv M2" "taken_out ?U ?M1 M2"
      using cleanup_list_inv [OF inv1 r, of dbg "[?c .. la - 1]"] fc(2) by (auto simp: cleanup_retired_def)
    have U: "?U = {i \<in> registered M. te_ring (tm_pool M ! i) = r \<and> te_local (tm_pool M ! i) < la}"
    proof -
      have "?c \<le> te_local (tm_pool M ! i)" if "i \<in> registered M" "te_ring (tm_pool M ! i) = r" for i
        using fresh that by (auto simp: tm_fresh_def Let_def)
      then show ?thesis
        using fc(1) by auto
    qed
    have fr2: "tm_frame ?M1 M2"
      using M2(3) by (simp add: taken_out_def)
    let ?ys = "(tm_last_cleanup M)[r := la]"
    have M3: "M2\<lparr>tm_last_cleanup := (tm_last_cleanup M2)[r := la]\<rparr> = M2\<lparr>tm_last_alives := ?xs, tm_last_cleanup := ?ys\<rparr>"
      using fr2 by (simp add: tm_frame_def)
    have "synced r L la M (M2\<lparr>tm_last_alives := ?xs, tm_last_cleanup := ?ys\<rparr>)"
      unfolding synced_def
    proof (intro conjI)
      show "tm_inv (M2\<lparr>tm_last_alives := ?xs, tm_last_cleanup := ?ys\<rparr>)"
        by (rule tm_inv_counters [OF M2(2)]) (use len in simp_all)
      show "tm_fresh (M2\<lparr>tm_last_alives := ?xs, tm_last_cleanup := ?ys\<rparr>)"
      proof (rule fresh_taken_out [OF fresh1 M2(3)])
        show "let e = tm_pool ?M1 ! i; c = ?ys ! te_ring e in c \<le> te_local e \<and> te_local e < c + int (tm_windows ?M1 ! te_ring e)"
          if "i \<in> registered ?M1 - ?U" for i
          using that U fresh len b r by (auto simp: reg1 tm_fresh_def Let_def nth_list_update_if)
      qed (use fresh c0 b in \<open>auto simp: tm_fresh_def nth_list_update_if\<close>)
      show "registered (M2\<lparr>tm_last_alives := ?xs, tm_last_cleanup := ?ys\<rparr>) \<subseteq> registered M"
        "\<forall>i \<in> registered M - registered (M2\<lparr>tm_last_alives := ?xs, tm_last_cleanup := ?ys\<rparr>).
           te_ring (tm_pool M ! i) = r \<and> te_local (tm_pool M ! i) < la"
        using M2(3) U reg1 by (auto simp: taken_out_def registered_def)
    qed (use M2(3) b len r in \<open>auto simp: taken_out_def tm_frame_def nth_list_update_if\<close>)
    then show ?thesis
      using eq True M2(1) M3 by auto
  qed
qed

subsection \<open>Lookup\<close>

definition overlaps_entry :: "bool \<Rightarrow> Tensor \<Rightarrow> PTO2TensorMap \<Rightarrow> nat \<Rightarrow> bool" where
  "overlaps_entry dbg t M i \<longleftrightarrow> entry_valid (tm_pool M ! i) M \<and> te_buffer_addr (tm_pool M ! i) = buf_addr (tn_buffer t)
     \<and> check_overlap dbg t (tm_pool M ! i) \<noteq> Inr NO_OVERLAP"

text \<open>The overlap check of \<open>t\<close> against the live entries of its buffer does not fail.\<close>

definition comparable :: "bool \<Rightarrow> Tensor \<Rightarrow> PTO2TensorMap \<Rightarrow> bool" where
  "comparable dbg t M \<longleftrightarrow> (\<forall>i \<in> registered M. te_buffer_addr (tm_pool M ! i) = buf_addr (tn_buffer t) \<longrightarrow>
     (\<exists>st. check_overlap dbg t (tm_pool M ! i) = Inr st))"

lemma taken_out_match:
  assumes "taken_out I M M'" and "x < length (tm_pool M)"
  shows "overlaps_entry dbg t M' x = overlaps_entry dbg t M x" "check_overlap dbg t (tm_pool M' ! x) = check_overlap dbg t (tm_pool M ! x)"
    "entry_valid (tm_pool M' ! x) M' = entry_valid (tm_pool M ! x) M"
proof -
  have c: "content (tm_pool M' ! x) = content (tm_pool M ! x)" and fr: "tm_frame M M'"
    using assms by (simp_all add: taken_out_def)
  show co: "check_overlap dbg t (tm_pool M' ! x) = check_overlap dbg t (tm_pool M ! x)"
    using c check_overlap_content by metis
  show ev: "entry_valid (tm_pool M' ! x) M' = entry_valid (tm_pool M ! x) M"
    using taken_out_fields(1) [OF assms] tm_frame_entry(3) [OF fr] by (metis c entry_valid_content)
  show "overlaps_entry dbg t M' x = overlaps_entry dbg t M x"
    using co ev taken_out_fields(4) [OF assms] by (simp add: overlaps_entry_def)
qed

lemma comparable_taken_out:
  assumes "comparable dbg t M" and out: "taken_out I M M'"
  shows "comparable dbg t M'"
  unfolding comparable_def
proof (intro ballI impI)
  fix i
  assume i: "i \<in> registered M'" "te_buffer_addr (tm_pool M' ! i) = buf_addr (tn_buffer t)"
  then have r: "i \<in> registered M" "i < length (tm_pool M)"
    using out by (auto simp: taken_out_def registered_def)
  then show "\<exists>st. check_overlap dbg t (tm_pool M' ! i) = Inr st"
    using assms(1) i(2) taken_out_match(2) [OF out r(2)] taken_out_fields(4) [OF out r(2)] by (simp add: comparable_def)
qed

definition removed_by :: "bool \<Rightarrow> TensorArgType \<Rightarrow> Tensor \<Rightarrow> PTO2TensorMap \<Rightarrow> nat \<Rightarrow> bool" where
  "removed_by dbg ptype t M i \<longleftrightarrow> overlaps_entry dbg t M i \<and> ptype = INOUT \<and> check_overlap dbg t (tm_pool M ! i) = Inr COVERED"

abbreviation first_of :: "'a list \<Rightarrow> 'a option" where
  "first_of xs \<equiv> (if xs = [] then None else Some (hd xs))"

lemma linked_append_next: "linked n p q h (ys @ i # xs) \<Longrightarrow> n i = first_of xs"
  by (induction ys arbitrary: q h) (auto dest: linked_head)

lemma walk_step:
  assumes i: "overlaps_entry dbg t M i" "check_overlap dbg t (tm_pool M ! i) = Inr st" and go: "snd (emit (te_producer (tm_pool M ! i)) c)"
  shows "lookup_walk dbg t (on_match emit ptype) (Some i) (M, (c, False)) =
    (if removed_by dbg ptype t M i
     then (case remove_entry i M of
             (Inl ex, M') \<Rightarrow> Some (Inl ex, (M', (fst (emit (te_producer (tm_pool M ! i)) c), False)))
           | (Inr _, M') \<Rightarrow> lookup_walk dbg t (on_match emit ptype) (nbk M i) (M', (fst (emit (te_producer (tm_pool M ! i)) c), False)))
     else lookup_walk dbg t (on_match emit ptype) (nbk M i) (M, (fst (emit (te_producer (tm_pool M ! i)) c), False)))"
  using assms
  by (subst lookup_walk.simps)
    (auto simp: overlaps_entry_def removed_by_def on_match_def Let_def split: OverlapStatus.splits prod.splits sum.splits)

lemma walk_skip:
  assumes "\<not> overlaps_entry dbg t M i" and "te_buffer_addr (tm_pool M ! i) = buf_addr (tn_buffer t) \<Longrightarrow> \<exists>st. check_overlap dbg t (tm_pool M ! i) = Inr st"
  shows "lookup_walk dbg t f (Some i) (M, c) = lookup_walk dbg t f (nbk M i) (M, c)"
  using assms by (subst lookup_walk.simps) (auto simp: overlaps_entry_def Let_def split: sum.splits)

lemma walk_ok:
  assumes go: "\<And>p c. snd (emit p c)"
  shows "tm_rep {} B T M \<Longrightarrow> b < tm_num_buckets M \<Longrightarrow> B b = ys @ xs \<Longrightarrow> comparable dbg t M \<Longrightarrow>
    \<exists>M' B' T'. lookup_walk dbg t (on_match emit ptype) (first_of xs) (M, (c, False))
        = Some (Inr (), (M', (fold (\<lambda>p c. fst (emit p c)) (map (\<lambda>i. te_producer (tm_pool M ! i)) (filter (overlaps_entry dbg t M) xs)) c, False)))
      \<and> tm_rep {} B' T' M' \<and> taken_out {i \<in> set xs. removed_by dbg ptype t M i} M M'"
proof (induction xs arbitrary: B T M ys c)
  case Nil
  then show ?case
    by (subst lookup_walk.simps) (simp, blast)
next
  case (Cons i xs)
  note rep = Cons.prems(1) and Bb = rep_bucket [OF Cons.prems(1,2)]
  have reg: "i \<in> registered M" "i < length (tm_pool M)"
    using Bb(3) [of i] Cons.prems(3) by (auto simp: registered_def)
  have nx: "nbk M i = first_of xs"
    using linked_append_next Bb(1) Cons.prems(3) by metis
  have chk: "te_buffer_addr (tm_pool M ! i) = buf_addr (tn_buffer t) \<Longrightarrow> \<exists>st. check_overlap dbg t (tm_pool M ! i) = Inr st"
    using Cons.prems(4) reg(1) by (auto simp: comparable_def)
  let ?f = "\<lambda>p c. fst (emit p c)"
  let ?c = "fst (emit (te_producer (tm_pool M ! i)) c)"
  have B1: "B b = (ys @ [i]) @ xs"
    using Cons.prems(3) by simp
  consider (skip) "\<not> overlaps_entry dbg t M i" | (keep) "overlaps_entry dbg t M i" "\<not> removed_by dbg ptype t M i"
    | (cut) "overlaps_entry dbg t M i" "removed_by dbg ptype t M i"
    by blast
  then show ?case
  proof cases
    case skip
    then have "{j \<in> set (i # xs). removed_by dbg ptype t M j} = {j \<in> set xs. removed_by dbg ptype t M j}"
      by (auto simp: removed_by_def)
    moreover have "lookup_walk dbg t (on_match emit ptype) (Some i) (M, (c, False)) = lookup_walk dbg t (on_match emit ptype) (first_of xs) (M, (c, False))"
      unfolding nx [symmetric] by (rule walk_skip [OF skip chk])
    ultimately show ?thesis
      using Cons.IH [OF rep Cons.prems(2) B1 Cons.prems(4), of c] skip by (simp only: list.distinct if_False list.sel filter.simps)
  next
    case keep
    then have "{j \<in> set (i # xs). removed_by dbg ptype t M j} = {j \<in> set xs. removed_by dbg ptype t M j}"
      by auto
    moreover obtain st where "check_overlap dbg t (tm_pool M ! i) = Inr st"
      using chk keep(1) by (auto simp: overlaps_entry_def)
    then have "lookup_walk dbg t (on_match emit ptype) (Some i) (M, (c, False)) = lookup_walk dbg t (on_match emit ptype) (first_of xs) (M, (?c, False))"
      using walk_step [OF keep(1) _ go] keep(2) unfolding nx [symmetric] by simp
    ultimately show ?thesis
      using Cons.IH [OF rep Cons.prems(2) B1 Cons.prems(4), of ?c] keep(1)
      by (simp only: list.distinct if_False if_True list.sel filter.simps list.map fold_simps)
  next
    case cut
    then obtain st where st: "check_overlap dbg t (tm_pool M ! i) = Inr st"
      using chk by (auto simp: overlaps_entry_def)
    obtain M1 where e: "remove_entry i M = (Inr (), M1)" and out: "taken_out {i} M M1" and rep1: "tm_rep {} (cut_all i B) (\<lambda>r. cut_all i (T r)) M1"
      using remove_rep [OF rep reg(1)] by metis
    have B1': "cut_all i B b = ys @ xs"
      using Cons.prems(3) Bb(2) by (simp add: cut_all_def remove1_append)
    have b1: "b < tm_num_buckets M1"
      using out Cons.prems(2) by (simp add: taken_out_def tm_frame_def)
    have xsM: "j < length (tm_pool M)" "j \<noteq> i" if "j \<in> set xs" for j
      using that Bb(2) Bb(3) [of j] Cons.prems(3) by auto
    have same: "filter (overlaps_entry dbg t M1) xs = filter (overlaps_entry dbg t M) xs"
      "map (\<lambda>j. te_producer (tm_pool M1 ! j)) (filter (overlaps_entry dbg t M) xs) = map (\<lambda>j. te_producer (tm_pool M ! j)) (filter (overlaps_entry dbg t M) xs)"
      "\<And>j. j \<in> set xs \<Longrightarrow> removed_by dbg ptype t M1 j = removed_by dbg ptype t M j"
      using taken_out_match [OF out] taken_out_fields(1) [OF out] xsM by (auto simp: removed_by_def intro: filter_cong)
    obtain M' B' T' where ih: "lookup_walk dbg t (on_match emit ptype) (first_of xs) (M1, (?c, False))
        = Some (Inr (), (M', (fold ?f (map (\<lambda>i. te_producer (tm_pool M1 ! i)) (filter (overlaps_entry dbg t M1) xs)) ?c, False)))"
      "tm_rep {} B' T' M'" "taken_out {j \<in> set xs. removed_by dbg ptype t M1 j} M1 M'"
      using Cons.IH [OF rep1 b1 B1' comparable_taken_out [OF Cons.prems(4) out], of ?c] by blast
    have R: "{i} \<union> {j \<in> set xs. removed_by dbg ptype t M1 j} = {j \<in> set (i # xs). removed_by dbg ptype t M j}"
      using same(3) cut(2) by auto
    have "lookup_walk dbg t (on_match emit ptype) (Some i) (M, (c, False)) =
        Some (Inr (), (M', (fold ?f (map (\<lambda>i. te_producer (tm_pool M ! i)) (filter (overlaps_entry dbg t M) (i # xs))) c, False)))"
      using walk_step [OF cut(1) st go] cut e nx ih(1) same(1,2) by simp
    moreover have "taken_out {j \<in> set (i # xs). removed_by dbg ptype t M j} M M'"
      using taken_out_trans [OF out ih(3)] R by simp
    ultimately show ?thesis
      using ih(2) by auto
  qed
qed

end
