(* ===== verification/L2TensorMapOps.thy ===== *)
theory L2TensorMapOps
  imports L2TensorMapProps
begin

text \<open>
  The effect of the whole operations of the device tensor map on its live registrations: a lookup, an insertion and the
  initialisation.
\<close>

text \<open>A lookup returns, and its callback sees exactly the live overlapping entries; \<open>INOUT\<close> takes the covered ones out.\<close>

lemma lookup_ok:
  assumes go: "\<And>p c. snd (emit p c)" and inv: "tm_inv M" and cmp: "comparable dbg t M"
  shows "\<exists>M' is. tensormap_lookup dbg t (on_match emit ptype) (M, (c, False))
        = Some (Inr (), (M', (fold (\<lambda>p c. fst (emit p c)) (map (\<lambda>i. te_producer (tm_pool M ! i)) is) c, False)))
      \<and> distinct is \<and> set is = {i \<in> registered M. overlaps_entry dbg t M i} \<and> tm_inv M'
      \<and> taken_out {i \<in> registered M. removed_by dbg ptype t M i} M M'"
proof -
  obtain B T where rep: "tm_rep {} B T M"
    using inv by (auto simp: tm_inv_def)
  obtain b where b: "b < tm_num_buckets M" "hash_index (buf_addr (tn_buffer t)) M = Inr b"
    using hash_index_ok [OF rep_parts(1) [OF rep]] by blast
  note Bb = rep_bucket [OF rep b(1)]
  obtain M' B' T' where w: "lookup_walk dbg t (on_match emit ptype) (first_of (B b)) (M, (c, False))
      = Some (Inr (), (M', (fold (\<lambda>p c. fst (emit p c)) (map (\<lambda>i. te_producer (tm_pool M ! i)) (filter (overlaps_entry dbg t M) (B b))) c, False)))"
    "tm_rep {} B' T' M'" "taken_out {i \<in> set (B b). removed_by dbg ptype t M i} M M'"
    using walk_ok [where emit = emit and ptype = ptype and ys = "[]" and xs = "B b" and c = c, OF go rep b(1) _ cmp] by auto
  have in_b: "i \<in> set (B b)" if reg: "i \<in> registered M" and ov: "overlaps_entry dbg t M i" for i
  proof -
    obtain b' where "b' < tm_num_buckets M" "i \<in> set (B b')" "hash_index (te_buffer_addr (tm_pool M ! i)) M = Inr b'"
      using rep_registered [OF rep reg] by metis
    then show ?thesis
      using ov b(2) unfolding overlaps_entry_def by simp
  qed
  have reg_b: "i \<in> registered M" if "i \<in> set (B b)" for i
    using that Bb(3) [of i] by (simp add: registered_def)
  have "tm_buckets M ! b = first_of (B b)"
    by (rule linked_head [OF Bb(1)])
  then have "tensormap_lookup dbg t (on_match emit ptype) (M, (c, False)) = lookup_walk dbg t (on_match emit ptype) (first_of (B b)) (M, (c, False))"
    using b by (simp add: tensormap_lookup_def)
  moreover have "{i \<in> set (B b). removed_by dbg ptype t M i} = {i \<in> registered M. removed_by dbg ptype t M i}"
    using in_b reg_b by (auto simp: removed_by_def)
  moreover have "set (filter (overlaps_entry dbg t M) (B b)) = {i \<in> registered M. overlaps_entry dbg t M i}"
    using in_b reg_b by auto
  moreover have "distinct (filter (overlaps_entry dbg t M) (B b))"
    using Bb(2) by simp
  moreover have "tm_inv M'"
    using w(2) unfolding tm_inv_def by blast
  ultimately show ?thesis
    using w(1,3) by (intro exI [of _ M'] exI [of _ "filter (overlaps_entry dbg t M) (B b)"]) simp
qed

subsection \<open>Insertion and initialisation\<close>

text \<open>The entries left for registrations.\<close>

definition tm_room :: "PTO2TensorMap \<Rightarrow> nat" where
  "tm_room M = length (tm_pool M) - card (registered M)"

lemma finite_registered [simp]: "finite (registered M)"
  by (simp add: registered_def)

lemma room_entry:
  assumes "tm_inv M"
  shows "0 < tm_room M \<longleftrightarrow> tm_free M \<noteq> [] \<or> tm_next_entry_idx M < length (tm_pool M)"
proof -
  obtain B T where rep: "tm_rep {} B T M"
    using assms by (auto simp: tm_inv_def)
  have fr: "tm_next_entry_idx M \<le> length (tm_pool M)" "distinct (tm_free M)"
    "set (tm_free M) = {i. i < tm_next_entry_idx M \<and> bkt M i = - 1}"
    using rep_parts(6) [OF rep] by (auto simp: free_ok_def)
  have lt: "i < tm_next_entry_idx M" if "i \<in> registered M" for i
    using rep_parts(5) [OF rep] that by (auto simp: entries_ok_def registered_def)
  have "{..< tm_next_entry_idx M} = registered M \<union> set (tm_free M)"
    using fr(1) lt unfolding fr(3) by (auto simp: registered_def)
  moreover have "registered M \<inter> set (tm_free M) = {}"
    unfolding fr(3) by (auto simp: registered_def)
  ultimately have "tm_next_entry_idx M = card (registered M) + length (tm_free M)"
    using card_Un_disjoint [of "registered M" "set (tm_free M)"] distinct_card [OF fr(2)] by (metis card_lessThan finite_registered finite_set)
  then show ?thesis
    using fr(1) by (cases "tm_free M") (auto simp: tm_room_def)
qed

lemma content_reg:
  assumes "content e = reg_entry t p"
  shows "te_producer e = p" "te_ring e = unat (tid_ring p)" "te_buffer_addr e = buf_addr (tn_buffer t)"
    "check_overlap dbg u e = check_overlap dbg u (copy_from_tensor t empty_entry)"
proof -
  show "te_producer e = p" "te_ring e = unat (tid_ring p)" "te_buffer_addr e = buf_addr (tn_buffer t)"
    using assms by (metis content_fields reg_entry_fields)+
  have "check_overlap dbg u e = check_overlap dbg u (reg_entry t p)"
    using assms check_overlap_content by metis
  also have "\<dots> = check_overlap dbg u ((copy_from_tensor t empty_entry)\<lparr>te_producer := p\<rparr>)"
    by (simp add: reg_entry_def check_overlap_content)
  also have "\<dots> = check_overlap dbg u (copy_from_tensor t empty_entry)"
    by (simp add: check_overlap_def effective_extent_elem_def cong: if_cong)
  finally show "check_overlap dbg u e = check_overlap dbg u (copy_from_tensor t empty_entry)" .
qed

text \<open>\<open>M'\<close> is \<open>M\<close> with registrations of the tensors \<open>ts\<close> by \<open>p\<close>.\<close>

definition registers :: "PTO2TaskId \<Rightarrow> Tensor list \<Rightarrow> PTO2TensorMap \<Rightarrow> PTO2TensorMap \<Rightarrow> bool" where
  "registers p ts M M' \<longleftrightarrow> tm_frame M M' \<and> registered M \<subseteq> registered M'
     \<and> (\<forall>x \<in> registered M. content (tm_pool M' ! x) = content (tm_pool M ! x))
     \<and> (\<forall>x \<in> registered M' - registered M. \<exists>t \<in> set ts. content (tm_pool M' ! x) = reg_entry t p)
     \<and> (\<forall>t \<in> set ts. \<exists>x \<in> registered M'. content (tm_pool M' ! x) = reg_entry t p)
     \<and> card (registered M') \<le> card (registered M) + length ts"

lemma registers_Nil [simp]: "registers p [] M M"
  by (simp add: registers_def)

lemma registers_append:
  assumes "registers p ts M M'" and "registers p us M' M''"
  shows "registers p (ts @ us) M M''"
proof -
  note A = assms [unfolded registers_def]
  have "\<exists>t \<in> set (ts @ us). content (tm_pool M'' ! x) = reg_entry t p" if "x \<in> registered M'' - registered M" for x
    using that A by (cases "x \<in> registered M'") auto
  moreover have "\<exists>x \<in> registered M''. content (tm_pool M'' ! x) = reg_entry t p" if t: "t \<in> set (ts @ us)" for t
  proof (cases "t \<in> set us")
    case False
    then obtain x where "x \<in> registered M'" "content (tm_pool M' ! x) = reg_entry t p"
      using t A by auto
    then show ?thesis
      using A by (intro bexI [of _ x]) auto
  qed (use A in blast)
  moreover have "tm_frame M M''" "registered M \<subseteq> registered M''" "card (registered M'') \<le> card (registered M) + length (ts @ us)"
    "\<forall>x \<in> registered M. content (tm_pool M'' ! x) = content (tm_pool M ! x)"
    using A by (auto intro: tm_frame_trans)
  ultimately show ?thesis
    unfolding registers_def by blast
qed

lemma insert_ok:
  assumes inv: "tm_inv M" and r: "unat (tid_ring p) < PTO2_MAX_RING_DEPTH" and room: "0 < tm_room M"
  shows "\<exists>M'. tensormap_insert dbg t p M = (Inr (), M') \<and> tm_inv M' \<and> registers p [t] M M'"
proof -
  obtain B T where rep: "tm_rep {} B T M"
    using inv by (auto simp: tm_inv_def)
  obtain i b s M' where ins: "tensormap_insert dbg t p M = (Inr (), M')" and b: "b < tm_num_buckets M"
    and s: "s < tm_windows M ! unat (tid_ring p)"
    and p: "pushed i b (unat (tid_ring p)) s M M'" and c: "content (tm_pool M' ! i) = reg_entry t p"
    using insert_pushed [OF rep r room [unfolded room_entry [OF inv]], of dbg t] by metis
  note P = pushedD [OF p] and regs = pushed_registered [OF p]
  have "content (tm_pool M' ! x) = content (tm_pool M ! x)" if "x \<in> registered M" for x
    using that P(3,12) by (auto simp: registered_def)
  then have "registers p [t] M M'"
    using P(1) c unfolding registers_def regs by (auto simp: card_insert_if)
  moreover have "tm_inv M'"
    using pushed_rep [OF rep b r s p] by (auto simp: tm_inv_def)
  ultimately show ?thesis
    using ins by blast
qed

lemma registers_fresh:
  assumes fresh: "tm_fresh M" and reg: "registers (tid_make (of_nat r) (i32 L)) ts M M'" and r: "r < PTO2_MAX_RING_DEPTH"
    and L: "tm_last_cleanup M ! r \<le> L" "L < tm_last_cleanup M ! r + int (tm_windows M ! r)" "L < 2 ^ 31"
  shows "tm_fresh M'"
  unfolding tm_fresh_def
proof (intro conjI ballI)
  let ?p = "tid_make (of_nat r) (i32 L)"
  note R = reg [unfolded registers_def]
  have fr: "tm_last_cleanup M' = tm_last_cleanup M" "tm_windows M' = tm_windows M"
    using R by (simp_all add: tm_frame_def)
  show "\<forall>r < PTO2_MAX_RING_DEPTH. 0 \<le> tm_last_cleanup M' ! r"
    using fresh fr by (simp add: tm_fresh_def)
  then have L0: "0 \<le> L"
    using L(1) r fr by fastforce
  fix x
  assume x: "x \<in> registered M'"
  show "let e = tm_pool M' ! x; c = tm_last_cleanup M' ! te_ring e
      in te_producer e = tid_make (tid_ring (te_producer e)) (tid_local (te_producer e)) \<and> c \<le> te_local e
       \<and> te_local e < c + int (tm_windows M' ! te_ring e)"
  proof (cases "x \<in> registered M")
    case True
    then have "content (tm_pool M' ! x) = content (tm_pool M ! x)"
      using R by blast
    then show ?thesis
      using fresh True fr content_eqD(1,3) [of "tm_pool M' ! x" "tm_pool M ! x"] by (simp add: tm_fresh_def Let_def)
  next
    case False
    then obtain t where "content (tm_pool M' ! x) = reg_entry t ?p"
      using R x by blast
    then have "te_producer (tm_pool M' ! x) = ?p" "te_ring (tm_pool M' ! x) = unat (of_nat r :: u8)"
      using content_reg [of "tm_pool M' ! x" t ?p] by simp_all
    then show ?thesis
      using L L0 fr ring_of_nat [OF r] by (simp add: Let_def sint_i32)
  qed
qed

lemma insert_full:
  assumes "tm_inv M" and "tm_room M = 0"
  shows "tensormap_insert dbg t p M = (Inl (assert_failed ''next_entry_idx < pool_size''), M)"
  using assms room_entry [OF assms(1)] by (simp add: tensormap_insert_def new_entry_full)

lemma tensormap_init_ok:
  assumes init: "tensormap_init alloc nb ps ws = Some M" and nb: "nb = 2 ^ k" "0 < k" "k < 32"
    and ws: "length ws = PTO2_MAX_RING_DEPTH" "\<forall>w \<in> set ws. \<exists>j < 31. w = 2 ^ j"
  shows "tm_inv M" "tm_fresh M" "registered M = {}" "tm_last_alives M = replicate PTO2_MAX_RING_DEPTH 0"
    "tm_last_cleanup M = replicate PTO2_MAX_RING_DEPTH 0" "tm_windows M = ws"
proof -
  have M: "M = \<lparr>tm_buckets = replicate nb None, tm_num_buckets = nb, tm_pool = replicate ps empty_entry, tm_free = [], tm_next_entry_idx = 0,
      tm_task_heads = map (\<lambda>w. replicate w None) ws, tm_windows = ws,
      tm_last_alives = replicate PTO2_MAX_RING_DEPTH 0, tm_last_cleanup = replicate PTO2_MAX_RING_DEPTH 0\<rparr>"
    using init ws by (simp add: tensormap_init_def split: if_splits)
  show regs: "registered M = {}"
    by (auto simp: M registered_def empty_entry_def)
  have "tm_geo M"
    using nb ws by (auto simp: M tm_geo_def)
  then have "tm_rep {} (\<lambda>_. []) (\<lambda>_ _. []) M"
    using ws regs unfolding tm_rep_def
    by (simp add: M tm_rep_def buckets_ok_def tasks_ok_def members_ok_def entries_ok_def free_ok_def empty_entry_def)
  then show "tm_inv M"
    by (auto simp: tm_inv_def)
  show "tm_fresh M"
    using regs by (simp add: tm_fresh_def M)
  show "tm_last_alives M = replicate PTO2_MAX_RING_DEPTH 0" "tm_last_cleanup M = replicate PTO2_MAX_RING_DEPTH 0" "tm_windows M = ws"
    by (simp_all add: M)
qed

end
