(* ===== verification/L2DepsProps.thy ===== *)
theory L2DepsProps
  imports L2TensorMapOps L2Deps
begin

text \<open>
  What dependency computation promises. A task that reads a tensor is ordered after every earlier task that wrote an
  element of it, directly or through other tasks, unless that writer or a task ordered after it has retired. The
  registrations of the tensor map are related to the writes of the past by \<open>tracked\<close>; one submission extends it.
\<close>

subsection \<open>The accesses of a submission\<close>

definition arg_reads :: "dep_arg list \<Rightarrow> Tensor list" where
  "arg_reads as = [t. (ty, Some t) \<leftarrow> as, ty = INPUT \<or> ty = INOUT, \<not> tn_manual_dep t]"

definition arg_writes :: "dep_arg list \<Rightarrow> Tensor list" where
  "arg_writes as = [t. (ty, Some t) \<leftarrow> as, ty = INOUT \<or> ty = OUTPUT_EXISTING, \<not> tn_manual_dep t]"

definition arg_owners :: "dep_arg list \<Rightarrow> PTO2TaskId list" where
  "arg_owners as = [tn_owner t. (ty, Some t) \<leftarrow> as, ty \<noteq> OUTPUT, tid_is_valid (tn_owner t)]"

text \<open>Only \<open>OUTPUT\<close> arguments come without a tensor.\<close>

definition args_given :: "dep_arg list \<Rightarrow> bool" where
  "args_given as \<longleftrightarrow> list_all (\<lambda>(ty, x). ty = OUTPUT \<or> x \<noteq> None) as"

lemma access_Nil [simp]: "arg_reads [] = []" "arg_writes [] = []" "arg_owners [] = []" "args_given []"
  by (simp_all add: arg_reads_def arg_writes_def arg_owners_def args_given_def)

lemma access_Cons [simp]:
  "arg_reads ((ty, Some t) # as) = (if (ty = INPUT \<or> ty = INOUT) \<and> \<not> tn_manual_dep t then [t] else []) @ arg_reads as"
  "arg_writes ((ty, Some t) # as) = (if (ty = INOUT \<or> ty = OUTPUT_EXISTING) \<and> \<not> tn_manual_dep t then [t] else []) @ arg_writes as"
  "arg_owners ((ty, Some t) # as) = (if ty \<noteq> OUTPUT \<and> tid_is_valid (tn_owner t) then [tn_owner t] else []) @ arg_owners as"
  "arg_reads ((ty, None) # as) = arg_reads as" "arg_writes ((ty, None) # as) = arg_writes as"
  "arg_owners ((ty, None) # as) = arg_owners as"
  "args_given ((ty, x) # as) \<longleftrightarrow> (ty = OUTPUT \<or> x \<noteq> None) \<and> args_given as"
  by (simp_all add: arg_reads_def arg_writes_def arg_owners_def args_given_def)

subsection \<open>Computing the producers\<close>

text \<open>The producers of the live entries that overlap one of the tensors \<open>ts\<close>.\<close>

definition writers_of :: "bool \<Rightarrow> Tensor set \<Rightarrow> PTO2TensorMap \<Rightarrow> PTO2TaskId set" where
  "writers_of dbg ts M = {te_producer (tm_pool M ! i) |i. i \<in> registered M \<and> (\<exists>t \<in> ts. overlaps_entry dbg t M i)}"

text \<open>The entries taken out are covered by a tensor that is read and written, and their producers have been reported.\<close>

definition superseded :: "bool \<Rightarrow> dep_arg list \<Rightarrow> PTO2TensorMap \<Rightarrow> nat set \<Rightarrow> bool" where
  "superseded dbg as M R \<longleftrightarrow> R \<subseteq> registered M \<and>
     (\<forall>i \<in> R. \<exists>t \<in> set (arg_reads as) \<inter> set (arg_writes as). overlaps_entry dbg t M i \<and> check_overlap dbg t (tm_pool M ! i) = Inr COVERED)"

definition fanin_found :: "bool \<Rightarrow> dep_arg list \<Rightarrow> PTO2TensorMap \<Rightarrow> PTO2TaskId list \<Rightarrow> PTO2TensorMap \<Rightarrow> bool" where
  "fanin_found dbg as M ps M' \<longleftrightarrow> tm_inv M' \<and> set ps = set (arg_owners as) \<union> writers_of dbg (set (arg_reads as)) M
     \<and> (\<exists>R. taken_out R M M' \<and> superseded dbg as M R)"

lemma fanin_arg_ok:
  assumes go: "\<And>p c. snd (emit p c)" and inv: "tm_inv M" and given: "args_given [a]"
    and cmp: "\<forall>t \<in> set (arg_reads [a]). comparable dbg t M"
  shows "\<exists>M' ps. fanin_arg dbg emit a (M, c) = Some (Inr True, (M', fold (\<lambda>p c. fst (emit p c)) ps c)) \<and> fanin_found dbg [a] M ps M'"
proof -
  obtain ty x where a: "a = (ty, x)"
    by (cases a)
  consider "ty = OUTPUT" | t where "ty \<noteq> OUTPUT" "x = Some t"
    using given by (cases x) (auto simp: a)
  then show ?thesis
  proof cases
    case 1
    then have "fanin_arg dbg emit a (M, c) = Some (Inr True, (M, fold (\<lambda>p c. fst (emit p c)) [] c))"
      by (simp add: a fanin_arg_def)
    moreover have "fanin_found dbg [a] M [] M"
      using 1 inv by (cases x) (simp_all add: a fanin_found_def writers_of_def superseded_def exI [of _ "{}"])
    ultimately show ?thesis
      by blast
  next
    case (2 t)
    define os where "os = (if tid_is_valid (tn_owner t) then [tn_owner t] else [])"
    define c1 where "c1 = fold (\<lambda>p c. fst (emit p c)) os c"
    have own: "(if tid_is_valid (tn_owner t) then emit (tn_owner t) c else (c, True)) = (c1, True)"
      using go [of "tn_owner t" c] by (simp add: c1_def os_def prod_eq_iff)
    show ?thesis
    proof (cases "(ty = INPUT \<or> ty = INOUT) \<and> \<not> tn_manual_dep t")
      case False
      then have "fanin_arg dbg emit a (M, c) = Some (Inr True, (M, c1))"
        using 2 own by (auto simp: a fanin_arg_def)
      moreover have "fanin_found dbg [a] M os M"
        using False 2 inv by (auto simp: a fanin_found_def writers_of_def superseded_def os_def intro!: exI [of _ "{}"])
      ultimately show ?thesis
        unfolding c1_def by blast
    next
      case True
      then have cm: "comparable dbg t M"
        using cmp 2 by (simp add: a)
      obtain M' es where lk: "tensormap_lookup dbg t (on_match emit ty) (M, (c1, False))
            = Some (Inr (), (M', (fold (\<lambda>p c. fst (emit p c)) (map (\<lambda>i. te_producer (tm_pool M ! i)) es) c1, False)))"
          "set es = {i \<in> registered M. overlaps_entry dbg t M i}" "tm_inv M'"
          "taken_out {i \<in> registered M. removed_by dbg ty t M i} M M'"
        using lookup_ok [where emit = emit and ptype = ty and c = c1, OF go inv cm] by blast
      let ?ps = "os @ map (\<lambda>i. te_producer (tm_pool M ! i)) es"
      have "fanin_arg dbg emit a (M, c) = Some (Inr True, (M', fold (\<lambda>p c. fst (emit p c)) ?ps c))"
        using True 2 own lk(1) by (auto simp: a fanin_arg_def c1_def)
      moreover have "superseded dbg [a] M {i \<in> registered M. removed_by dbg ty t M i}"
        using True 2 by (auto simp: a superseded_def removed_by_def)
      moreover have "set ?ps = set (arg_owners [a]) \<union> writers_of dbg (set (arg_reads [a])) M"
        using True 2 lk(2) by (auto simp: a writers_of_def os_def)
      ultimately show ?thesis
        using lk(3,4) unfolding fanin_found_def by blast
    qed
  qed
qed

lemma access_step:
  "arg_reads (a # as) = arg_reads [a] @ arg_reads as" "arg_writes (a # as) = arg_writes [a] @ arg_writes as"
  "arg_owners (a # as) = arg_owners [a] @ arg_owners as" "args_given (a # as) \<longleftrightarrow> args_given [a] \<and> args_given as"
  by (simp_all add: arg_reads_def arg_writes_def arg_owners_def args_given_def)

lemma writers_of_step:
  assumes out: "taken_out R M M1" and sup: "superseded dbg as M R"
  shows "writers_of dbg (set (arg_reads as)) M \<union> writers_of dbg ts M1 = writers_of dbg (set (arg_reads as) \<union> ts) M"
proof -
  have same: "te_producer (tm_pool M1 ! i) = te_producer (tm_pool M ! i) \<and> overlaps_entry dbg t M1 i = overlaps_entry dbg t M i"
    if "i \<in> registered M" for i t
    using that taken_out_fields(1) [OF out] taken_out_match(1) [OF out] by (simp add: registered_def)
  have reg: "registered M1 = registered M - R"
    using out by (simp add: taken_out_def)
  have "\<exists>t \<in> set (arg_reads as). overlaps_entry dbg t M i" if "i \<in> R" for i
    using that sup by (auto simp: superseded_def)
  then show ?thesis
    unfolding writers_of_def reg using same by (auto 0 3) blast
qed

lemma superseded_step:
  assumes out: "taken_out R M M1" and "superseded dbg [a] M R" and "superseded dbg as M1 R'"
  shows "superseded dbg (a # as) M (R \<union> R')"
proof -
  have "R' \<subseteq> registered M"
    using assms by (auto simp: superseded_def taken_out_def)
  then have "overlaps_entry dbg t M1 i = overlaps_entry dbg t M i" "check_overlap dbg t (tm_pool M1 ! i) = check_overlap dbg t (tm_pool M ! i)"
    if "i \<in> R'" for i t
    using that taken_out_match(1,2) [OF out] by (auto simp: registered_def)
  then show ?thesis
    using assms(2,3) \<open>R' \<subseteq> registered M\<close> unfolding superseded_def access_step(1,2) [of a as] by (auto 0 4)
qed

lemma fanin_args_ok:
  assumes go: "\<And>p c. snd (emit p c)"
  shows "tm_inv M \<Longrightarrow> args_given as \<Longrightarrow> \<forall>t \<in> set (arg_reads as). comparable dbg t M \<Longrightarrow>
    \<exists>M' ps. fanin_args dbg emit as (M, c) = Some (Inr True, (M', fold (\<lambda>p c. fst (emit p c)) ps c)) \<and> fanin_found dbg as M ps M'"
proof (induction as arbitrary: M c)
  case Nil
  then show ?case
    by (intro exI [of _ M] exI [of _ "[]"]) (auto simp: fanin_found_def writers_of_def superseded_def intro!: exI [of _ "{}"])
next
  case (Cons a as)
  have "args_given [a]" and given: "args_given as" and cm: "\<forall>t \<in> set (arg_reads [a]). comparable dbg t M" "\<forall>t \<in> set (arg_reads as). comparable dbg t M"
    using Cons.prems(2,3) by (simp_all add: access_step [of a as])
  then obtain M1 ps1 R1 where one: "fanin_arg dbg emit a (M, c) = Some (Inr True, (M1, fold (\<lambda>p c. fst (emit p c)) ps1 c))"
    "tm_inv M1" "set ps1 = set (arg_owners [a]) \<union> writers_of dbg (set (arg_reads [a])) M" "taken_out R1 M M1" "superseded dbg [a] M R1"
    using fanin_arg_ok [where emit = emit and c = c, OF go Cons.prems(1)] unfolding fanin_found_def by blast
  have "\<forall>t \<in> set (arg_reads as). comparable dbg t M1"
    using cm(2) comparable_taken_out [OF _ one(4)] by blast
  then obtain M' ps2 R2 where two: "fanin_args dbg emit as (M1, fold (\<lambda>p c. fst (emit p c)) ps1 c)
        = Some (Inr True, (M', fold (\<lambda>p c. fst (emit p c)) ps2 (fold (\<lambda>p c. fst (emit p c)) ps1 c)))"
    "tm_inv M'" "set ps2 = set (arg_owners as) \<union> writers_of dbg (set (arg_reads as)) M1" "taken_out R2 M1 M'" "superseded dbg as M1 R2"
    using Cons.IH [OF one(2) given] unfolding fanin_found_def by blast
  have "fanin_args dbg emit (a # as) (M, c) = Some (Inr True, (M', fold (\<lambda>p c. fst (emit p c)) (ps1 @ ps2) c))"
    using one(1) two(1) by simp
  moreover have "set (ps1 @ ps2) = set (arg_owners (a # as)) \<union> writers_of dbg (set (arg_reads (a # as))) M"
    using writers_of_step [OF one(4,5), of "set (arg_reads as)"] one(3) two(3) by (simp add: access_step [of a as] Un_ac)
  ultimately show ?case
    using two(2) taken_out_trans [OF one(4) two(4)] superseded_step [OF one(4,5) two(5)] unfolding fanin_found_def by blast
qed

subsection \<open>Registering the outputs\<close>

lemma register_arg_cases:
  assumes "args_given [a]"
  obtains (insert) t where "arg_writes [a] = [t]" "\<And>M. register_arg dbg p a M = tensormap_insert dbg t p M"
  | (skip) "arg_writes [a] = []" "\<And>M. register_arg dbg p a M = (Inr (), M)"
proof (cases a)
  case (Pair ty x)
  show thesis
  proof (cases "\<exists>t. x = Some t \<and> (ty = INOUT \<or> ty = OUTPUT_EXISTING) \<and> \<not> tn_manual_dep t")
    case True
    then obtain t where "arg_writes [a] = [t]" "\<And>M. register_arg dbg p a M = tensormap_insert dbg t p M"
      by (auto simp: Pair register_arg_def)
    then show thesis
      by (rule insert)
  next
    case False
    then have "arg_writes [a] = []" "\<And>M. register_arg dbg p a M = (Inr (), M)"
      using assms by (cases x; auto simp: Pair register_arg_def)+
    then show thesis
      by (rule skip)
  qed
qed

lemma register_args_ok:
  "tm_inv M \<Longrightarrow> args_given as \<Longrightarrow> unat (tid_ring p) < PTO2_MAX_RING_DEPTH \<Longrightarrow> length (arg_writes as) \<le> tm_room M \<Longrightarrow>
    \<exists>M'. for_each (register_arg dbg p) as M = (Inr (), M')"
  "tm_inv M \<Longrightarrow> args_given as \<Longrightarrow> unat (tid_ring p) < PTO2_MAX_RING_DEPTH \<Longrightarrow> for_each (register_arg dbg p) as M = (Inr (), M') \<Longrightarrow>
    tm_inv M' \<and> registers p (arg_writes as) M M'"
proof (induction as arbitrary: M)
  case (Cons a as)
  note IH = Cons.IH
  {
    case 1
    then have given: "args_given [a]" "args_given as"
      by (simp_all add: access_step(4) [of a as])
    show ?case
      using given(1)
    proof (cases rule: register_arg_cases [of a dbg p])
      case (insert t)
      then have n: "Suc (length (arg_writes as)) \<le> tm_room M"
        using 1(4) by (simp add: access_step(2) [of a as])
      then obtain M1 where one: "tensormap_insert dbg t p M = (Inr (), M1)" "tm_inv M1" "registers p [t] M M1"
        using insert_ok [OF 1(1,3), of dbg t] by auto
      have "length (tm_pool M1) = length (tm_pool M)" "card (registered M1) \<le> card (registered M) + 1"
        using one(3) by (simp_all add: registers_def tm_frame_def)
      then have "length (arg_writes as) \<le> tm_room M1"
        using n by (simp add: tm_room_def)
      then show ?thesis
        using IH(1) [OF one(2) given(2) 1(3)] insert(2) one(1) by simp
    next
      case skip
      then show ?thesis
        using IH(1) [OF 1(1) given(2) 1(3)] 1(4) by (simp add: access_step(2) [of a as])
    qed
  next
    case 2
    then have given: "args_given [a]" "args_given as"
      by (simp_all add: access_step(4) [of a as])
    show ?case
      using given(1)
    proof (cases rule: register_arg_cases [of a dbg p])
      case (insert t)
      then have "tm_room M \<noteq> 0"
        using 2(4) insert_full [OF 2(1), of dbg t p] by (cases "tm_room M = 0") auto
      then obtain M1 where one: "tensormap_insert dbg t p M = (Inr (), M1)" "tm_inv M1" "registers p [t] M M1"
        using insert_ok [OF 2(1,3), of dbg t] by auto
      then have "tm_inv M'" "registers p (arg_writes as) M1 M'"
        using IH(2) [OF one(2) given(2) 2(3)] 2(4) insert(2) by simp_all
      then show ?thesis
        using registers_append [OF one(3)] insert(1) by (simp add: access_step(2) [of a as])
    next
      case skip
      then show ?thesis
        using IH(2) [OF 2(1) given(2) 2(3)] 2(4) by (simp add: access_step(2) [of a as])
    qed
  }
qed simp_all

subsection \<open>Tracking the writers\<close>

text \<open>
  The tensors of a program are coherent when they are valid and those of one buffer address are views of one storage
  with one element type and version.
\<close>

definition same_storage :: "Tensor \<Rightarrow> Tensor \<Rightarrow> bool" where
  "same_storage t u \<longleftrightarrow> tn_buffer t = tn_buffer u \<and> tn_dtype t = tn_dtype u \<and> tn_version t = tn_version u"

definition coherent :: "Tensor set \<Rightarrow> bool" where
  "coherent S \<longleftrightarrow> (\<forall>t \<in> S. valid_tensor t \<and> (\<forall>u \<in> S. buf_addr (tn_buffer t) = buf_addr (tn_buffer u) \<longrightarrow> same_storage t u))"

text \<open>Two tensors of one buffer with a common element.\<close>

definition shares :: "Tensor \<Rightarrow> Tensor \<Rightarrow> bool" where
  "shares t u \<longleftrightarrow> buf_addr (tn_buffer t) = buf_addr (tn_buffer u) \<and> elems t \<inter> elems u \<noteq> {}"

definition gone :: "PTO2TensorMap \<Rightarrow> PTO2TaskId \<Rightarrow> bool" where
  "gone M q \<longleftrightarrow> sint (tid_local q) < tm_last_alives M ! unat (tid_ring q)"

definition known :: "(PTO2TaskId \<times> Tensor) set \<Rightarrow> PTO2TensorMap \<Rightarrow> bool" where
  "known W M \<longleftrightarrow> (\<forall>i \<in> registered M. \<exists>(p, t) \<in> W. content (tm_pool M ! i) = reg_entry t p)"

definition held :: "(PTO2TaskId \<times> Tensor) set \<Rightarrow> PTO2TensorMap \<Rightarrow> Tensor \<Rightarrow> PTO2TaskId \<Rightarrow> bool" where
  "held W M u q \<longleftrightarrow> (\<exists>i \<in> registered M. \<exists>v. (q, v) \<in> W \<and> content (tm_pool M ! i) = reg_entry v q \<and> same_storage u v \<and> elems u \<subseteq> elems v)"

text \<open>
  Every write \<open>(p, u)\<close> of the past is held by a registration of \<open>p\<close> or of a task ordered after \<open>p\<close> that covers \<open>u\<close>, or such a
  task has retired.
\<close>

definition tracked :: "(PTO2TaskId \<times> PTO2TaskId) set \<Rightarrow> (PTO2TaskId \<times> Tensor) set \<Rightarrow> PTO2TensorMap \<Rightarrow> bool" where
  "tracked E W M \<longleftrightarrow> (\<forall>(p, u) \<in> W. \<exists>q. (p, q) \<in> E\<^sup>* \<and> (gone M q \<or> held W M u q))"

lemma same_storage_trans: "same_storage t u \<Longrightarrow> same_storage u v \<Longrightarrow> same_storage t v"
  by (simp add: same_storage_def)

lemma coherentD:
  assumes "coherent S" and "t \<in> S"
  shows "valid_tensor t" "u \<in> S \<Longrightarrow> buf_addr (tn_buffer t) = buf_addr (tn_buffer u) \<Longrightarrow> same_storage t u"
  using assms by (simp_all add: coherent_def)

lemma coherent_status:
  assumes S: "coherent S" "t \<in> S" "v \<in> S" and c: "content e = reg_entry v q" and addr: "te_buffer_addr e = buf_addr (tn_buffer t)"
  shows "\<exists>st. check_overlap dbg t e = Inr st \<and> status_sound t v st"
proof -
  have "same_storage t v"
    using coherentD(2) [OF S(1,2,3)] content_reg(3) [OF c] addr by simp
  then show ?thesis
    using check_overlap_status [OF coherentD(1) [OF S(1,2)] coherentD(1) [OF S(1,3)], of dbg empty_entry] content_reg(4) [OF c, of dbg t]
    by (auto simp: same_storage_def)
qed

lemma coherent_exact:
  assumes S: "coherent S" "t \<in> S" "v \<in> S" and c: "content e = reg_entry v q" and addr: "te_buffer_addr e = buf_addr (tn_buffer t)"
  shows "canonical t \<and> canonical v \<and> tn_strides t = tn_strides v \<Longrightarrow> check_overlap dbg t e = Inr NO_OVERLAP \<longleftrightarrow> elems t \<inter> elems v = {}"
proof -
  have "same_storage t v"
    using coherentD(2) [OF S(1,2,3)] content_reg(3) [OF c] addr by simp
  then show "canonical t \<and> canonical v \<and> tn_strides t = tn_strides v \<Longrightarrow> check_overlap dbg t e = Inr NO_OVERLAP \<longleftrightarrow> elems t \<inter> elems v = {}"
    using check_overlap_status [OF coherentD(1) [OF S(1,2)] coherentD(1) [OF S(1,3)], of dbg empty_entry] content_reg(4) [OF c, of dbg t]
    by (auto simp: same_storage_def status_exact_def)
qed

lemma known_comparable:
  assumes "known W M" and "coherent S" and "snd ` W \<subseteq> S" and "t \<in> S"
  shows "comparable dbg t M"
  unfolding comparable_def
proof (intro ballI impI)
  fix i
  assume i: "i \<in> registered M" and addr: "te_buffer_addr (tm_pool M ! i) = buf_addr (tn_buffer t)"
  then obtain q v where "(q, v) \<in> W" and c: "content (tm_pool M ! i) = reg_entry v q"
    using assms(1) by (auto simp: known_def)
  then have "v \<in> S"
    using assms(3) by force
  then show "\<exists>st. check_overlap dbg t (tm_pool M ! i) = Inr st"
    using coherent_status [OF assms(2,4) _ c addr] by blast
qed

lemma held_overlaps:
  assumes S: "coherent S" "t \<in> S" "v \<in> S" and c: "content (tm_pool M ! i) = reg_entry v q" and sh: "shares t v" and live: "\<not> gone M q"
  shows "overlaps_entry dbg t M i"
proof -
  have addr: "te_buffer_addr (tm_pool M ! i) = buf_addr (tn_buffer t)"
    using content_reg(3) [OF c] sh by (simp add: shares_def)
  obtain st where "check_overlap dbg t (tm_pool M ! i) = Inr st" "status_sound t v st"
    using coherent_status [OF S c addr] by blast
  moreover from this have "st \<noteq> NO_OVERLAP"
    using sh by (auto simp: status_sound_def shares_def)
  moreover have "entry_valid (tm_pool M ! i) M"
    using live content_reg(1) [OF c] by (simp add: entry_valid_def gone_def)
  ultimately show ?thesis
    using addr by (simp add: overlaps_entry_def)
qed

lemma superseded_covers:
  assumes S: "coherent S" "t \<in> S" "v \<in> S" and c: "content (tm_pool M ! i) = reg_entry v q"
    and cov: "overlaps_entry dbg t M i" "check_overlap dbg t (tm_pool M ! i) = Inr COVERED"
  shows "same_storage v t \<and> elems v \<subseteq> elems t"
proof -
  have addr: "te_buffer_addr (tm_pool M ! i) = buf_addr (tn_buffer t)"
    using cov(1) by (simp add: overlaps_entry_def)
  then have "same_storage v t"
    using coherentD(2) [OF S(1,3,2)] content_reg(3) [OF c] by simp
  then show ?thesis
    using coherent_status [OF S c addr, of dbg] cov(2) by (auto simp: status_sound_def)
qed

lemma submit_known:
  assumes "known W M" and out: "taken_out R M M1" and reg: "registers y ts M1 M2"
  shows "known (W \<union> {y} \<times> set ts) M2"
  unfolding known_def
proof
  fix i
  assume i: "i \<in> registered M2"
  show "\<exists>(p, t) \<in> W \<union> {y} \<times> set ts. content (tm_pool M2 ! i) = reg_entry t p"
  proof (cases "i \<in> registered M1")
    case True
    then have "content (tm_pool M2 ! i) = content (tm_pool M ! i)" "i \<in> registered M"
      using out reg by (auto simp: registers_def taken_out_def registered_def)
    then show ?thesis
      using assms(1) by (fastforce simp: known_def)
  next
    case False
    then show ?thesis
      using i reg by (fastforce simp: registers_def)
  qed
qed

lemma gone_frame: "tm_frame M M' \<Longrightarrow> gone M' q = gone M q"
  by (simp add: gone_def tm_frame_def)

lemma submit_held:
  assumes S: "coherent S" "snd ` W \<subseteq> S" "set (arg_reads as) \<subseteq> S"
    and out: "taken_out R M M1" and sup: "superseded dbg as M R" and reg: "registers y (arg_writes as) M1 M2"
    and h: "held W M u q"
  shows "held (W \<union> {y} \<times> set (arg_writes as)) M2 u q \<or> q \<in> writers_of dbg (set (arg_reads as)) M \<and> held (W \<union> {y} \<times> set (arg_writes as)) M2 u y"
proof -
  obtain i v where i: "i \<in> registered M" "(q, v) \<in> W" "content (tm_pool M ! i) = reg_entry v q" "same_storage u v" "elems u \<subseteq> elems v"
    using h by (auto simp: held_def)
  have v: "v \<in> S"
    using i(2) S(2) by force
  show ?thesis
  proof (cases "i \<in> R")
    case False
    then have "i \<in> registered M2" "content (tm_pool M2 ! i) = reg_entry v q"
      using i(1,3) out reg by (auto simp: registers_def taken_out_def registered_def)
    then show ?thesis
      using i unfolding held_def by blast
  next
    case True
    then obtain t where t: "t \<in> set (arg_reads as)" "t \<in> set (arg_writes as)" "overlaps_entry dbg t M i"
      "check_overlap dbg t (tm_pool M ! i) = Inr COVERED"
      using sup by (auto simp: superseded_def)
    have "same_storage v t \<and> elems v \<subseteq> elems t"
      using superseded_covers [OF S(1) _ v i(3) t(3,4)] t(1) S(3) by blast
    then have "same_storage u t" "elems u \<subseteq> elems t"
      using i(4,5) same_storage_trans by blast+
    moreover obtain x where "x \<in> registered M2" "content (tm_pool M2 ! x) = reg_entry t y"
      using reg t(2) by (auto simp: registers_def)
    ultimately have "held (W \<union> {y} \<times> set (arg_writes as)) M2 u y"
      using t(2) unfolding held_def by blast
    moreover have "q \<in> writers_of dbg (set (arg_reads as)) M"
      using i(1) t(1,3) content_reg(1) [OF i(3)] unfolding writers_of_def by blast
    ultimately show ?thesis
      by blast
  qed
qed

text \<open>A held write stays held, possibly by the new task, and the new task is ordered after the live holder of what it reads.\<close>

lemma submit_holder:
  assumes S: "coherent S" "snd ` W \<subseteq> S" "set (arg_reads as) \<subseteq> S"
    and fan: "fanin_found dbg as M ps M1" and reg: "registers y (arg_writes as) M1 M2"
    and q: "(p, q) \<in> E\<^sup>*" "held W M u q" and ps: "set ps \<times> {y} \<subseteq> E'" and E: "E \<subseteq> E'"
  shows "\<exists>q'. (p, q') \<in> E'\<^sup>* \<and> held (W \<union> {y} \<times> set (arg_writes as)) M2 u q'"
    "t \<in> set (arg_reads as) \<Longrightarrow> shares t u \<Longrightarrow> \<not> gone M q \<Longrightarrow> (p, y) \<in> E'\<^sup>+"
proof -
  obtain R where out: "taken_out R M M1" and sup: "superseded dbg as M R" and wr: "writers_of dbg (set (arg_reads as)) M \<subseteq> set ps"
    using fan by (auto simp: fanin_found_def)
  have pq: "(p, q) \<in> E'\<^sup>*"
    using q(1) E rtrancl_mono by blast
  then have py: "(p, y) \<in> E'\<^sup>+" if "q \<in> set ps"
    using that ps by (meson SigmaI insertI1 rtrancl_into_trancl1 subsetD)
  show "\<exists>q'. (p, q') \<in> E'\<^sup>* \<and> held (W \<union> {y} \<times> set (arg_writes as)) M2 u q'"
    using submit_held [OF S out sup reg q(2)]
  proof
    assume "q \<in> writers_of dbg (set (arg_reads as)) M \<and> held (W \<union> {y} \<times> set (arg_writes as)) M2 u y"
    then show ?thesis
      using py wr trancl_into_rtrancl [of p y E'] by blast
  qed (use pq in blast)
  assume t: "t \<in> set (arg_reads as)" and sh: "shares t u" and live: "\<not> gone M q"
  obtain i v where i: "i \<in> registered M" "(q, v) \<in> W" "content (tm_pool M ! i) = reg_entry v q" "same_storage u v" "elems u \<subseteq> elems v"
    using q(2) by (auto simp: held_def)
  have "shares t v"
    using sh i(4,5) by (auto simp: shares_def same_storage_def)
  moreover have "v \<in> S" "t \<in> S"
    using i(2) S t by force+
  ultimately have "overlaps_entry dbg t M i"
    using held_overlaps [OF S(1) _ _ i(3) _ live] by blast
  then have "q \<in> set ps"
    using wr i(1) t content_reg(1) [OF i(3)] unfolding writers_of_def by blast
  then show "(p, y) \<in> E'\<^sup>+"
    by (rule py)
qed

lemma registers_held: "registers y ts M M' \<Longrightarrow> u \<in> set ts \<Longrightarrow> held (W \<union> {y} \<times> set ts) M' u y"
  unfolding held_def registers_def by (fastforce simp: same_storage_def)

text \<open>One submission keeps the writers tracked, and orders itself after the live writers of what it reads.\<close>

lemma submit_tracked:
  assumes S: "coherent S" "snd ` W \<subseteq> S" "set (arg_reads as) \<subseteq> S" and tr: "tracked E W M"
    and fan: "fanin_found dbg as M ps M1" and reg: "registers y (arg_writes as) M1 M2"
  shows "tracked (E \<union> set ps \<times> {y}) (W \<union> {y} \<times> set (arg_writes as)) M2" (is "tracked ?E ?W M2")
    "(p, u) \<in> W \<Longrightarrow> t \<in> set (arg_reads as) \<Longrightarrow> shares t u \<Longrightarrow>
      (p, y) \<in> (E \<union> set ps \<times> {y})\<^sup>+ \<or> (\<exists>q. (p, q) \<in> E\<^sup>* \<and> gone M q)"
proof -
  note H = submit_holder [OF S fan reg, where E = E and E' = ?E]
  have fr: "tm_frame M M2"
    using fan reg tm_frame_trans by (auto simp: fanin_found_def taken_out_def registers_def)
  have "\<exists>q. (p, q) \<in> ?E\<^sup>* \<and> (gone M2 q \<or> held ?W M2 u q)" if pu: "(p, u) \<in> W" for p u
  proof -
    obtain q where q: "(p, q) \<in> E\<^sup>*" "gone M q \<or> held W M u q"
      using tr pu by (auto simp: tracked_def)
    moreover have "(p, q) \<in> ?E\<^sup>*"
      using q(1) rtrancl_mono [of E ?E] by blast
    ultimately show ?thesis
      using H(1) [OF q(1)] gone_frame [OF fr] by blast
  qed
  moreover have "held ?W M2 u y" if "u \<in> set (arg_writes as)" for u
    by (rule registers_held [OF reg that])
  ultimately show "tracked ?E ?W M2"
    unfolding tracked_def by blast
  assume "(p, u) \<in> W" "t \<in> set (arg_reads as)" "shares t u"
  then show "(p, y) \<in> ?E\<^sup>+ \<or> (\<exists>q. (p, q) \<in> E\<^sup>* \<and> gone M q)"
    using tr H(2) unfolding tracked_def by blast
qed

end
