(* ===== verification/L2DepsRuns.thy ===== *)
theory L2DepsRuns
  imports L2DepsProps
begin

text \<open>
  Runs of the device orchestrator as dependency computation sees them: from an initialised tensor map, each submission
  synchronises the map, collects the producers of the task and registers what it writes
  (steps 2 to 4 of \<open>submit_task_common\<close> in \<open>pto_orchestrator.cpp\<close>).
\<close>

record submission =
  sb_ring :: nat
  sb_local :: int
  sb_last_alive :: int
  sb_args :: "dep_arg list"
  sb_manual :: bool

definition sb_task :: "submission \<Rightarrow> PTO2TaskId" where
  "sb_task s = tid_make (of_nat (sb_ring s)) (i32 (sb_local s))"

definition collect :: "PTO2TaskId list emit" where
  "collect p ps = (ps @ [p], True)"

definition submit_deps :: "bool \<Rightarrow> submission \<Rightarrow> PTO2TensorMap \<Rightarrow> (PTO2TensorMap, PTO2TaskId list) outcome option" where
  "submit_deps dbg s M =
     (case sync_tensormap dbg (sb_task s) (sb_last_alive s) M of
        None \<Rightarrow> None
      | Some (Inl ex, M1) \<Rightarrow> Some (Inl ex, M1)
      | Some (Inr _, M1) \<Rightarrow>
          (case compute_task_fanin dbg (sb_args s) (sb_manual s) collect (M1, []) of
             None \<Rightarrow> None
           | Some (Inl ex, (M2, _)) \<Rightarrow> Some (Inl ex, M2)
           | Some (Inr _, (M2, ps)) \<Rightarrow>
               (case register_task_outputs dbg (sb_args s) (sb_task s) (sb_manual s) M2 of
                  (Inl ex, M3) \<Rightarrow> Some (Inl ex, M3)
                | (Inr _, M3) \<Rightarrow> Some (Inr ps, M3))))"

lemma fold_collect: "fold (\<lambda>p c. fst (collect p c)) ps c = c @ ps"
  by (induction ps arbitrary: c) (simp_all add: collect_def)

type_synonym history = "(submission \<times> PTO2TaskId list) list"

text \<open>How many tasks of a ring have been submitted: the next local id, since the allocator numbers them in order.\<close>

definition submitted :: "nat \<Rightarrow> history \<Rightarrow> nat" where
  "submitted r h = length (filter (\<lambda>x. sb_ring (fst x) = r) h)"

text \<open>
  A submission that the allocator allows: it has the next id of its ring, its window still has room over the oldest task
  alive, and that task is at least the one of the last synchronisation.
\<close>

definition next_submission :: "history \<Rightarrow> submission \<Rightarrow> PTO2TensorMap \<Rightarrow> bool" where
  "next_submission h s M \<longleftrightarrow> sb_ring s < PTO2_MAX_RING_DEPTH \<and> sb_local s = int (submitted (sb_ring s) h)
     \<and> tm_last_alives M ! sb_ring s \<le> sb_last_alive s \<and> sb_last_alive s \<le> sb_local s
     \<and> sb_local s < sb_last_alive s + int (tm_windows M ! sb_ring s) \<and> sb_local s < 2 ^ 31 \<and> args_given (sb_args s)"

inductive dep_run :: "bool \<Rightarrow> history \<Rightarrow> PTO2TensorMap \<Rightarrow> bool" for dbg where
  start: "tensormap_init alloc (2 ^ k) ps ws = Some M \<Longrightarrow> 0 < k \<Longrightarrow> k < 32 \<Longrightarrow>
    length ws = PTO2_MAX_RING_DEPTH \<Longrightarrow> \<forall>w \<in> set ws. \<exists>j < 31. w = 2 ^ j \<Longrightarrow> dep_run dbg [] M"
| submit: "dep_run dbg h M \<Longrightarrow> next_submission h s M \<Longrightarrow> submit_deps dbg s M = Some (Inr ps, M') \<Longrightarrow> dep_run dbg (h @ [(s, ps)]) M'"

definition sb_reads :: "submission \<Rightarrow> Tensor set" where
  "sb_reads s = (if sb_manual s then {} else set (arg_reads (sb_args s)))"

definition sb_writes :: "submission \<Rightarrow> Tensor set" where
  "sb_writes s = (if sb_manual s then {} else set (arg_writes (sb_args s)))"

definition run_tensors :: "history \<Rightarrow> Tensor set" where
  "run_tensors h = (\<Union>x \<in> set h. sb_reads (fst x) \<union> sb_writes (fst x))"

definition run_writes :: "history \<Rightarrow> (PTO2TaskId \<times> Tensor) set" where
  "run_writes h = (\<Union>x \<in> set h. {sb_task (fst x)} \<times> sb_writes (fst x))"

definition dep_edges :: "history \<Rightarrow> (PTO2TaskId \<times> PTO2TaskId) set" where
  "dep_edges h = (\<Union>x \<in> set h. set (snd x) \<times> {sb_task (fst x)})"

lemma history_simps [simp]:
  "run_tensors [] = {}" "run_tensors (h @ [(s, ps)]) = run_tensors h \<union> sb_reads s \<union> sb_writes s"
  "run_writes [] = {}" "run_writes (h @ [(s, ps)]) = run_writes h \<union> {sb_task s} \<times> sb_writes s"
  "dep_edges [] = {}" "dep_edges (h @ [(s, ps)]) = dep_edges h \<union> set ps \<times> {sb_task s}"
  "submitted r [] = 0" "submitted r (h @ [(s, ps)]) = submitted r h + (if sb_ring s = r then 1 else 0)"
  by (auto simp: run_tensors_def run_writes_def dep_edges_def submitted_def)

lemma run_writes_tensors: "snd ` run_writes h \<subseteq> run_tensors h"
  by (auto simp: run_writes_def run_tensors_def)

subsection \<open>Synchronisation keeps the writers tracked\<close>

lemma synced_known: "known W M \<Longrightarrow> synced r L la M M' \<Longrightarrow> known W M'"
  unfolding known_def synced_def registered_def by fastforce

lemma synced_gone:
  assumes "synced r L la M M'" and "tm_last_alives M ! r \<le> la" and "tm_inv M" and "r < PTO2_MAX_RING_DEPTH"
  shows "gone M q \<Longrightarrow> gone M' q" "te_ring e = r \<Longrightarrow> te_local e < la \<Longrightarrow> gone M' (te_producer e)"
proof -
  have "length (tm_last_alives M) = PTO2_MAX_RING_DEPTH"
    using assms(3) by (auto simp: tm_inv_def tm_rep_def tm_geo_def)
  then show "gone M q \<Longrightarrow> gone M' q" "te_ring e = r \<Longrightarrow> te_local e < la \<Longrightarrow> gone M' (te_producer e)"
    using assms(1,2,4) by (auto simp: gone_def synced_def nth_list_update_if te_ring_def)
qed

lemma synced_tracked:
  assumes tr: "tracked E W M" and sy: "synced r L la M M'" and up: "tm_last_alives M ! r \<le> la" and inv: "tm_inv M" "r < PTO2_MAX_RING_DEPTH"
  shows "tracked E W M'"
proof -
  note g = synced_gone [OF sy up inv]
  have "gone M' q \<or> held W M' u q" if h: "held W M u q" for u q
  proof -
    obtain i v where i: "i \<in> registered M" "(q, v) \<in> W" "content (tm_pool M ! i) = reg_entry v q" "same_storage u v" "elems u \<subseteq> elems v"
      using h by (auto simp: held_def)
    show ?thesis
    proof (cases "i \<in> registered M'")
      case True
      moreover have "content (tm_pool M' ! i) = reg_entry v q"
        using i(1,3) sy by (simp add: synced_def registered_def)
      ultimately show ?thesis
        using i unfolding held_def by blast
    next
      case False
      then have "te_ring (tm_pool M ! i) = r" "te_local (tm_pool M ! i) < la"
        using i(1) sy by (auto simp: synced_def)
      then show ?thesis
        using g(2) content_reg(1) [OF i(3)] by blast
    qed
  qed
  then show ?thesis
    using tr g(1) unfolding tracked_def by fast
qed

subsection \<open>One submission\<close>

text \<open>In a manual scope nothing is looked up or registered, as if the task had no arguments.\<close>

definition auto_args :: "submission \<Rightarrow> dep_arg list" where
  "auto_args s = (if sb_manual s then [] else sb_args s)"

lemma auto_args_simps:
  "sb_reads s = set (arg_reads (auto_args s))" "sb_writes s = set (arg_writes (auto_args s))"
  "compute_task_fanin dbg (sb_args s) (sb_manual s) emit Mc = fanin_args dbg emit (auto_args s) Mc"
  "register_task_outputs dbg (sb_args s) p (sb_manual s) M = for_each (register_arg dbg p) (auto_args s) M"
  "args_given (sb_args s) \<Longrightarrow> args_given (auto_args s)"
  by (simp_all add: sb_reads_def sb_writes_def auto_args_def compute_task_fanin_def register_task_outputs_def)

text \<open>The map has been synchronised at every task of every ring.\<close>

definition run_ok :: "history \<Rightarrow> PTO2TensorMap \<Rightarrow> bool" where
  "run_ok h M \<longleftrightarrow> tm_inv M \<and> tm_fresh M \<and>
     (\<forall>r < PTO2_MAX_RING_DEPTH. tm_last_cleanup M ! r \<le> tm_last_alives M ! r
        \<and> int (submitted r h) \<le> tm_last_cleanup M ! r + int (tm_windows M ! r))"

lemma next_ready:
  assumes "run_ok h M" and "next_submission h s M"
  shows "sync_ready (sb_ring s) (sb_local s) (sb_last_alive s) M"
  using assms unfolding run_ok_def next_submission_def sync_ready_def by fastforce

lemma fresh_out: "tm_fresh M \<Longrightarrow> taken_out R M M' \<Longrightarrow> tm_fresh M'"
proof -
  assume fresh: "tm_fresh M" and out: "taken_out R M M'"
  have "tm_last_cleanup M' = tm_last_cleanup M"
    using out by (simp add: taken_out_def tm_frame_def)
  then have "tm_fresh (M'\<lparr>tm_last_alives := tm_last_alives M', tm_last_cleanup := tm_last_cleanup M'\<rparr>)"
    using fresh by (intro fresh_taken_out [OF fresh out]) (auto simp: tm_fresh_def Let_def)
  then show "tm_fresh M'"
    by simp
qed

lemma submit_parts:
  assumes ok: "run_ok h M" and nxt: "next_submission h s M" and kn: "known W M"
    and S: "coherent S" "snd ` W \<subseteq> S" "sb_reads s \<subseteq> S"
  obtains M1 M2 ps where "synced (sb_ring s) (sb_local s) (sb_last_alive s) M M1" "known W M1" "fanin_found dbg (auto_args s) M1 ps M2"
    "submit_deps dbg s M = (case for_each (register_arg dbg (sb_task s)) (auto_args s) M2 of
       (Inl ex, M3) \<Rightarrow> Some (Inl ex, M3) | (Inr _, M3) \<Rightarrow> Some (Inr ps, M3))"
proof -
  obtain M1 where sy: "sync_tensormap dbg (sb_task s) (sb_last_alive s) M = Some (Inr (), M1)"
    "synced (sb_ring s) (sb_local s) (sb_last_alive s) M M1"
    using sync_ok [OF _ _ next_ready [OF ok nxt]] ok unfolding run_ok_def sb_task_def by blast
  have kn1: "known W M1"
    by (rule synced_known [OF kn sy(2)])
  have "\<forall>t \<in> set (arg_reads (auto_args s)). comparable dbg t M1"
    using known_comparable [OF kn1 S(1,2)] S(3) auto_args_simps(1) by blast
  moreover have "args_given (auto_args s)"
    using nxt auto_args_simps(5) by (simp add: next_submission_def)
  moreover have "tm_inv M1"
    using sy(2) by (simp add: synced_def)
  ultimately obtain M2 ps where f: "fanin_args dbg collect (auto_args s) (M1, []) = Some (Inr True, (M2, fold (\<lambda>p c. fst (collect p c)) ps []))"
    "fanin_found dbg (auto_args s) M1 ps M2"
    using fanin_args_ok [of collect M1 "auto_args s" dbg "[]"] by (auto simp: collect_def)
  then have "submit_deps dbg s M = (case for_each (register_arg dbg (sb_task s)) (auto_args s) M2 of
       (Inl ex, M3) \<Rightarrow> Some (Inl ex, M3) | (Inr _, M3) \<Rightarrow> Some (Inr ps, M3))"
    using sy(1) by (simp add: submit_deps_def auto_args_simps fold_collect)
  then show thesis
    using that sy(2) kn1 f(2) by blast
qed

lemma submit_ring:
  assumes "next_submission h s M"
  shows "unat (tid_ring (sb_task s)) = sb_ring s" "unat (tid_ring (sb_task s)) < PTO2_MAX_RING_DEPTH"
  using assms by (simp_all add: next_submission_def sb_task_def ring_of_nat)

lemma submit_run_ok:
  assumes ok: "run_ok h M" and nxt: "next_submission h s M"
    and sy: "synced (sb_ring s) (sb_local s) (sb_last_alive s) M M1" and out: "taken_out R M1 M2"
    and reg: "registers (sb_task s) (arg_writes (auto_args s)) M2 M3" and inv: "tm_inv M3"
  shows "run_ok (h @ [(s, ps)]) M3"
proof -
  have fr: "tm_frame M1 M2" "tm_frame M1 M3"
    using out reg tm_frame_trans by (auto simp: taken_out_def registers_def)
  have len: "length (tm_last_alives M) = PTO2_MAX_RING_DEPTH"
    using ok by (auto simp: run_ok_def tm_inv_def tm_rep_def tm_geo_def)
  have r: "sb_ring s < PTO2_MAX_RING_DEPTH" "sb_last_alive s \<le> sb_local s" "sb_local s < 2 ^ 31" "sb_local s = int (submitted (sb_ring s) h)"
    using nxt by (simp_all add: next_submission_def)
  have c: "tm_last_cleanup M1 ! sb_ring s \<le> sb_last_alive s" "sb_local s < tm_last_cleanup M1 ! sb_ring s + int (tm_windows M1 ! sb_ring s)"
    using sy by (simp_all add: synced_def)
  have "tm_fresh M2"
    using fresh_out [OF _ out] sy by (simp add: synced_def)
  then have "tm_fresh M3"
    using registers_fresh [of M2 "sb_ring s" "sb_local s"] reg r c fr(1) by (simp add: sb_task_def tm_frame_def)
  moreover have "tm_last_cleanup M3 ! q \<le> tm_last_alives M3 ! q
      \<and> int (submitted q (h @ [(s, ps)])) \<le> tm_last_cleanup M3 ! q + int (tm_windows M3 ! q)" if q: "q < PTO2_MAX_RING_DEPTH" for q
  proof (cases "q = sb_ring s")
    case True
    then show ?thesis
      using c r len sy fr(2) by (simp add: synced_def tm_frame_def)
  next
    case False
    then show ?thesis
      using ok q sy fr(2) by (simp add: synced_def tm_frame_def run_ok_def)
  qed
  ultimately show ?thesis
    using inv by (simp add: run_ok_def)
qed

subsection \<open>Runs\<close>

lemma init_run_ok:
  assumes "tensormap_init alloc (2 ^ k) ps ws = Some M" and "0 < k" "k < 32"
    and "length ws = PTO2_MAX_RING_DEPTH" "\<forall>w \<in> set ws. \<exists>j < 31. w = 2 ^ j"
  shows "run_ok [] M" "registered M = {}"
  using tensormap_init_ok [OF assms(1) refl assms(2-5)] by (simp_all add: run_ok_def)

text \<open>What a run of submissions keeps: a consistent map, known registrations and tracked writers.\<close>

definition run_inv :: "history \<Rightarrow> PTO2TensorMap \<Rightarrow> bool" where
  "run_inv h M \<longleftrightarrow> run_ok h M \<and> known (run_writes h) M \<and> tracked (dep_edges h) (run_writes h) M"

lemma submit_inv:
  assumes inv: "run_inv h M" and nxt: "next_submission h s M" and coh: "coherent (run_tensors (h @ [(s, ps)]))"
    and sub: "submit_deps dbg s M = Some (Inr ps, M')"
  obtains M1 where "synced (sb_ring s) (sb_local s) (sb_last_alive s) M M1" "known (run_writes h) M1" "run_inv (h @ [(s, ps)]) M'"
    "tm_frame M1 M'" "set ps = set (arg_owners (auto_args s)) \<union> writers_of dbg (sb_reads s) M1"
    "\<And>p u t. (p, u) \<in> run_writes h \<Longrightarrow> t \<in> sb_reads s \<Longrightarrow> shares t u \<Longrightarrow>
      (p, sb_task s) \<in> (dep_edges (h @ [(s, ps)]))\<^sup>+ \<or> (\<exists>q. (p, q) \<in> (dep_edges h)\<^sup>* \<and> gone M1 q)"
proof -
  let ?S = "run_tensors (h @ [(s, ps)])"
  have ok: "run_ok h M" and kn: "known (run_writes h) M"
    using inv by (simp_all add: run_inv_def)
  have S: "snd ` run_writes h \<subseteq> ?S" "sb_reads s \<subseteq> ?S"
    using run_writes_tensors by auto
  obtain M1 M2 ps' where p: "synced (sb_ring s) (sb_local s) (sb_last_alive s) M M1" "known (run_writes h) M1"
    "fanin_found dbg (auto_args s) M1 ps' M2"
    "submit_deps dbg s M = (case for_each (register_arg dbg (sb_task s)) (auto_args s) M2 of
       (Inl ex, M3) \<Rightarrow> Some (Inl ex, M3) | (Inr _, M3) \<Rightarrow> Some (Inr ps', M3))"
    by (rule submit_parts [OF ok nxt kn coh S])
  then have ps: "ps' = ps" and fe: "for_each (register_arg dbg (sb_task s)) (auto_args s) M2 = (Inr (), M')"
    using sub by (auto split: prod.splits sum.splits)
  have f: "fanin_found dbg (auto_args s) M1 ps M2"
    using p(3) by (simp add: ps)
  have given: "args_given (auto_args s)"
    using nxt auto_args_simps(5) by (simp add: next_submission_def)
  have reg: "tm_inv M'" "registers (sb_task s) (arg_writes (auto_args s)) M2 M'"
    using register_args_ok(2) [OF _ given submit_ring(2) [OF nxt] fe] f by (auto simp: fanin_found_def)
  obtain R where R: "taken_out R M1 M2"
    using f by (auto simp: fanin_found_def)
  have tr1: "tracked (dep_edges h) (run_writes h) M1"
    using synced_tracked [OF _ p(1)] inv nxt by (auto simp: run_inv_def run_ok_def next_submission_def)
  note T = submit_tracked [OF coh S(1) _ tr1 f reg(2)]
  have "run_inv (h @ [(s, ps)]) M'"
    using submit_run_ok [OF _ nxt p(1) R reg(2,1)] inv T(1) S(2) submit_known [OF p(2) R reg(2)]
    by (simp add: run_inv_def auto_args_simps)
  moreover have "tm_frame M1 M'"
    using R reg(2) tm_frame_trans by (auto simp: taken_out_def registers_def)
  ultimately show thesis
    using that p(1,2) f T(2) S(2) by (simp add: fanin_found_def auto_args_simps)
qed

lemma run_invariant: "dep_run dbg h M \<Longrightarrow> coherent (run_tensors h) \<Longrightarrow> run_inv h M"
proof (induction rule: dep_run.induct)
  case (start alloc k ps ws M)
  then show ?case
    using init_run_ok [of alloc k ps ws M] by (simp add: run_inv_def known_def tracked_def)
next
  case (submit h M s ps M')
  have "coherent (run_tensors h)"
    using submit.prems by (auto simp: coherent_def)
  then show ?case
    using submit_inv [OF submit.IH submit.hyps(2) submit.prems submit.hyps(3)] by blast
qed

inductive_cases dep_run_snoc: "dep_run dbg (h @ [(s, ps)]) M"


lemma submit_total:
  assumes inv: "run_inv h M" and nxt: "next_submission h s M" and coh: "coherent (run_tensors (h @ [(s, [])]))"
    and room: "length (arg_writes (auto_args s)) \<le> tm_room M"
  shows "\<exists>ps M'. submit_deps dbg s M = Some (Inr ps, M')"
proof -
  have ok: "run_ok h M" and kn: "known (run_writes h) M"
    using inv by (simp_all add: run_inv_def)
  have S: "snd ` run_writes h \<subseteq> run_tensors (h @ [(s, [])])" "sb_reads s \<subseteq> run_tensors (h @ [(s, [])])"
    using run_writes_tensors by auto
  obtain M1 M2 ps where p: "synced (sb_ring s) (sb_local s) (sb_last_alive s) M M1" "known (run_writes h) M1" "fanin_found dbg (auto_args s) M1 ps M2"
    "submit_deps dbg s M = (case for_each (register_arg dbg (sb_task s)) (auto_args s) M2 of
       (Inl ex, M3) \<Rightarrow> Some (Inl ex, M3) | (Inr _, M3) \<Rightarrow> Some (Inr ps, M3))"
    by (rule submit_parts [OF ok nxt kn coh S])
  have "length (tm_pool M2) = length (tm_pool M)" "registered M2 \<subseteq> registered M"
    using p(1,3) by (auto simp: synced_def fanin_found_def taken_out_def tm_frame_def)
  then have "tm_room M \<le> tm_room M2"
    using card_mono [of "registered M" "registered M2"] by (simp add: tm_room_def)
  moreover have "args_given (auto_args s)"
    using nxt auto_args_simps(5) by (simp add: next_submission_def)
  ultimately show ?thesis
    using register_args_ok(1) [OF _ _ submit_ring(2) [OF nxt], of M2 "auto_args s" dbg] room p(3,4) by (auto simp: fanin_found_def)
qed



definition demo_map :: PTO2TensorMap where
  "demo_map = the (tensormap_init (\<lambda>_. True) 2 4 [2, 2, 2, 2])"

text \<open>Two tasks of one ring: the first updates a matrix, the second reads its left half.\<close>

definition demo_write :: submission where
  "demo_write = \<lparr>sb_ring = 0, sb_local = 0, sb_last_alive = 0, sb_args = [(INOUT, Some demo_tensor)], sb_manual = False\<rparr>"

definition demo_read :: submission where
  "demo_read = \<lparr>sb_ring = 0, sb_local = 1, sb_last_alive = 0, sb_args = [(OUTPUT, None), (INPUT, Some demo_left)], sb_manual = False\<rparr>"

lemma demo_map_init: "tensormap_init (\<lambda>_. True) (2 ^ 1) 4 [2, 2, 2, 2] = Some demo_map"
  by (simp add: demo_map_def tensormap_init_def pow2_or_zero_def list_all_iff)

lemma demo_map_run: "dep_run dbg [] demo_map"
  by (rule dep_run.start [OF demo_map_init]) (auto simp: PTO2_MAX_RING_DEPTH_def intro: exI [of _ 1])

lemma demo_map_fields:
  "tm_windows demo_map = [2, 2, 2, 2]" "tm_last_alives demo_map = replicate 4 0" "length (tm_pool demo_map) = 4" "registered demo_map = {}"
  by (auto simp: demo_map_def tensormap_init_def pow2_or_zero_def PTO2_MAX_RING_DEPTH_def registered_def empty_entry_def list_all_iff)

lemma demo_coherent: "coherent {demo_tensor, demo_left}"
  using demo_tensor_valid demo_halves_valid by (auto simp: coherent_def same_storage_def demo_left_def)

lemma demo_accesses:
  "sb_reads demo_write = {demo_tensor}" "sb_writes demo_write = {demo_tensor}" "sb_reads demo_read = {demo_left}" "sb_writes demo_read = {}"
  "args_given (sb_args demo_write)" "args_given (sb_args demo_read)"
  "length (arg_writes (auto_args demo_write)) = 1" "arg_writes (auto_args demo_read) = []"
  by (simp_all add: demo_write_def demo_read_def sb_reads_def sb_writes_def auto_args_def demo_tensor_def demo_left_def)

lemma demo_owners: "arg_owners (auto_args demo_write) = []"
  by (simp add: demo_write_def auto_args_def demo_tensor_def tid_is_valid_def tid_invalid_def)

lemma demo_shares: "shares demo_left demo_tensor"
proof -
  have "0 \<in> elems demo_left" "0 \<in> elems demo_tensor"
    by (auto simp: elems_def demo_left_def demo_tensor_def tn_dims_def intro!: bexI [of _ 0] image_eqI [of _ _ 0])
  then show ?thesis
    by (auto simp: shares_def demo_left_def)
qed

lemma demo_next: "next_submission [] demo_write demo_map"
  using demo_accesses(5) by (simp add: next_submission_def demo_map_fields) (simp add: demo_write_def PTO2_MAX_RING_DEPTH_def)



end
