(* ===== verification/L2Pools.thy ===== *)
theory L2Pools
  imports L2Shared SlabRing
begin

text \<open>
  The ring resources of the device orchestrator and scheduler (\<open>pto_ring_buffer.h\<close>, \<open>pto_ring_buffer.cpp\<close>): the task
  allocator, which hands out a task slot together with its slab of the ring's heap, the spill pool for large fanins,
  and the pool of dependency list entries.

  The loops that wait for the scheduler read \<open>last_task_alive\<close> again and again while it moves; the value of the
  \<open>k\<close>-th read is \<open>load k\<close>, a parameter. Such a loop is a partial function, with \<open>None\<close> for a wait that never ends.
  The error code in shared memory is passed through. Logging is left out.
\<close>

definition PTO2_ALLOC_SPIN_LIMIT :: int where "PTO2_ALLOC_SPIN_LIMIT = 100000"
definition PTO2_DEP_POOL_SPIN_LIMIT :: int where "PTO2_DEP_POOL_SPIN_LIMIT = 100000"

subsection \<open>Task allocator\<close>

record PTO2TaskAllocator =
  al_window_size :: nat
  al_heap_base :: u64
  al_heap_size :: u64
  al_local_task_id :: int
  al_heap_top :: u64
  al_heap_tail :: u64
  al_last_alive_seen :: int

definition allocator_init :: "PTO2SharedMemoryRingHeader \<Rightarrow> u64 \<Rightarrow> u64 \<Rightarrow> PTO2TaskAllocator" where
  "allocator_init R heap_base heap_size =
     \<lparr>al_window_size = rh_window R, al_heap_base = heap_base, al_heap_size = heap_size,
      al_local_task_id = rh_current_task_index R, al_heap_top = 0, al_heap_tail = 0, al_last_alive_seen = 0\<rparr>"

definition update_heap_tail :: "PTO2SharedMemoryRingHeader \<Rightarrow> int \<Rightarrow> PTO2TaskAllocator \<Rightarrow> PTO2TaskAllocator" where
  "update_heap_tail R last_alive A =
     (if last_alive \<le> al_last_alive_seen A then A
      else let desc = rh_descriptors R ! slot_of (al_window_size A) (i32 (last_alive - 1))
           in A\<lparr>al_last_alive_seen := last_alive, al_heap_tail := td_packed_end desc - al_heap_base A\<rparr>)"

text \<open>The pointer of the new slab, null (0) when there is no room.\<close>

definition try_bump_heap :: "u64 \<Rightarrow> PTO2TaskAllocator \<Rightarrow> u64 \<times> PTO2TaskAllocator" where
  "try_bump_heap alloc_size A =
     (let tp = al_heap_top A
      in if alloc_size = 0 then (al_heap_base A + tp, A)
         else let tl = al_heap_tail A
              in if tp \<ge> tl
                 then (if al_heap_size A - tp \<ge> alloc_size
                       then (al_heap_base A + tp, A\<lparr>al_heap_top := tp + alloc_size\<rparr>)
                       else if tl > alloc_size then (al_heap_base A, A\<lparr>al_heap_top := alloc_size\<rparr>)
                       else (0, A))
                 else if tl - tp > alloc_size then (al_heap_base A + tp, A\<lparr>al_heap_top := tp + alloc_size\<rparr>)
                 else (0, A))"

definition commit_task :: "PTO2TaskAllocator \<Rightarrow> PTO2SharedMemoryRingHeader \<Rightarrow> int \<times> PTO2TaskAllocator \<times> PTO2SharedMemoryRingHeader" where
  "commit_task A R =
     (let task_id = al_local_task_id A; A' = A\<lparr>al_local_task_id := task_id + 1\<rparr>
      in (task_id, A', R\<lparr>rh_current_task_index := al_local_task_id A'\<rparr>))"

definition active_tasks :: "PTO2TaskAllocator \<Rightarrow> PTO2SharedMemoryRingHeader \<Rightarrow> int" where
  "active_tasks A R = al_local_task_id A - rh_last_task_alive R"

definition heap_available :: "PTO2TaskAllocator \<Rightarrow> u64" where
  "heap_available A =
     (let tl = al_heap_tail A
      in if al_heap_top A \<ge> tl
         then (let at_end = al_heap_size A - al_heap_top A; at_begin = tl in if at_end > at_begin then at_end else at_begin)
         else tl - al_heap_top A)"

definition deadlock_code :: "bool \<Rightarrow> int" where
  "deadlock_code heap_blocked = (if heap_blocked then PTO2_ERROR_HEAP_RING_DEADLOCK else PTO2_ERROR_FLOW_CONTROL_DEADLOCK)"

definition aligned_output :: "int \<Rightarrow> u64" where
  "aligned_output output_size = (if output_size > 0 then PTO2_ALIGN_UP (of_int output_size) PTO2_ALIGN_SIZE else 0)"

text \<open>
  One round of \<open>alloc\<close>: the check of both resources. \<open>Inl\<close> is the result of a committed task, \<open>Inr\<close> says what the
  round was blocked on.
\<close>

definition try_alloc ::
  "u64 \<Rightarrow> int \<Rightarrow> PTO2TaskAllocator \<Rightarrow> PTO2SharedMemoryRingHeader
    \<Rightarrow> (PTO2TaskAllocResult + bool) \<times> PTO2TaskAllocator \<times> PTO2SharedMemoryRingHeader" where
  "try_alloc aligned_size last_alive A R =
     (if al_local_task_id A - last_alive + 1 < int (al_window_size A)
      then (case try_bump_heap aligned_size A of
              (heap_ptr, A1) \<Rightarrow>
                if heap_ptr \<noteq> 0
                then (case commit_task A1 R of
                        (task_id, A2, R2) \<Rightarrow>
                          (Inl \<lparr>ta_task_id = task_id, ta_slot = int (slot_of (al_window_size A) (i32 task_id)),
                                ta_packed_base = heap_ptr, ta_packed_end = heap_ptr + aligned_size\<rparr>, A2, R2))
                else (Inr True, A1, R))
      else (Inr False, A, R))"

partial_function (option) alloc_spin ::
  "(nat \<Rightarrow> int) \<Rightarrow> u64 \<Rightarrow> nat \<Rightarrow> int \<Rightarrow> int \<Rightarrow> int \<Rightarrow> PTO2TaskAllocator \<times> PTO2SharedMemoryRingHeader \<times> int
    \<Rightarrow> (PTO2TaskAllocResult \<times> PTO2TaskAllocator \<times> PTO2SharedMemoryRingHeader \<times> int) option" where
  "alloc_spin load aligned_size k prev last_alive spin ARe =
     (case ARe of (A, R, err) \<Rightarrow>
        (case try_alloc aligned_size last_alive A R of
           (Inl res, A1, R1) \<Rightarrow> Some (res, A1, R1, err)
         | (Inr on_heap, A1, R1) \<Rightarrow>
             let now = load k; A2 = update_heap_tail R1 now A1
             in if now > prev then alloc_spin load aligned_size (k + 1) now now 0 (A2, R1, err)
                else if spin + 1 \<ge> PTO2_ALLOC_SPIN_LIMIT
                then Some (\<lparr>ta_task_id = - 1, ta_slot = - 1, ta_packed_base = 0, ta_packed_end = 0\<rparr>, A2, R1,
                           deadlock_code on_heap)
                else alloc_spin load aligned_size (k + 1) prev now (spin + 1) (A2, R1, err)))"

definition task_alloc ::
  "(nat \<Rightarrow> int) \<Rightarrow> int \<Rightarrow> PTO2TaskAllocator \<times> PTO2SharedMemoryRingHeader \<times> int
    \<Rightarrow> (PTO2TaskAllocResult \<times> PTO2TaskAllocator \<times> PTO2SharedMemoryRingHeader \<times> int) option" where
  "task_alloc load output_size ARe =
     (case ARe of (A, R, err) \<Rightarrow>
        alloc_spin load (aligned_output output_size) 1 (load 0) (load 0) 0 (update_heap_tail R (load 0) A, R, err))"

subsection \<open>Fanin spill pool\<close>

record PTO2FaninPool =
  fp_base :: "slot_ref option list"
  fp_top :: int
  fp_tail :: int
  fp_high_water :: int
  fp_cursor :: int

abbreviation fp_capacity :: "PTO2FaninPool \<Rightarrow> int" where
  "fp_capacity P \<equiv> int (length (fp_base P))"

text \<open>\<open>init\<close> on an array; it writes its first cell, so an empty array is undefined behaviour.\<close>

definition fanin_pool_init :: "slot_ref option list \<Rightarrow> exn + PTO2FaninPool" where
  "fanin_pool_init base =
     (if base = [] then Inl UndefinedBehaviour
      else Inr \<lparr>fp_base = base[0 := None], fp_top = 1, fp_tail = 1, fp_high_water = 0, fp_cursor = 0\<rparr>)"

definition fanin_available :: "PTO2FaninPool \<Rightarrow> int" where
  "fanin_available P = fp_capacity P - (fp_top P - fp_tail P)"

text \<open>The index of the new entry, or nothing when the pool overflows; then the error code is set.\<close>

definition fanin_alloc :: "PTO2FaninPool \<Rightarrow> int \<Rightarrow> nat option \<times> PTO2FaninPool \<times> int" where
  "fanin_alloc P err =
     (let used = fp_top P - fp_tail P
      in if used \<ge> fp_capacity P then (None, P, PTO2_ERROR_DEP_POOL_OVERFLOW)
         else (Some (nat (fp_top P mod fp_capacity P)),
               P\<lparr>fp_top := fp_top P + 1, fp_high_water := max (fp_high_water P) (used + 1)\<rparr>, err))"

definition fanin_advance_tail :: "int \<Rightarrow> PTO2FaninPool \<Rightarrow> PTO2FaninPool" where
  "fanin_advance_tail new_tail P = (if new_tail > fp_tail P then P\<lparr>fp_tail := new_tail\<rparr> else P)"

text \<open>The step of \<open>reclaim\<close> for one task id; \<open>self\<close> is the ring the pool belongs to.\<close>

definition reclaim_task :: "nat \<Rightarrow> PTO2SharedMemoryRingHeader \<Rightarrow> int \<Rightarrow> PTO2FaninPool \<Rightarrow> PTO2FaninPool" where
  "reclaim_task self R task_id P =
     (let payload = rh_payloads R ! slot_by_task_id R task_id
      in if pl_spill_pool payload \<noteq> Some self then P
         else let spill = pl_fanin_count payload - min (pl_fanin_count payload) (int PTO2_FANIN_INLINE_CAP)
              in if spill > 0 then fanin_advance_tail (pl_spill_start payload + spill) P else P)"

definition fanin_reclaim :: "nat \<Rightarrow> PTO2SharedMemoryRingHeader \<Rightarrow> int \<Rightarrow> PTO2FaninPool \<Rightarrow> PTO2FaninPool" where
  "fanin_reclaim self R sm_last_task_alive P =
     (if sm_last_task_alive \<le> fp_cursor P then P
      else (fold (reclaim_task self R) [fp_cursor P .. sm_last_task_alive - 1] P)\<lparr>fp_cursor := sm_last_task_alive\<rparr>)"

partial_function (option) fanin_wait ::
  "(nat \<Rightarrow> int) \<Rightarrow> nat \<Rightarrow> PTO2SharedMemoryRingHeader \<Rightarrow> int \<Rightarrow> nat \<Rightarrow> int \<Rightarrow> int \<Rightarrow> PTO2FaninPool \<times> int
    \<Rightarrow> (bool \<times> PTO2FaninPool \<times> int) option" where
  "fanin_wait load self R needed k prev spin Pe =
     (case Pe of (P, err) \<Rightarrow>
        if fanin_available P \<ge> needed then Some (True, P, err)
        else let P1 = fanin_reclaim self R prev P
             in if fanin_available P1 \<ge> needed then Some (True, P1, err)
                else let cur = load k;
                         spin1 = (if cur > prev then 0 else spin + 1);
                         prev1 = (if cur > prev then cur else prev)
                     in if spin1 \<ge> PTO2_DEP_POOL_SPIN_LIMIT
                        then Some (False, P1, latch_pool_error err PTO2_ERROR_DEP_POOL_OVERFLOW)
                        else fanin_wait load self R needed (k + 1) prev1 spin1 (P1, err))"

definition fanin_ensure_space ::
  "(nat \<Rightarrow> int) \<Rightarrow> nat \<Rightarrow> PTO2SharedMemoryRingHeader \<Rightarrow> int \<Rightarrow> PTO2FaninPool \<times> int \<Rightarrow> (bool \<times> PTO2FaninPool \<times> int) option" where
  "fanin_ensure_space load self R needed Pe =
     (if fanin_available (fst Pe) \<ge> needed then Some (True, Pe) else fanin_wait load self R needed 1 (load 0) 0 Pe)"

text \<open>
  The slots \<open>for_each_fanin_storage\<close> visits, in order: the inline ones, then the spilled ones, up to the end of the
  ring buffer and on from its start. A callback that stops early sees a prefix.
\<close>

definition fanin_storage :: "slot_ref option list \<Rightarrow> int \<Rightarrow> int \<Rightarrow> PTO2FaninPool \<Rightarrow> slot_ref option list" where
  "fanin_storage inl fanin_count spill_start P =
     (let inline_count = min fanin_count (int PTO2_FANIN_INLINE_CAP);
          spill_count = fanin_count - inline_count
      in take (nat inline_count) inl
         @ (if spill_count \<le> 0 then []
            else let start_idx = spill_start mod fp_capacity P;
                     first_count = min spill_count (fp_capacity P - start_idx);
                     second_count = spill_count - first_count
                 in take (nat first_count) (drop (nat start_idx) (fp_base P)) @ take (nat second_count) (fp_base P)))"

definition fanin_slot_states :: "PTO2TaskPayload \<Rightarrow> PTO2FaninPool \<Rightarrow> slot_ref option list" where
  "fanin_slot_states p P = fanin_storage (pl_inline p) (pl_fanin_count p) (pl_spill_start p) P"

subsection \<open>Dependency list pool\<close>

record PTO2DepListPool =
  dp_base :: "PTO2DepListEntry list"
  dp_top :: int
  dp_tail :: int
  dp_high_water :: int
  dp_last_reclaimed :: int

abbreviation dp_capacity :: "PTO2DepListPool \<Rightarrow> int" where
  "dp_capacity P \<equiv> int (length (dp_base P))"

definition dep_pool_init :: "PTO2DepListEntry list \<Rightarrow> exn + PTO2DepListPool" where
  "dep_pool_init base =
     (if base = [] then Inl UndefinedBehaviour
      else Inr \<lparr>dp_base = base[0 := \<lparr>de_slot_state = None, de_next = None\<rparr>], dp_top = 1, dp_tail = 1,
                dp_high_water = 0, dp_last_reclaimed = 0\<rparr>)"

definition dep_available :: "PTO2DepListPool \<Rightarrow> int" where
  "dep_available P = dp_capacity P - (dp_top P - dp_tail P)"

definition dep_alloc :: "PTO2DepListPool \<Rightarrow> int \<Rightarrow> nat option \<times> PTO2DepListPool \<times> int" where
  "dep_alloc P err =
     (let used = dp_top P - dp_tail P
      in if used \<ge> dp_capacity P then (None, P, PTO2_ERROR_DEP_POOL_OVERFLOW)
         else (Some (nat (dp_top P mod dp_capacity P)),
               P\<lparr>dp_top := dp_top P + 1, dp_high_water := max (dp_high_water P) (used + 1)\<rparr>, err))"

definition dep_advance_tail :: "int \<Rightarrow> PTO2DepListPool \<Rightarrow> PTO2DepListPool" where
  "dep_advance_tail new_tail P = (if new_tail > dp_tail P then P\<lparr>dp_tail := new_tail\<rparr> else P)"

definition dep_prepend ::
  "nat \<Rightarrow> dep_ref option \<Rightarrow> slot_ref \<Rightarrow> PTO2DepListPool \<Rightarrow> int \<Rightarrow> dep_ref option \<times> PTO2DepListPool \<times> int" where
  "dep_prepend self cur p P err =
     (case dep_alloc P err of
        (None, P1, err1) \<Rightarrow> (None, P1, err1)
      | (Some i, P1, err1) \<Rightarrow>
          (Some (self, i), P1\<lparr>dp_base := (dp_base P1)[i := \<lparr>de_slot_state = Some p, de_next = cur\<rparr>]\<rparr>, err1))"

definition dep_reclaim :: "PTO2SharedMemoryRingHeader \<Rightarrow> int \<Rightarrow> PTO2DepListPool \<Rightarrow> PTO2DepListPool" where
  "dep_reclaim R sm_last_task_alive P =
     (if sm_last_task_alive \<ge> dp_last_reclaimed P + PTO2_DEP_POOL_CLEANUP_INTERVAL \<and> sm_last_task_alive > 0
      then let mark = ss_dep_pool_mark (rh_slots R ! slot_by_task_id R (sm_last_task_alive - 1));
               P1 = (if mark > 0 then dep_advance_tail mark P else P)
           in P1\<lparr>dp_last_reclaimed := sm_last_task_alive\<rparr>
      else P)"

partial_function (option) dep_wait ::
  "(nat \<Rightarrow> int) \<Rightarrow> PTO2SharedMemoryRingHeader \<Rightarrow> int \<Rightarrow> nat \<Rightarrow> int \<Rightarrow> int \<Rightarrow> PTO2DepListPool \<times> int
    \<Rightarrow> (bool \<times> PTO2DepListPool \<times> int) option" where
  "dep_wait load R needed k prev spin Pe =
     (case Pe of (P, err) \<Rightarrow>
        if dep_available P \<ge> needed then Some (True, P, err)
        else let P1 = dep_reclaim R prev P
             in if dep_available P1 \<ge> needed then Some (True, P1, err)
                else let cur = load k;
                         spin1 = (if cur > prev then 0 else spin + 1);
                         prev1 = (if cur > prev then cur else prev)
                     in if spin1 \<ge> PTO2_DEP_POOL_SPIN_LIMIT
                        then Some (False, P1, latch_pool_error err PTO2_ERROR_DEP_POOL_OVERFLOW)
                        else dep_wait load R needed (k + 1) prev1 spin1 (P1, err))"

definition dep_ensure_space ::
  "(nat \<Rightarrow> int) \<Rightarrow> PTO2SharedMemoryRingHeader \<Rightarrow> int \<Rightarrow> PTO2DepListPool \<times> int \<Rightarrow> (bool \<times> PTO2DepListPool \<times> int) option" where
  "dep_ensure_space load R needed Pe =
     (if dep_available (fst Pe) \<ge> needed then Some (True, Pe) else dep_wait load R needed 1 (load 0) 0 Pe)"

end
