(* ===== verification/L2Queues.thy ===== *)
theory L2Queues
  imports L2Shared
begin

text \<open>
  The queues of the device scheduler (\<open>scheduler/pto_scheduler.h\<close>, \<open>scheduler/pto_scheduler.cpp\<close>): the local ready
  buffer of a scheduling thread, the bounded multi-producer multi-consumer ready queue with a sequence counter per
  slot, and the single-producer single-consumer wiring queue with cached indices.

  The operations of the ready queue are given as a whole, the way one thread runs them when no other interferes
  (\<open>None\<close> is a retry loop that never ends). Its positions
  are natural numbers: they count operations and would wrap after \<open>2 ^ 64\<close> of them. The wiring queue keeps 64-bit
  positions, since its code relies on their wrap-around.
\<close>

subsection \<open>Local ready buffer\<close>

text \<open>\<open>None\<close> is a buffer whose array has not been set.\<close>

record PTO2LocalReadyBuffer =
  lb_slot_states :: "slot_ref list option"
  lb_capacity :: nat

definition lb_reset :: "nat \<Rightarrow> PTO2LocalReadyBuffer" where
  "lb_reset cap = \<lparr>lb_slot_states = Some [], lb_capacity = cap\<rparr>"

definition lb_try_push :: "slot_ref \<Rightarrow> PTO2LocalReadyBuffer \<Rightarrow> bool \<times> PTO2LocalReadyBuffer" where
  "lb_try_push s B =
     (case lb_slot_states B of
        None \<Rightarrow> (False, B)
      | Some ss \<Rightarrow> if length ss < lb_capacity B then (True, B\<lparr>lb_slot_states := Some (ss @ [s])\<rparr>) else (False, B))"

definition lb_pop :: "PTO2LocalReadyBuffer \<Rightarrow> slot_ref option \<times> PTO2LocalReadyBuffer" where
  "lb_pop B =
     (case lb_slot_states B of
        None \<Rightarrow> (None, B)
      | Some ss \<Rightarrow> if ss = [] then (None, B) else (Some (last ss), B\<lparr>lb_slot_states := Some (butlast ss)\<rparr>))"

subsection \<open>Ready queue\<close>

record PTO2ReadyQueueSlot =
  qs_sequence :: int
  qs_slot_state :: "slot_ref option"

record PTO2ReadyQueue =
  rq_slots :: "PTO2ReadyQueueSlot list"
  rq_enqueue_pos :: nat
  rq_dequeue_pos :: nat

text \<open>\<open>pos & mask\<close> for a capacity that is a power of two.\<close>

definition rq_index :: "PTO2ReadyQueue \<Rightarrow> nat \<Rightarrow> nat" where
  "rq_index Q pos = pos mod length (rq_slots Q)"

definition rq_seq :: "PTO2ReadyQueue \<Rightarrow> nat \<Rightarrow> int" where
  "rq_seq Q pos = qs_sequence (rq_slots Q ! rq_index Q pos)"

definition rq_set :: "nat \<Rightarrow> (PTO2ReadyQueueSlot \<Rightarrow> PTO2ReadyQueueSlot) \<Rightarrow> PTO2ReadyQueue \<Rightarrow> PTO2ReadyQueue" where
  "rq_set pos f Q = Q\<lparr>rq_slots := (rq_slots Q)[rq_index Q pos := f (rq_slots Q ! rq_index Q pos)]\<rparr>"

definition ready_queue_init :: "bool \<Rightarrow> nat \<Rightarrow> PTO2ReadyQueue option" where
  "ready_queue_init alloc capacity =
     (if \<not> alloc then None
      else Some \<lparr>rq_slots = map (\<lambda>i. \<lparr>qs_sequence = int i, qs_slot_state = None\<rparr>) [0 ..< capacity],
                 rq_enqueue_pos = 0, rq_dequeue_pos = 0\<rparr>)"

definition rq_size :: "PTO2ReadyQueue \<Rightarrow> nat" where
  "rq_size Q = (if rq_enqueue_pos Q \<ge> rq_dequeue_pos Q then rq_enqueue_pos Q - rq_dequeue_pos Q else 0)"

definition rq_put :: "nat \<Rightarrow> slot_ref \<Rightarrow> PTO2ReadyQueue \<Rightarrow> PTO2ReadyQueue" where
  "rq_put pos p = rq_set pos (\<lambda>s. s\<lparr>qs_slot_state := Some p, qs_sequence := int pos + 1\<rparr>)"

definition rq_take :: "nat \<Rightarrow> PTO2ReadyQueue \<Rightarrow> PTO2ReadyQueue" where
  "rq_take pos Q = rq_set pos (\<lambda>s. s\<lparr>qs_sequence := int pos + int (length (rq_slots Q))\<rparr>) Q"

definition ready_push :: "slot_ref \<Rightarrow> PTO2ReadyQueue \<Rightarrow> (bool \<times> PTO2ReadyQueue) option" where
  "ready_push p Q =
     (let pos = rq_enqueue_pos Q; diff = rq_seq Q pos - int pos
      in if diff = 0 then Some (True, rq_put pos p (Q\<lparr>rq_enqueue_pos := pos + 1\<rparr>))
         else if diff < 0 then Some (False, Q)
         else None)"

fun put_items :: "nat \<Rightarrow> slot_ref list \<Rightarrow> PTO2ReadyQueue \<Rightarrow> PTO2ReadyQueue" where
  "put_items pos [] Q = Q"
| "put_items pos (p # ps) Q = put_items (pos + 1) ps (rq_put pos p Q)"

definition ready_push_batch :: "slot_ref list \<Rightarrow> PTO2ReadyQueue \<Rightarrow> PTO2ReadyQueue option" where
  "ready_push_batch items Q =
     (if items = [] then Some Q
      else let pos = rq_enqueue_pos Q
           in if list_all (\<lambda>i. rq_seq Q (pos + i) = int (pos + i)) [0 ..< length items]
              then Some (put_items pos items (Q\<lparr>rq_enqueue_pos := pos + length items\<rparr>))
              else None)"

definition ready_pop :: "PTO2ReadyQueue \<Rightarrow> (slot_ref option \<times> PTO2ReadyQueue) option" where
  "ready_pop Q =
     (if rq_dequeue_pos Q \<ge> rq_enqueue_pos Q then Some (None, Q)
      else let pos = rq_dequeue_pos Q; diff = rq_seq Q pos - int (pos + 1)
           in if diff = 0
              then Some (qs_slot_state (rq_slots Q ! rq_index Q pos), rq_take pos (Q\<lparr>rq_dequeue_pos := pos + 1\<rparr>))
              else if diff < 0 then Some (None, Q)
              else None)"

text \<open>The length of the run of filled slots from \<open>pos\<close> on, at most \<open>max\<close>; \<open>None\<close> if a slot is ahead of its position.\<close>

fun ready_run :: "PTO2ReadyQueue \<Rightarrow> nat \<Rightarrow> nat \<Rightarrow> nat option" where
  "ready_run Q pos 0 = Some 0"
| "ready_run Q pos (Suc m) =
     (let diff = rq_seq Q pos - int (pos + 1)
      in if diff = 0 then map_option Suc (ready_run Q (pos + 1) m)
         else if diff < 0 then Some 0
         else None)"

fun take_items :: "nat \<Rightarrow> nat \<Rightarrow> PTO2ReadyQueue \<Rightarrow> slot_ref option list \<times> PTO2ReadyQueue" where
  "take_items pos 0 Q = ([], Q)"
| "take_items pos (Suc n) Q =
     (case take_items (pos + 1) n (rq_take pos Q) of
        (out, Q') \<Rightarrow> (qs_slot_state (rq_slots Q ! rq_index Q pos) # out, Q'))"

definition ready_pop_batch :: "nat \<Rightarrow> PTO2ReadyQueue \<Rightarrow> (slot_ref option list \<times> PTO2ReadyQueue) option" where
  "ready_pop_batch max_count Q =
     (let pos = rq_dequeue_pos Q
      in case ready_run Q pos max_count of
           None \<Rightarrow> None
         | Some n \<Rightarrow> if n = 0 then Some ([], Q) else Some (take_items pos n (Q\<lparr>rq_dequeue_pos := pos + n\<rparr>)))"

subsection \<open>Wiring queue\<close>

record PTO2SpscQueue =
  sq_head :: u64
  sq_tail_cached :: u64
  sq_tail :: u64
  sq_head_cached :: u64
  sq_buffer :: "slot_ref option list"
  sq_mask :: u64

definition spsc_init :: "bool \<Rightarrow> u64 \<Rightarrow> PTO2SpscQueue option" where
  "spsc_init alloc capacity =
     (if capacity = 0 \<or> capacity AND (capacity - 1) \<noteq> 0 then None
      else if \<not> alloc then None
      else Some \<lparr>sq_head = 0, sq_tail_cached = 0, sq_tail = 0, sq_head_cached = 0,
                 sq_buffer = replicate (unat capacity) None, sq_mask = capacity - 1\<rparr>)"

definition spsc_push :: "slot_ref \<Rightarrow> PTO2SpscQueue \<Rightarrow> bool \<times> PTO2SpscQueue" where
  "spsc_push item Q =
     (let h = sq_head Q; next_h = h + 1;
          Q1 = (if next_h - sq_tail_cached Q > sq_mask Q then Q\<lparr>sq_tail_cached := sq_tail Q\<rparr> else Q)
      in if next_h - sq_tail_cached Q1 > sq_mask Q1 then (False, Q1)
         else (True, Q1\<lparr>sq_buffer := (sq_buffer Q1)[unat (h AND sq_mask Q1) := Some item], sq_head := next_h\<rparr>))"

definition spsc_pop_batch :: "nat \<Rightarrow> PTO2SpscQueue \<Rightarrow> slot_ref option list \<times> PTO2SpscQueue" where
  "spsc_pop_batch max_count Q =
     (let t = sq_tail Q;
          Q1 = (if sq_head_cached Q - t = 0 then Q\<lparr>sq_head_cached := sq_head Q\<rparr> else Q);
          avail = sq_head_cached Q1 - t
      in if avail = 0 then ([], Q1)
         else let n = (if unat avail < max_count then unat avail else max_count)
              in (map (\<lambda>i. sq_buffer Q1 ! unat ((t + of_nat i) AND sq_mask Q1)) [0 ..< n], Q1\<lparr>sq_tail := t + of_nat n\<rparr>))"

definition spsc_size :: "PTO2SpscQueue \<Rightarrow> u64" where
  "spsc_size Q = sq_head Q - sq_tail Q"

end
