(* ===== verification/L2Sched.thy ===== *)
theory L2Sched
  imports L2Pools L2Queues "HOL-Library.Monad_Syntax"
begin

text \<open>
  The device scheduler (\<open>scheduler/pto_scheduler.h\<close>, \<open>scheduler/pto_scheduler.cpp\<close>): wiring of submitted tasks,
  completion, release of producers, and the advance of a ring over consumed tasks. The operations act on the part of
  the device memory they touch: the shared header, the spill pools of the orchestrator (reached through payloads) and
  the state of the scheduler. \<open>None\<close> stands for a step that does not finish: an endless retry, a cyclic list, or a null
  pointer that is dereferenced. The profiling variants and the statistics are left out.
\<close>

definition PTO2_NUM_RESOURCE_SHAPES :: nat where "PTO2_NUM_RESOURCE_SHAPES = 3"
definition BATCH_SIZE :: nat where "BATCH_SIZE = 30"
definition BACKOFF_LIMIT :: int where "BACKOFF_LIMIT = 32"

record RingSchedState =
  rs_last_task_alive :: int
  rs_advance_lock :: bool
  rs_dep_pool :: PTO2DepListPool

text \<open>\<open>wi_batch\<close> holds the tasks of the local batch that are not wired yet.\<close>

record WiringState =
  wi_batch :: "slot_ref option list"
  wi_backoff_counter :: int
  wi_queue :: PTO2SpscQueue
  wi_orch_needs_drain :: bool

record PTO2SchedulerState =
  sc_header :: PTO2SharedMemoryHeader
  sc_fanin_pools :: "PTO2FaninPool list"
  sc_rings :: "RingSchedState list"
  sc_ready_queues :: "PTO2ReadyQueue list"
  sc_dummy_ready_queue :: PTO2ReadyQueue
  sc_wiring :: WiringState

abbreviation sc_slot :: "slot_ref \<Rightarrow> PTO2SchedulerState \<Rightarrow> PTO2TaskSlotState" where
  "sc_slot p S \<equiv> get_slot p (sc_header S)"

definition set_slot :: "slot_ref \<Rightarrow> (PTO2TaskSlotState \<Rightarrow> PTO2TaskSlotState) \<Rightarrow> PTO2SchedulerState \<Rightarrow> PTO2SchedulerState" where
  "set_slot p f S = S\<lparr>sc_header := upd_slot_state p f (sc_header S)\<rparr>"

definition set_rss :: "nat \<Rightarrow> (RingSchedState \<Rightarrow> RingSchedState) \<Rightarrow> PTO2SchedulerState \<Rightarrow> PTO2SchedulerState" where
  "set_rss r f S = S\<lparr>sc_rings := (sc_rings S)[r := f (sc_rings S ! r)]\<rparr>"

subsection \<open>Initialisation\<close>

definition init_slot :: "nat \<Rightarrow> PTO2TaskSlotState \<Rightarrow> PTO2TaskSlotState" where
  "init_slot r s = (reset_for_reuse (s\<lparr>ss_ring_id := r\<rparr>))\<lparr>ss_fanin_count := 0, ss_active_mask := 0\<rparr>"

definition rss_init_slots :: "nat \<Rightarrow> PTO2SharedMemoryHeader \<Rightarrow> PTO2SharedMemoryHeader" where
  "rss_init_slots r = upd_ring r (\<lambda>R. R\<lparr>rh_slots := map (init_slot r) (rh_slots R)\<rparr>)"

text \<open>\<open>alloc i\<close> says whether the \<open>i\<close>-th allocation succeeds: ready queues, dummy queue, dependency pools, wiring queue.
  Here \<open>None\<close> is a failed initialisation.\<close>

definition scheduler_init ::
  "(nat \<Rightarrow> bool) \<Rightarrow> nat \<Rightarrow> PTO2SharedMemoryHeader \<Rightarrow> PTO2FaninPool list \<Rightarrow> PTO2SchedulerState option" where
  "scheduler_init alloc dep_pool_capacity H pools =
     (let H' = fold rss_init_slots [0 ..< PTO2_MAX_RING_DEPTH] H;
          entries = replicate dep_pool_capacity \<lparr>de_slot_state = None, de_next = None\<rparr>
      in do {
        queues \<leftarrow> those (map (\<lambda>i. ready_queue_init (alloc i) PTO2_READY_QUEUE_SIZE) [0 ..< PTO2_NUM_RESOURCE_SHAPES]);
        dummy \<leftarrow> ready_queue_init (alloc 3) PTO2_READY_QUEUE_SIZE;
        pools' \<leftarrow> those (map (\<lambda>r. if alloc (4 + r) then (case dep_pool_init entries of Inl _ \<Rightarrow> None | Inr P \<Rightarrow> Some P)
                                    else None) [0 ..< PTO2_MAX_RING_DEPTH]);
        wq \<leftarrow> spsc_init (alloc 8) (of_nat PTO2_WRIRING_QUEUE_SIZE);
        Some \<lparr>sc_header = H', sc_fanin_pools = pools,
              sc_rings = map (\<lambda>P. \<lparr>rs_last_task_alive = 0, rs_advance_lock = False, rs_dep_pool = P\<rparr>) pools',
              sc_ready_queues = queues, sc_dummy_ready_queue = dummy,
              sc_wiring = \<lparr>wi_batch = [], wi_backoff_counter = 0, wi_queue = wq, wi_orch_needs_drain = False\<rparr>\<rparr>
      })"

subsection \<open>Advancing a ring\<close>

definition sync_to_sm :: "nat \<Rightarrow> PTO2SchedulerState \<Rightarrow> PTO2SchedulerState" where
  "sync_to_sm r S = S\<lparr>sc_header := upd_ring r (\<lambda>R. R\<lparr>rh_last_task_alive := rs_last_task_alive (sc_rings S ! r)\<rparr>) (sc_header S)\<rparr>"

function advance_scan :: "PTO2SharedMemoryRingHeader \<Rightarrow> int \<Rightarrow> int \<Rightarrow> int" where
  "advance_scan R current_task_index la =
     (if la < current_task_index \<and> ss_task_state (rh_slots R ! slot_by_task_id R la) = PTO2_TASK_CONSUMED
      then advance_scan R current_task_index (la + 1) else la)"
  by pat_completeness auto
termination
  by (relation "measure (\<lambda>(R, c, la). nat (c - la))") auto

declare advance_scan.simps [simp del]

definition reset_task :: "int \<Rightarrow> PTO2SharedMemoryRingHeader \<Rightarrow> PTO2SharedMemoryRingHeader" where
  "reset_task task_id R =
     (let i = slot_by_task_id R task_id in R\<lparr>rh_slots := (rh_slots R)[i := reset_for_reuse (rh_slots R ! i)]\<rparr>)"

definition advance_ring_pointers :: "nat \<Rightarrow> PTO2SchedulerState \<Rightarrow> PTO2SchedulerState" where
  "advance_ring_pointers r S =
     (let R = sh_rings (sc_header S) ! r;
          old = rs_last_task_alive (sc_rings S ! r);
          la = advance_scan R (rh_current_task_index R) old;
          S1 = set_rss r (\<lambda>x. x\<lparr>rs_last_task_alive := la\<rparr>) S;
          S2 = S1\<lparr>sc_header := upd_ring r (fold reset_task [old .. la - 1]) (sc_header S1)\<rparr>
      in sync_to_sm r S2)"

subsection \<open>Consumption\<close>

definition check_and_handle_consumed :: "slot_ref \<Rightarrow> PTO2SchedulerState \<Rightarrow> PTO2SchedulerState" where
  "check_and_handle_consumed p S =
     (let s = sc_slot p S
      in if ss_fanout_refcount s \<noteq> ss_fanout_count s then S
         else if ss_task_state s \<noteq> PTO2_TASK_COMPLETED then S
         else let S1 = set_slot p (\<lambda>x. x\<lparr>ss_task_state := PTO2_TASK_CONSUMED\<rparr>) S; r = ss_ring_id s
              in if rs_advance_lock (sc_rings S1 ! r) then S1 else advance_ring_pointers r S1)"

definition release_producer :: "slot_ref \<Rightarrow> PTO2SchedulerState \<Rightarrow> PTO2SchedulerState" where
  "release_producer p S =
     check_and_handle_consumed p (set_slot p (\<lambda>x. x\<lparr>ss_fanout_refcount := ss_fanout_refcount x + 1\<rparr>) S)"

definition on_scope_end :: "slot_ref list \<Rightarrow> PTO2SchedulerState \<Rightarrow> PTO2SchedulerState" where
  "on_scope_end ps S = fold release_producer ps S"

text \<open>The slots a payload lists as producers; a null pool or a null slot would be dereferenced.\<close>

definition producers_of :: "slot_ref \<Rightarrow> PTO2SchedulerState \<Rightarrow> slot_ref list option" where
  "producers_of p S =
     (let pl = get_payload p (sc_header S)
      in case pl_spill_pool pl of
           None \<Rightarrow> None
         | Some r \<Rightarrow> those (fanin_slot_states pl (sc_fanin_pools S ! r)))"

definition on_task_release :: "slot_ref \<Rightarrow> PTO2SchedulerState \<Rightarrow> (int \<times> PTO2SchedulerState) option" where
  "on_task_release p S = do {
     prods \<leftarrow> producers_of p S;
     Some (pl_fanin_count (get_payload p (sc_header S)), check_and_handle_consumed p (fold release_producer prods S))
   }"

subsection \<open>Readiness\<close>

fun shape_index :: "PTO2ResourceShape \<Rightarrow> nat" where
  "shape_index ShapeAIC = 0"
| "shape_index ShapeAIV = 1"
| "shape_index ShapeMIX = 2"
| "shape_index ShapeDUMMY = 3"

definition push_global :: "PTO2ResourceShape \<Rightarrow> slot_ref \<Rightarrow> PTO2SchedulerState \<Rightarrow> PTO2SchedulerState option" where
  "push_global shape p S =
     (if shape = ShapeDUMMY
      then do { (_, q) \<leftarrow> ready_push p (sc_dummy_ready_queue S); Some (S\<lparr>sc_dummy_ready_queue := q\<rparr>) }
      else do { (_, q) \<leftarrow> ready_push p (sc_ready_queues S ! shape_index shape);
                Some (S\<lparr>sc_ready_queues := (sc_ready_queues S)[shape_index shape := q]\<rparr>) })"

definition push_ready_routed :: "slot_ref \<Rightarrow> PTO2SchedulerState \<Rightarrow> PTO2SchedulerState option" where
  "push_ready_routed p S = push_global (to_shape (ss_active_mask (sc_slot p S))) p S"

text \<open>The thread-local buffers are an optional list with one buffer per shape.\<close>

definition release_fanin_and_check_ready ::
  "slot_ref \<Rightarrow> PTO2SchedulerState \<times> PTO2LocalReadyBuffer list option
    \<Rightarrow> (bool \<times> PTO2SchedulerState \<times> PTO2LocalReadyBuffer list option) option" where
  "release_fanin_and_check_ready p SB =
     (case SB of (S, bufs) \<Rightarrow>
        let S1 = set_slot p (\<lambda>x. x\<lparr>ss_fanin_refcount := ss_fanin_refcount x + 1\<rparr>) S; s = sc_slot p S1
        in if ss_fanin_refcount s = ss_fanin_count s
           then let shape = to_shape (ss_active_mask s)
                in (case bufs of
                      Some bs \<Rightarrow>
                        if shape = ShapeDUMMY
                        then do { S2 \<leftarrow> push_global shape p S1; Some (True, S2, bufs) }
                        else (case lb_try_push p (bs ! shape_index shape) of
                                (True, b) \<Rightarrow> Some (True, S1, Some (bs[shape_index shape := b]))
                              | (False, _) \<Rightarrow> do { S2 \<leftarrow> push_global shape p S1; Some (True, S2, bufs) })
                    | None \<Rightarrow> do { S2 \<leftarrow> push_global shape p S1; Some (True, S2, bufs) })
           else Some (False, S1, bufs))"

definition get_ready_tasks_batch ::
  "PTO2ResourceShape \<Rightarrow> nat \<Rightarrow> PTO2LocalReadyBuffer \<times> PTO2SchedulerState
    \<Rightarrow> (slot_ref option list \<times> PTO2LocalReadyBuffer \<times> PTO2SchedulerState) option" where
  "get_ready_tasks_batch shape max_count BS =
     (case BS of (B, S) \<Rightarrow>
        let ss = (case lb_slot_states B of None \<Rightarrow> [] | Some ss \<Rightarrow> ss);
            n = min max_count (length ss);
            local = map Some (take n (rev ss));
            B1 = B\<lparr>lb_slot_states := map_option (\<lambda>ss. take (length ss - n) ss) (lb_slot_states B)\<rparr>;
            remaining = max_count - n
        in if remaining > 0
           then do { (out, q) \<leftarrow> ready_pop_batch remaining (sc_ready_queues S ! shape_index shape);
                     Some (local @ out, B1, S\<lparr>sc_ready_queues := (sc_ready_queues S)[shape_index shape := q]\<rparr>) }
           else Some (local, B1, S))"

subsection \<open>Wiring\<close>

text \<open>What \<open>wire_task\<close> does under the lock of one producer; the count of producers that had finished already.\<close>

definition wire_edge :: "nat \<Rightarrow> slot_ref \<Rightarrow> slot_ref \<Rightarrow> PTO2SchedulerState \<times> int \<Rightarrow> PTO2SchedulerState \<times> int" where
  "wire_edge r ws producer Se =
     (case Se of (S, early_finished) \<Rightarrow>
        if ss_task_state (sc_slot producer S) \<noteq> PTO2_TASK_PENDING then (S, early_finished + 1)
        else (case dep_prepend r (ss_fanout_head (sc_slot producer S)) ws (rs_dep_pool (sc_rings S ! r))
                     (sh_orch_error_code (sc_header S)) of
                (head, P, err) \<Rightarrow>
                  let S1 = set_rss r (\<lambda>x. x\<lparr>rs_dep_pool := P\<rparr>) S;
                      S2 = S1\<lparr>sc_header := (sc_header S1)\<lparr>sh_orch_error_code := err\<rparr>\<rparr>
                  in (set_slot producer (\<lambda>x. x\<lparr>ss_fanout_head := head\<rparr>) S2, early_finished)))"

definition wire_task :: "nat \<Rightarrow> slot_ref \<Rightarrow> int \<Rightarrow> PTO2SchedulerState \<Rightarrow> PTO2SchedulerState option" where
  "wire_task r ws wfanin S = do {
     let S1 = set_slot ws (\<lambda>x. x\<lparr>ss_fanin_count := wfanin + 1\<rparr>) S;
     S4 \<leftarrow> (if wfanin \<noteq> 0
             then do {
               prods \<leftarrow> producers_of ws S1;
               let (S2, early_finished) = fold (wire_edge r ws) prods (S1, 0);
               let init_rc = early_finished + 1;
               let S3 = set_slot ws (\<lambda>x. x\<lparr>ss_fanin_refcount := ss_fanin_refcount x + init_rc\<rparr>) S2;
               if ss_fanin_refcount (sc_slot ws S3) \<ge> ss_fanin_count (sc_slot ws S3) then push_ready_routed ws S3 else Some S3
             }
             else push_ready_routed ws (set_slot ws (\<lambda>x. x\<lparr>ss_fanin_refcount := ss_fanin_refcount x + 1\<rparr>) S1));
     Some (set_slot ws (\<lambda>x. x\<lparr>ss_dep_pool_mark := dp_top (rs_dep_pool (sc_rings S4 ! r))\<rparr>) S4)
   }"

definition set_batch :: "slot_ref option list \<Rightarrow> PTO2SchedulerState \<Rightarrow> PTO2SchedulerState" where
  "set_batch b S = S\<lparr>sc_wiring := (sc_wiring S)\<lparr>wi_batch := b\<rparr>\<rparr>"

text \<open>The loop over the local batch: how many tasks were wired; the rest stays in the batch.\<close>

fun wire_batch :: "slot_ref option list \<Rightarrow> PTO2SchedulerState \<Rightarrow> (nat \<times> PTO2SchedulerState) option" where
  "wire_batch [] S = Some (0, set_batch [] S)"
| "wire_batch (ws # rest) S =
     (case ws of
        None \<Rightarrow> None
      | Some p \<Rightarrow>
          let r = ss_ring_id (sc_slot p S);
              wfanin = pl_fanin_count (get_payload p (sc_header S));
              rss = sc_rings S ! r;
              S1 = (if wfanin > 0 \<and> dep_available (rs_dep_pool rss) < wfanin
                    then set_rss r (\<lambda>x. x\<lparr>rs_dep_pool :=
                           dep_reclaim (sh_rings (sc_header S) ! r) (rs_last_task_alive rss) (rs_dep_pool x)\<rparr>) S
                    else S)
          in if wfanin > 0 \<and> dep_available (rs_dep_pool (sc_rings S1 ! r)) < wfanin
             then Some (0, set_batch (ws # rest) S1)
             else do {
               S2 \<leftarrow> wire_task r p wfanin S1;
               (n, S3) \<leftarrow> wire_batch rest S2;
               Some (n + 1, S3)
             })"

definition drain_wiring_queue :: "bool \<Rightarrow> PTO2SchedulerState \<Rightarrow> (nat \<times> PTO2SchedulerState) option" where
  "drain_wiring_queue force_drain S =
     (let w = sc_wiring S
      in if wi_batch w \<noteq> [] then wire_batch (wi_batch w) S
         else if \<not> force_drain \<and> spsc_size (wi_queue w) < of_nat BATCH_SIZE
                 \<and> \<not> wi_orch_needs_drain w \<and> wi_backoff_counter w < BACKOFF_LIMIT
         then Some (0, S\<lparr>sc_wiring := w\<lparr>wi_backoff_counter := wi_backoff_counter w + 1\<rparr>\<rparr>)
         else case spsc_pop_batch BATCH_SIZE (wi_queue w) of
             (out, q) \<Rightarrow>
               let S1 = S\<lparr>sc_wiring := w\<lparr>wi_backoff_counter := 0, wi_queue := q, wi_batch := out\<rparr>\<rparr>
               in if out = [] then Some (0, S1) else wire_batch out S1)"

subsection \<open>Completion\<close>

definition on_subtask_complete :: "slot_ref \<Rightarrow> PTO2SchedulerState \<Rightarrow> bool \<times> PTO2SchedulerState" where
  "on_subtask_complete p S =
     (let prev = ss_completed_subtasks (sc_slot p S)
      in (prev + 1 = ss_total_required (sc_slot p S), set_slot p (\<lambda>x. x\<lparr>ss_completed_subtasks := to_i16 (prev + 1)\<rparr>) S))"

partial_function (option) notify_fanout ::
  "dep_ref option \<Rightarrow> PTO2SchedulerState \<times> PTO2LocalReadyBuffer list option
    \<Rightarrow> (PTO2SchedulerState \<times> PTO2LocalReadyBuffer list option) option" where
  "notify_fanout cur SB =
     (case cur of
        None \<Rightarrow> Some SB
      | Some (r, i) \<Rightarrow>
          let e = dp_base (rs_dep_pool (sc_rings (fst SB) ! r)) ! i
          in (case de_slot_state e of
                None \<Rightarrow> None
              | Some consumer \<Rightarrow>
                  Option.bind (release_fanin_and_check_ready consumer SB) (\<lambda>(_, SB'). notify_fanout (de_next e) SB')))"

definition on_mixed_task_complete ::
  "slot_ref \<Rightarrow> PTO2SchedulerState \<times> PTO2LocalReadyBuffer list option
    \<Rightarrow> (PTO2SchedulerState \<times> PTO2LocalReadyBuffer list option) option" where
  "on_mixed_task_complete p SB =
     (case SB of (S, bufs) \<Rightarrow>
        let S1 = set_slot p (\<lambda>x. x\<lparr>ss_task_state := PTO2_TASK_COMPLETED\<rparr>) S
        in notify_fanout (ss_fanout_head (sc_slot p S1)) (S1, bufs))"

end
