(* ===== verification/L2Orch.thy ===== *)
theory L2Orch
  imports L2Sched
begin

text \<open>
  The device orchestrator (\<open>pto_orchestrator.h\<close>, \<open>pto_orchestrator.cpp\<close>): scopes, task preparation, the fanin builder,
  task submission and hidden allocation tasks. The state of the orchestrator holds the device state of the scheduler it
  calls back, with the shared header and the spill pools in it.

  Between two statements of the orchestrator the scheduler may run. The model lets it move \<open>last_task_alive\<close> during the
  waits (the parameter \<open>load\<close>); everything else of a submission is one step, and runs of the system interleave
  whole submissions with steps of the scheduler. The result of an operation is an \<open>outcome\<close>; \<open>None\<close> is an operation that
  never returns. Profiling, dependency tracing and logging are left out.
\<close>

record PTO2OrchestratorState =
  or_sched :: PTO2SchedulerState
  or_allocators :: "PTO2TaskAllocator list"
  or_tensor_map :: PTO2TensorMap
  or_scope_tasks :: "slot_ref list"
  or_scope_begins :: "nat list"
  or_manual_begin_depth :: int
  or_heap_base :: u64
  or_heap :: bytes
  or_fatal :: bool
  or_inline_completed :: int
  or_tasks_submitted :: int
  or_total_cluster_count :: int
  or_total_aiv_count :: int

abbreviation or_header :: "PTO2OrchestratorState \<Rightarrow> PTO2SharedMemoryHeader" where
  "or_header Os \<equiv> sc_header (or_sched Os)"

definition set_header :: "PTO2SharedMemoryHeader \<Rightarrow> PTO2OrchestratorState \<Rightarrow> PTO2OrchestratorState" where
  "set_header H Os = Os\<lparr>or_sched := (or_sched Os)\<lparr>sc_header := H\<rparr>\<rparr>"

subsection \<open>Scopes\<close>

text \<open>\<open>scope_stack_top\<close> is one less than the number of open scopes.\<close>

definition scope_stack_top :: "PTO2OrchestratorState \<Rightarrow> int" where
  "scope_stack_top Os = int (length (or_scope_begins Os)) - 1"

definition current_ring_id :: "PTO2OrchestratorState \<Rightarrow> nat" where
  "current_ring_id Os =
     (let depth = max 0 (scope_stack_top Os)
      in if depth < int PTO2_MAX_RING_DEPTH then nat depth else PTO2_MAX_RING_DEPTH - 1)"

definition in_manual_scope :: "PTO2OrchestratorState \<Rightarrow> bool" where
  "in_manual_scope Os \<longleftrightarrow> scope_stack_top Os \<ge> or_manual_begin_depth Os"

datatype PTO2ScopeMode = AUTO | MANUAL

definition orch_mark_fatal :: "int \<Rightarrow> PTO2OrchestratorState \<Rightarrow> PTO2OrchestratorState" where
  "orch_mark_fatal error_code Os =
     (let H = or_header Os
      in set_header (if error_code = PTO2_ERROR_NONE then H
                     else H\<lparr>sh_orch_error_code := latch_pool_error (sh_orch_error_code H) error_code\<rparr>)
           (Os\<lparr>or_fatal := True\<rparr>))"

definition begin_scope :: "PTO2ScopeMode \<Rightarrow> PTO2OrchestratorState \<Rightarrow> (PTO2OrchestratorState, unit) outcome" where
  "begin_scope mode Os =
     (if or_fatal Os then (Inr (), Os)
      else if \<not> scope_stack_top Os < PTO2_MAX_SCOPE_DEPTH - 1
      then (Inl (assert_failed ''Scope stack overflow''), Os)
      else if mode = AUTO \<and> in_manual_scope Os then (Inr (), orch_mark_fatal PTO2_ERROR_INVALID_ARGS Os)
      else let already = in_manual_scope Os;
               Os1 = Os\<lparr>or_scope_begins := or_scope_begins Os @ [length (or_scope_tasks Os)]\<rparr>
           in (Inr (), if mode = MANUAL \<and> \<not> already then Os1\<lparr>or_manual_begin_depth := scope_stack_top Os1\<rparr> else Os1))"

definition end_scope :: "PTO2OrchestratorState \<Rightarrow> (PTO2OrchestratorState, unit) outcome" where
  "end_scope Os =
     (if or_fatal Os then (Inr (), Os)
      else if \<not> scope_stack_top Os \<ge> 0 then (Inl (assert_failed ''Scope stack underflow''), Os)
      else let ending_manual = (scope_stack_top Os = or_manual_begin_depth Os);
               begin = last (or_scope_begins Os);
               tasks = drop begin (or_scope_tasks Os);
               Os1 = Os\<lparr>or_scope_begins := butlast (or_scope_begins Os),
                        or_manual_begin_depth := (if ending_manual then PTO2_MAX_SCOPE_DEPTH else or_manual_begin_depth Os)\<rparr>
           in (Inr (), Os1\<lparr>or_sched := on_scope_end tasks (or_sched Os1), or_scope_tasks := take begin (or_scope_tasks Os1)\<rparr>))"

definition scope_tasks_push :: "slot_ref \<Rightarrow> PTO2OrchestratorState \<Rightarrow> PTO2OrchestratorState" where
  "scope_tasks_push p Os = Os\<lparr>or_scope_tasks := or_scope_tasks Os @ [p]\<rparr>"

subsection \<open>Preparing a task\<close>

text \<open>
  The packed layout of the outputs. The running total is a 32-bit signed integer that a 64-bit size is added to, so
  it wraps, and the offset of an output is its sign extension.
\<close>

fun layout_outputs ::
  "(TensorArgType \<times> TensorRef) list \<Rightarrow> int \<Rightarrow> exn + (u64 \<times> u64) list \<times> int" where
  "layout_outputs [] acc = Inr ([], acc)"
| "layout_outputs ((tag, ref) # rest) acc =
     (if tag \<noteq> OUTPUT then map_sum id (\<lambda>(l, t). ((0, 0) # l, t)) (layout_outputs rest acc)
      else case ref of
          TensorPtr _ \<Rightarrow> Inl UndefinedBehaviour
        | CreateInfo ci \<Rightarrow>
            (case buffer_size_bytes ci of
               Inl ex \<Rightarrow> Inl ex
             | Inr n \<Rightarrow>
                 let bsize = PTO2_ALIGN_UP n PTO2_PACKED_OUTPUT_ALIGN; off = of_int acc :: u64
                 in map_sum id (\<lambda>(l, t). ((off, bsize) # l, t))
                      (layout_outputs rest (sint (ucast (off + bsize) :: u32)))))"

definition calculate_output_layout :: "Arg \<Rightarrow> exn + PTO2OutputLayout" where
  "calculate_output_layout args =
     map_sum id (\<lambda>(l, t). \<lparr>ol_offsets = map fst l, ol_buffer_sizes = map snd l, ol_total_output_size = t\<rparr>)
       (layout_outputs (arg_tensors args) 0)"

definition check_scope_can_accept_task :: "nat \<Rightarrow> PTO2OrchestratorState \<Rightarrow> (PTO2OrchestratorState, bool) outcome" where
  "check_scope_can_accept_task r Os =
     (if \<not> scope_stack_top Os \<ge> 0 then (Inl (assert_failed ''Cannot submit task outside a scope''), Os)
      else let scope_task_count = int (length (or_scope_tasks Os)) - int (last (or_scope_begins Os))
           in if scope_task_count < int (al_window_size (or_allocators Os ! r)) - 1 then (Inr True, Os)
              else (Inr False, orch_mark_fatal PTO2_ERROR_SCOPE_DEADLOCK Os))"

record PTO2PreparedTask =
  pt_task_id :: PTO2TaskId
  pt_alloc_result :: PTO2TaskAllocResult
  pt_slot_state :: slot_ref

definition init_submitted_slot :: "int \<Rightarrow> u8 \<Rightarrow> PTO2TaskSlotState \<Rightarrow> PTO2TaskSlotState" where
  "init_submitted_slot block active_mask s =
     s\<lparr>ss_task_state := PTO2_TASK_PENDING,
       ss_total_required := to_i16 (block * int (popcount8 (core_mask active_mask))),
       ss_block_num := block, ss_active_mask := active_mask\<rparr>"

definition prepare_task ::
  "(nat \<Rightarrow> int) \<Rightarrow> Arg \<Rightarrow> int \<Rightarrow> u8 \<Rightarrow> PTO2OrchestratorState
    \<Rightarrow> (PTO2OrchestratorState, PTO2PreparedTask option) outcome option" where
  "prepare_task load args total_output_size active_mask Os =
     (let r = current_ring_id Os
      in case check_scope_can_accept_task r Os of
           (Inl ex, Os1) \<Rightarrow> Some (Inl ex, Os1)
         | (Inr False, Os1) \<Rightarrow> Some (Inr None, Os1)
         | (Inr True, Os1) \<Rightarrow>
             (case task_alloc load total_output_size
                     (or_allocators Os1 ! r, sh_rings (or_header Os1) ! r, sh_orch_error_code (or_header Os1)) of
                None \<Rightarrow> None
              | Some (ar, A, R, err) \<Rightarrow>
                  let H = upd_ring r (\<lambda>_. R) (or_header Os1);
                      Os2 = set_header (H\<lparr>sh_orch_error_code := err\<rparr>) (Os1\<lparr>or_allocators := (or_allocators Os1)[r := A]\<rparr>)
                  in if alloc_failed ar then Some (Inr None, orch_mark_fatal PTO2_ERROR_HEAP_RING_DEADLOCK Os2)
                     else let p = (r, nat (ta_slot ar));
                              Os3 = set_header (upd_slot_state p
                                      (init_submitted_slot (block_num (launch_spec args)) active_mask) (or_header Os2)) Os2
                          in Some (Inr (Some \<lparr>pt_task_id = tid_make (of_nat r) (i32 (ta_task_id ar)),
                                              pt_alloc_result = ar, pt_slot_state = p\<rparr>),
                                   scope_tasks_push p Os3)))"

subsection \<open>The fanin builder\<close>

text \<open>The spill pool of a builder is that of its ring and is passed along with it. The inline cells are a growing list.\<close>

record PTO2FaninBuilder =
  fb_count :: int
  fb_spill_start :: int
  fb_inline :: "slot_ref list"

definition new_fanin_builder :: PTO2FaninBuilder where
  "new_fanin_builder = \<lparr>fb_count = 0, fb_spill_start = 0, fb_inline = []\<rparr>"

definition fb_entries :: "PTO2FaninBuilder \<Rightarrow> PTO2FaninPool \<Rightarrow> slot_ref option list" where
  "fb_entries b P = fanin_storage (map Some (fb_inline b)) (fb_count b) (fb_spill_start b) P"

definition fb_contains :: "slot_ref \<Rightarrow> PTO2FaninBuilder \<Rightarrow> PTO2FaninPool \<Rightarrow> bool" where
  "fb_contains p b P \<longleftrightarrow> list_ex (\<lambda>q. q = Some p) (fb_entries b P)"

text \<open>The result says whether to go on; the error code is the one in shared memory.\<close>

definition append_fanin_or_fail ::
  "(nat \<Rightarrow> int) \<Rightarrow> PTO2SharedMemoryRingHeader \<Rightarrow> nat \<Rightarrow> slot_ref \<Rightarrow> PTO2FaninBuilder \<times> PTO2FaninPool \<times> int
    \<Rightarrow> (bool \<times> PTO2FaninBuilder \<times> PTO2FaninPool \<times> int) option" where
  "append_fanin_or_fail load R r prod_state bPe =
     (case bPe of (b, P, err) \<Rightarrow>
        if fb_contains prod_state b P then Some (True, b, P, err)
        else if fb_count b < int PTO2_FANIN_INLINE_CAP
        then Some (True, b\<lparr>fb_inline := fb_inline b @ [prod_state], fb_count := fb_count b + 1\<rparr>, P, err)
        else (case fanin_ensure_space load r R 1 (P, err) of
                None \<Rightarrow> None
              | Some (False, P1, err1) \<Rightarrow> Some (False, b, P1, latch_pool_error err1 PTO2_ERROR_DEP_POOL_OVERFLOW)
              | Some (True, P1, err1) \<Rightarrow>
                  let spill_idx = fp_top P1
                  in (case fanin_alloc P1 err1 of
                        (None, P2, err2) \<Rightarrow> Some (False, b, P2, latch_pool_error err2 PTO2_ERROR_DEP_POOL_OVERFLOW)
                      | (Some i, P2, err2) \<Rightarrow>
                          let b1 = (if fb_count b = int PTO2_FANIN_INLINE_CAP then b\<lparr>fb_spill_start := spill_idx\<rparr> else b)
                          in Some (True, b1\<lparr>fb_count := fb_count b1 + 1\<rparr>, P2\<lparr>fp_base := (fp_base P2)[i := Some prod_state]\<rparr>, err2))))"

subsection \<open>Submission\<close>

text \<open>
  The captured state of \<open>runtime_emit\<close>: the fanin builder with its pool and the error code, or what ended the
  submission: an exception, or \<open>None\<close> for a wait that never ends.
\<close>

type_synonym fanin_state = "exn option + PTO2FaninBuilder \<times> PTO2FaninPool \<times> int"

definition add_producer :: "(nat \<Rightarrow> int) \<Rightarrow> PTO2SharedMemoryHeader \<Rightarrow> nat \<Rightarrow> slot_ref \<Rightarrow> fanin_state \<Rightarrow> fanin_state \<times> bool" where
  "add_producer load H r p c =
     (case c of
        Inl _ \<Rightarrow> (c, False)
      | Inr bPe \<Rightarrow>
          (case append_fanin_or_fail load (sh_rings H ! r) r p bPe of
             None \<Rightarrow> (Inl None, False)
           | Some (ok, bPe') \<Rightarrow> (Inr bPe', ok)))"

definition runtime_emit :: "(nat \<Rightarrow> int) \<Rightarrow> PTO2SharedMemoryHeader \<Rightarrow> nat \<Rightarrow> fanin_state emit" where
  "runtime_emit load H r producer c =
     (let pr = unat (tid_ring producer)
      in if pr \<ge> PTO2_MAX_RING_DEPTH then (Inl (Some UndefinedBehaviour), False)
         else add_producer load H r (pr, slot_of (rh_window (sh_rings H ! pr)) (tid_local producer)) c)"

text \<open>The explicit dependencies; \<open>Inl\<close> is an invalid id, otherwise the flag says whether to go on.\<close>

fun explicit_fanin ::
  "(nat \<Rightarrow> int) \<Rightarrow> PTO2SharedMemoryHeader \<Rightarrow> nat \<Rightarrow> PTO2TaskId list \<Rightarrow> fanin_state \<Rightarrow> unit + fanin_state \<times> bool" where
  "explicit_fanin load H r [] c = Inr (c, True)"
| "explicit_fanin load H r (d # ds) c =
     (if \<not> tid_is_valid d then Inl ()
      else let dr = unat (tid_ring d)
           in if dr \<ge> PTO2_MAX_RING_DEPTH then Inr (Inl (Some UndefinedBehaviour), False)
              else let R = sh_rings H ! dr
                   in if sint (tid_local d) < rh_last_task_alive R then explicit_fanin load H r ds c
                      else (case add_producer load H r (dr, slot_of (rh_window R) (tid_local d)) c of
                              (c', True) \<Rightarrow> explicit_fanin load H r ds c'
                            | (c', False) \<Rightarrow> Inr (c', False)))"

definition dep_args :: "Arg \<Rightarrow> dep_arg list" where
  "dep_args args = map (\<lambda>(tag, ref). (tag, case ref of TensorPtr t \<Rightarrow> Some t | CreateInfo _ \<Rightarrow> None)) (arg_tensors args)"

text \<open>Ending a submission early: the pool and the error code are kept, and a failed append has set the fatal flag.\<close>

definition leave_fanin :: "nat \<Rightarrow> fanin_state \<Rightarrow> TaskOutputTensors \<Rightarrow> PTO2OrchestratorState
    \<Rightarrow> (PTO2OrchestratorState, TaskOutputTensors) outcome option" where
  "leave_fanin r c result Os =
     (case c of
        Inl None \<Rightarrow> None
      | Inl (Some ex) \<Rightarrow> Some (Inl ex, Os)
      | Inr (b, P, err) \<Rightarrow>
          let S = or_sched Os
          in Some (Inr result, Os\<lparr>or_fatal := True,
               or_sched := S\<lparr>sc_fanin_pools := (sc_fanin_pools S)[r := P], sc_header := (sc_header S)\<lparr>sh_orch_error_code := err\<rparr>\<rparr>\<rparr>))"

definition write_descriptor :: "PTO2PreparedTask \<Rightarrow> int list \<Rightarrow> PTO2TaskDescriptor \<Rightarrow> PTO2TaskDescriptor" where
  "write_descriptor pt kernels d =
     \<lparr>td_task_id = pt_task_id pt, td_kernel_id = kernels, td_packed_base = ta_packed_base (pt_alloc_result pt),
      td_packed_end = ta_packed_end (pt_alloc_result pt)\<rparr>"

definition write_fanin :: "nat \<Rightarrow> PTO2FaninBuilder \<Rightarrow> PTO2TaskPayload \<Rightarrow> PTO2TaskPayload" where
  "write_fanin r b p =
     p\<lparr>pl_fanin_count := fb_count b, pl_spill_start := fb_spill_start b, pl_spill_pool := Some r,
       pl_inline := map Some (fb_inline b) @ drop (length (fb_inline b)) (pl_inline p)\<rparr>"

definition retain_producer :: "slot_ref option \<Rightarrow> PTO2SharedMemoryHeader \<Rightarrow> PTO2SharedMemoryHeader" where
  "retain_producer p H =
     (case p of None \<Rightarrow> H | Some q \<Rightarrow> upd_slot_state q (\<lambda>s. s\<lparr>ss_fanout_count := ss_fanout_count s + 1\<rparr>) H)"

text \<open>Steps 5 and 6 of a submission: what is written for the task, and the push to the wiring queue.\<close>

definition publish_task ::
  "PTO2PreparedTask \<Rightarrow> Arg \<Rightarrow> PTO2OutputLayout \<Rightarrow> int list \<Rightarrow> nat \<Rightarrow> PTO2FaninBuilder \<Rightarrow> TaskOutputTensors
    \<Rightarrow> PTO2OrchestratorState \<Rightarrow> (PTO2OrchestratorState, TaskOutputTensors) outcome option" where
  "publish_task pt args lay kernels r b result Os =
     (let p = pt_slot_state pt; S = or_sched Os;
          H1 = upd_descriptor p (write_descriptor pt kernels) (sc_header S);
          H2 = fold retain_producer (fb_entries b (sc_fanin_pools S ! r)) H1;
          H3 = upd_payload p (write_fanin r b) H2
      in case payload_init (or_heap_base Os) args (pt_alloc_result pt) lay (get_payload p H3) (result, or_heap Os) of
           Inl ex \<Rightarrow> Some (Inl ex, set_header H3 Os)
         | Inr (pl, result', heap) \<Rightarrow>
             (case spsc_push p (wi_queue (sc_wiring S)) of
                (False, _) \<Rightarrow> None
              | (True, q) \<Rightarrow>
                  Some (Inr result',
                    Os\<lparr>or_sched := S\<lparr>sc_header := upd_payload p (\<lambda>_. pl) H3, sc_wiring := (sc_wiring S)\<lparr>wi_queue := q\<rparr>\<rparr>,
                       or_heap := heap, or_tasks_submitted := or_tasks_submitted Os + 1\<rparr>)))"

text \<open>Steps 2 to 4: the tensor map is brought up to date, the producers are collected and the outputs registered.\<close>

definition collect_fanin ::
  "bool \<Rightarrow> (nat \<Rightarrow> int) \<Rightarrow> PTO2PreparedTask \<Rightarrow> Arg \<Rightarrow> TaskOutputTensors \<Rightarrow> PTO2OrchestratorState
    \<Rightarrow> (PTO2OrchestratorState, TaskOutputTensors + PTO2FaninBuilder) outcome option" where
  "collect_fanin dbg load pt args result Os =
     (let r = unat (tid_ring (pt_task_id pt)); S = or_sched Os; H = sc_header S; manual = in_manual_scope Os;
          leave = (\<lambda>c Os'. map_option (map_prod (map_sum id Inl) id) (leave_fanin r c result Os'))
      in case sync_tensormap dbg (pt_task_id pt) (rh_last_task_alive (sh_rings H ! r)) (or_tensor_map Os) of
           None \<Rightarrow> None
         | Some (Inl ex, M) \<Rightarrow> Some (Inl ex, Os\<lparr>or_tensor_map := M\<rparr>)
         | Some (Inr _, M) \<Rightarrow>
             (case explicit_fanin load H r (explicit_dep_list args)
                     (Inr (new_fanin_builder, sc_fanin_pools S ! r, sh_orch_error_code H)) of
                Inl _ \<Rightarrow> Some (Inr (Inl result), orch_mark_fatal PTO2_ERROR_INVALID_ARGS (Os\<lparr>or_tensor_map := M\<rparr>))
              | Inr (c, False) \<Rightarrow> leave c (Os\<lparr>or_tensor_map := M\<rparr>)
              | Inr (c, True) \<Rightarrow>
                  (case compute_task_fanin dbg (dep_args args) manual (runtime_emit load H r) (M, c) of
                     None \<Rightarrow> None
                   | Some (Inl ex, (M1, _)) \<Rightarrow> Some (Inl ex, Os\<lparr>or_tensor_map := M1\<rparr>)
                   | Some (Inr False, (M1, c1)) \<Rightarrow> leave c1 (Os\<lparr>or_tensor_map := M1\<rparr>)
                   | Some (Inr True, (M1, c1)) \<Rightarrow>
                       (case register_task_outputs dbg (dep_args args) (pt_task_id pt) manual M1 of
                          (Inl ex, M2) \<Rightarrow> Some (Inl ex, Os\<lparr>or_tensor_map := M2\<rparr>)
                        | (Inr _, M2) \<Rightarrow>
                            (case c1 of
                               Inl _ \<Rightarrow> leave c1 (Os\<lparr>or_tensor_map := M2\<rparr>)
                             | Inr (b, P, err) \<Rightarrow>
                                 Some (Inr (Inr b), Os\<lparr>or_tensor_map := M2, or_sched := S\<lparr>
                                   sc_fanin_pools := (sc_fanin_pools S)[r := P],
                                   sc_header := H\<lparr>sh_orch_error_code := err\<rparr>\<rparr>\<rparr>))))))"

definition submit_task_common ::
  "bool \<Rightarrow> (nat \<Rightarrow> int) \<Rightarrow> Arg \<Rightarrow> u8 \<Rightarrow> int list \<Rightarrow> PTO2OrchestratorState
    \<Rightarrow> (PTO2OrchestratorState, TaskOutputTensors) outcome option" where
  "submit_task_common dbg load args active_mask kernels Os =
     (case calculate_output_layout args of
        Inl ex \<Rightarrow> Some (Inl ex, Os)
      | Inr lay \<Rightarrow>
          (case prepare_task load args (ol_total_output_size lay) active_mask Os of
             None \<Rightarrow> None
           | Some (Inl ex, Os1) \<Rightarrow> Some (Inl ex, Os1)
           | Some (Inr None, Os1) \<Rightarrow> Some (Inr no_outputs, Os1)
           | Some (Inr (Some pt), Os1) \<Rightarrow>
               let result = no_outputs\<lparr>out_task_id := pt_task_id pt\<rparr>
               in (case collect_fanin dbg load pt args result Os1 of
                     None \<Rightarrow> None
                   | Some (Inl ex, Os2) \<Rightarrow> Some (Inl ex, Os2)
                   | Some (Inr (Inl res), Os2) \<Rightarrow> Some (Inr res, Os2)
                   | Some (Inr (Inr b), Os2) \<Rightarrow>
                       publish_task pt args lay kernels (unat (tid_ring (pt_task_id pt))) b result Os2)))"

text \<open>A task with only the second vector kernel is moved to the first vector slot.\<close>

definition normalize_kernels :: "MixedKernels \<Rightarrow> MixedKernels" where
  "normalize_kernels k =
     (let m = to_active_mask k
      in if m AND PTO2_SUBTASK_MASK_AIC = 0 \<and> m AND PTO2_SUBTASK_MASK_AIV1 \<noteq> 0 \<and> m AND PTO2_SUBTASK_MASK_AIV0 = 0
         then k\<lparr>aiv0_kernel_id := aiv1_kernel_id k, aiv1_kernel_id := INVALID_KERNEL_ID\<rparr> else k)"

definition submit_task ::
  "bool \<Rightarrow> (nat \<Rightarrow> int) \<Rightarrow> MixedKernels \<Rightarrow> Arg \<Rightarrow> PTO2OrchestratorState
    \<Rightarrow> (PTO2OrchestratorState, TaskOutputTensors) outcome option" where
  "submit_task dbg load mixed_kernels args Os =
     (if or_fatal Os then Some (Inr no_outputs, Os)
      else if has_error args then Some (Inr no_outputs, orch_mark_fatal PTO2_ERROR_INVALID_ARGS Os)
      else if to_active_mask mixed_kernels = 0
      then Some (Inl (assert_failed ''MixedKernels must have at least one active slot''), Os)
      else let block = block_num (launch_spec args)
           in if \<not> block \<ge> 1 then Some (Inl (assert_failed ''block_num must be >= 1''), Os)
              else let k = normalize_kernels mixed_kernels; m = to_active_mask k;
                       kernels = [aic_kernel_id k, aiv0_kernel_id k, aiv1_kernel_id k]
                   in if block > 1 \<and> require_sync_start (launch_spec args)
                      then let limit = (if to_shape m = ShapeAIV then or_total_aiv_count Os else or_total_cluster_count Os)
                           in if limit > 0 \<and> block > limit
                              then Some (Inr no_outputs, orch_mark_fatal PTO2_ERROR_REQUIRE_SYNC_START_INVALID Os)
                              else submit_task_common dbg load args (set_sync_start m) kernels Os
                      else submit_task_common dbg load args m kernels Os)"

definition no_kernels :: "int list" where
  "no_kernels = [INVALID_KERNEL_ID, INVALID_KERNEL_ID, INVALID_KERNEL_ID]"

definition submit_dummy_task ::
  "bool \<Rightarrow> (nat \<Rightarrow> int) \<Rightarrow> Arg \<Rightarrow> PTO2OrchestratorState \<Rightarrow> (PTO2OrchestratorState, TaskOutputTensors) outcome option" where
  "submit_dummy_task dbg load args Os =
     (if or_fatal Os then Some (Inr no_outputs, Os)
      else if has_error args then Some (Inr no_outputs, orch_mark_fatal PTO2_ERROR_INVALID_ARGS Os)
      else submit_task_common dbg load args 0 no_kernels Os)"

subsection \<open>Hidden allocation tasks\<close>

definition finish_alloc :: "PTO2PreparedTask \<Rightarrow> Arg \<Rightarrow> PTO2OutputLayout \<Rightarrow> PTO2OrchestratorState
    \<Rightarrow> (PTO2OrchestratorState, TaskOutputTensors) outcome" where
  "finish_alloc pt args lay Os =
     (let p = pt_slot_state pt;
          H1 = upd_descriptor p (write_descriptor pt no_kernels) (or_header Os);
          result = no_outputs\<lparr>out_task_id := pt_task_id pt\<rparr>
      in case payload_init (or_heap_base Os) args (pt_alloc_result pt) lay (get_payload p H1) (result, or_heap Os) of
           Inl ex \<Rightarrow> (Inl ex, set_header H1 Os)
         | Inr (pl, result', heap) \<Rightarrow>
             let H2 = upd_payload p (\<lambda>_. pl\<lparr>pl_fanin_count := 0, pl_spill_start := 0,
                        pl_spill_pool := Some (unat (tid_ring (pt_task_id pt)))\<rparr>) H1;
                 H3 = upd_slot_state p (\<lambda>s. s\<lparr>ss_task_state := PTO2_TASK_COMPLETED\<rparr>) H2
             in (Inr result', (set_header H3 Os)\<lparr>or_heap := heap, or_inline_completed := or_inline_completed Os + 1,
                   or_tasks_submitted := or_tasks_submitted Os + 1\<rparr>))"

definition alloc_tensors ::
  "(nat \<Rightarrow> int) \<Rightarrow> Arg \<Rightarrow> PTO2OrchestratorState \<Rightarrow> (PTO2OrchestratorState, TaskOutputTensors) outcome option" where
  "alloc_tensors load args Os =
     (if or_fatal Os then Some (Inr no_outputs, Os)
      else if arg_tensors args = [] \<or> arg_scalars args \<noteq> [] \<or> \<not> list_all (\<lambda>(tag, _). tag = OUTPUT) (arg_tensors args)
              \<or> has_error args
      then Some (Inr no_outputs, orch_mark_fatal PTO2_ERROR_INVALID_ARGS Os)
      else case calculate_output_layout args of
          Inl ex \<Rightarrow> Some (Inl ex, Os)
        | Inr lay \<Rightarrow>
            (case prepare_task load args (ol_total_output_size lay) 0 Os of
               None \<Rightarrow> None
             | Some (Inl ex, Os1) \<Rightarrow> Some (Inl ex, Os1)
             | Some (Inr None, Os1) \<Rightarrow> Some (Inr no_outputs, Os1)
             | Some (Inr (Some pt), Os1) \<Rightarrow> Some (finish_alloc pt args lay Os1)))"

definition mark_done :: "PTO2OrchestratorState \<Rightarrow> PTO2OrchestratorState" where
  "mark_done Os = (set_header ((or_header Os)\<lparr>sh_orchestrator_done := True\<rparr>) Os)
     \<lparr>or_scope_tasks := [], or_scope_begins := [], or_manual_begin_depth := PTO2_MAX_SCOPE_DEPTH\<rparr>"

subsection \<open>Initialisation\<close>

text \<open>
  \<open>alloc i\<close> says whether the \<open>i\<close>-th allocation succeeds: four spill pools, then the scope buffers; \<open>tm_alloc\<close> is the one of
  the tensor map. The scheduler is attached afterwards by \<open>set_scheduler\<close>; the model takes it with the header and gives it the
  pools.
\<close>

definition orchestrator_init ::
  "(nat \<Rightarrow> bool) \<Rightarrow> (nat \<Rightarrow> bool) \<Rightarrow> PTO2SchedulerState \<Rightarrow> u64 \<Rightarrow> u64 \<Rightarrow> bytes \<Rightarrow> nat \<Rightarrow> PTO2OrchestratorState option" where
  "orchestrator_init alloc tm_alloc S gm_heap heap_size heap dep_pool_capacity =
     (let H = sc_header S in do {
        pools \<leftarrow> those (map (\<lambda>r. if alloc r then (case fanin_pool_init (replicate dep_pool_capacity None) of Inl _ \<Rightarrow> None | Inr P \<Rightarrow> Some P)
                                   else None) [0 ..< PTO2_MAX_RING_DEPTH]);
        M \<leftarrow> tensormap_init_default tm_alloc (map rh_window (sh_rings H));
        if \<not> (alloc 4 \<and> alloc 5) then None
        else Some \<lparr>or_sched = S\<lparr>sc_fanin_pools := pools\<rparr>,
                   or_allocators = map (\<lambda>r. allocator_init (sh_rings H ! r) (gm_heap + of_nat r * heap_size) heap_size)
                     [0 ..< PTO2_MAX_RING_DEPTH],
                   or_tensor_map = M, or_scope_tasks = [], or_scope_begins = [],
                   or_manual_begin_depth = PTO2_MAX_SCOPE_DEPTH, or_heap_base = gm_heap, or_heap = heap,
                   or_fatal = False, or_inline_completed = 0, or_tasks_submitted = 0,
                   or_total_cluster_count = 0, or_total_aiv_count = 0\<rparr>
      })"

end
