(* ===== verification/L2SyncSkip.thy ===== *)
theory L2SyncSkip
  imports L2DepsRuns L2Orch
begin

text \<open>
  Submissions that skip the synchronisation of the tensor map. The hidden task of \<open>alloc_tensors\<close> takes an id of its ring
  but does not synchronise; when that id is the one whose slot wraps around to the last cleanup, two tasks one window
  apart share a task chain.
\<close>

subsection \<open>The hidden task leaves the map as it is\<close>

lemma fatal_keeps_map [simp]: "or_tensor_map (orch_mark_fatal code Os) = or_tensor_map Os"
  by (simp add: orch_mark_fatal_def set_header_def Let_def)

lemma scope_check_keeps_map: "check_scope_can_accept_task r Os = (x, Os') \<Longrightarrow> or_tensor_map Os' = or_tensor_map Os"
  by (auto simp: check_scope_can_accept_task_def Let_def split: if_splits)

lemma scope_push_keeps_map [simp]: "or_tensor_map (scope_tasks_push p Os) = or_tensor_map Os"
  by (simp add: scope_tasks_push_def Let_def)

lemma header_keeps_map [simp]: "or_tensor_map (set_header H Os) = or_tensor_map Os"
  by (simp add: set_header_def)

lemma prepare_keeps_map: "prepare_task load args n m Os = Some (x, Os') \<Longrightarrow> or_tensor_map Os' = or_tensor_map Os"
  by (auto simp: prepare_task_def Let_def dest!: scope_check_keeps_map split: prod.splits sum.splits bool.splits option.splits if_splits)

lemma alloc_tensors_keeps_map: "alloc_tensors load args Os = Some (x, Os') \<Longrightarrow> or_tensor_map Os' = or_tensor_map Os"
  by (auto simp: alloc_tensors_def finish_alloc_def Let_def dest!: prepare_keeps_map
      split: if_splits prod.splits sum.splits option.splits)

subsection \<open>A lost dependency\<close>

fun submit_all :: "bool \<Rightarrow> submission list \<Rightarrow> PTO2TensorMap \<Rightarrow> (PTO2TaskId list list \<times> PTO2TensorMap) option" where
  "submit_all dbg [] M = Some ([], M)"
| "submit_all dbg (s # ss) M =
     (case submit_deps dbg s M of
        Some (Inr ps, M') \<Rightarrow> map_option (apfst ((#) ps)) (submit_all dbg ss M')
      | _ \<Rightarrow> None)"

definition plain_task :: "int \<Rightarrow> int \<Rightarrow> submission" where
  "plain_task L la = \<lparr>sb_ring = 0, sb_local = L, sb_last_alive = la, sb_args = [], sb_manual = False\<rparr>"

definition old_write :: submission where
  "old_write = demo_write\<lparr>sb_local := 1\<rparr>"

definition new_write :: submission where
  "new_write = \<lparr>sb_ring = 0, sb_local = 3, sb_last_alive = 2, sb_args = [(OUTPUT_EXISTING, Some demo_right)], sb_manual = False\<rparr>"

definition new_read :: submission where
  "new_read = \<lparr>sb_ring = 0, sb_local = 4, sb_last_alive = 3, sb_args = [(INPUT, Some demo_right)], sb_manual = False\<rparr>"

declare lookup_walk.simps [code] free_task_chain.simps [code]


end
