(* ===== verification/L2Replay.thy ===== *)
theory L2Replay
  imports L2Deps
begin

text \<open>
  The dependency replay of the host (\<open>host/dep_gen_replay.cpp\<close>): it runs the captured submissions of the device
  orchestrator again, once through \<open>compute_task_fanin\<close> (the oracle pass) and once through a copy of it that records
  what it matched (the annotated pass), compares the producers of the two, and prints tasks, tensors and edges. A
  captured blob is the tensor it holds. The output file is a string; whether it can be opened and written are parameters.
  The logging calls are left out.
\<close>

unbundle bit_operations_syntax

subsection \<open>Captured submissions\<close>

definition DEP_GEN_MAX_EXPLICIT_DEPS :: nat where
  "DEP_GEN_MAX_EXPLICIT_DEPS = 16"

definition CORE_MAX_TENSOR_ARGS :: nat where
  "CORE_MAX_TENSOR_ARGS = 16"

record DepGenRecord =
  dg_task_id :: u64
  dg_flags :: u32
  dg_tensor_count :: nat
  dg_explicit_dep_count :: nat
  dg_explicit_deps :: "u64 list"
  dg_arg_types :: "TensorArgType list"
  dg_tensors :: "Tensor list"

definition in_manual :: "DepGenRecord \<Rightarrow> bool" where
  "in_manual rec \<longleftrightarrow> dg_flags rec AND 1 \<noteq> 0"

subsection \<open>Sizing\<close>

text \<open>\<open>v |= v >> k\<close> for a non-negative \<open>v\<close>.\<close>

definition smear :: "nat \<Rightarrow> nat \<Rightarrow> nat" where
  "smear k v = v OR drop_bit k v"

text \<open>The result is a signed 32-bit integer: above \<open>2 ^ 30\<close> the last addition overflows.\<close>

definition ceil_pow2 :: "int \<Rightarrow> exn + nat" where
  "ceil_pow2 v =
     (if v \<le> 1 then Inr 1
      else let w = smear 16 (smear 8 (smear 4 (smear 2 (smear 1 (nat (v - 1))))))
           in if w + 1 < 2 ^ 31 then Inr (w + 1) else Inl UndefinedBehaviour)"

definition is_output :: "TensorArgType \<Rightarrow> bool" where
  "is_output ty \<longleftrightarrow> ty = INOUT \<or> ty = OUTPUT_EXISTING"

text \<open>The count of arguments is not clamped here: it may run past the array.\<close>

fun count_outputs :: "DepGenRecord list \<Rightarrow> exn + nat" where
  "count_outputs [] = Inr 0"
| "count_outputs (r # rs) =
     (if dg_tensor_count r > length (dg_arg_types r) then Inl UndefinedBehaviour
      else map_sum id (\<lambda>n. length (filter is_output (take (dg_tensor_count r) (dg_arg_types r))) + n) (count_outputs rs))"

fun max_local :: "nat \<Rightarrow> DepGenRecord list \<Rightarrow> u32 \<Rightarrow> u32" where
  "max_local ring [] m = m"
| "max_local ring (r # rs) m =
     (let tid = \<lparr>raw = dg_task_id r\<rparr>
      in max_local ring rs (if unat (tid_ring tid) = ring \<and> tid_local tid > m then tid_local tid else m))"

definition window_of :: "DepGenRecord list \<Rightarrow> nat \<Rightarrow> exn + nat" where
  "window_of records r =
     (let need = sint (max_local r records 0 + 1) in ceil_pow2 (if need < 16 then 16 else need))"

fun window_sizes :: "DepGenRecord list \<Rightarrow> nat list \<Rightarrow> exn + nat list" where
  "window_sizes records [] = Inr []"
| "window_sizes records (r # rs) =
     (case window_of records r of
        Inl ex \<Rightarrow> Inl ex
      | Inr w \<Rightarrow> map_sum id ((#) w) (window_sizes records rs))"

text \<open>The pool is sized in 32-bit signed arithmetic.\<close>

definition pool_size_for :: "nat \<Rightarrow> exn + nat" where
  "pool_size_for output_count =
     (let n = output_count + output_count div 10 + 64
      in if n < 2 ^ 31 then Inr (max n PTO2_TENSORMAP_POOL_SIZE) else Inl UndefinedBehaviour)"

subsection \<open>The tables\<close>

datatype EdgeSource = EXPLICIT | CREATOR | TENSORMAP

fun edge_source_str :: "EdgeSource \<Rightarrow> string" where
  "edge_source_str EXPLICIT = ''explicit''"
| "edge_source_str CREATOR = ''creator''"
| "edge_source_str TENSORMAP = ''tensormap''"

fun overlap_status_str :: "OverlapStatus \<Rightarrow> string" where
  "overlap_status_str COVERED = ''covered''"
| "overlap_status_str OTHER = ''other''"
| "overlap_status_str NO_OVERLAP = ''no_overlap''"

fun arg_type_str :: "TensorArgType \<Rightarrow> string" where
  "arg_type_str INPUT = ''INPUT''"
| "arg_type_str OUTPUT = ''OUTPUT''"
| "arg_type_str INOUT = ''INOUT''"
| "arg_type_str OUTPUT_EXISTING = ''OUTPUT_EXISTING''"
| "arg_type_str _ = ''UNKNOWN''"

text \<open>Shapes and strides are the filled prefix of the fixed arrays, so the dimension is their length.\<close>

record EdgeAnnot =
  ea_pred :: u64
  ea_succ :: u64
  ea_consumer_arg_idx :: int
  ea_source :: EdgeSource
  ea_overlap :: OverlapStatus
  ea_tensor_id :: u64
  ea_consumer_dtype :: u8
  ea_consumer_shape :: "u32 list"
  ea_consumer_start_offset :: u64
  ea_consumer_strides :: "u32 list"
  ea_producer_shape :: "u32 list"
  ea_producer_start_offset :: u64
  ea_producer_strides :: "u32 list"

record TensorTableEntry =
  tt_tensor_id :: u64
  tt_buffer_addr :: u64
  tt_buffer_numel :: u64
  tt_version :: int
  tt_dtype :: u8

record TaskArgEntry =
  tg_idx :: nat
  tg_arg_type :: TensorArgType
  tg_has_tensor_info :: bool
  tg_tensor_id :: u64
  tg_dtype :: u8
  tg_shape :: "u32 list"
  tg_start_offset :: u64
  tg_strides :: "u32 list"

record TaskTableEntry =
  tk_task_id :: u64
  tk_in_manual_scope :: bool
  tk_args :: "TaskArgEntry list"

text \<open>The FNV-1a hash of the bytes of the address and of the version.\<close>

definition make_tensor_id :: "u64 \<Rightarrow> int \<Rightarrow> u64" where
  "make_tensor_id buffer_addr version =
     fold (\<lambda>b h. (h XOR ucast b) * 0x100000001b3) (put64 buffer_addr @ put32 (i32 version)) 0xcbf29ce484222325"

text \<open>The table, with the index of every id in it.\<close>

type_synonym tensor_table = "(u64 \<rightharpoonup> nat) \<times> TensorTableEntry list"

definition register_tensor :: "Tensor \<Rightarrow> tensor_table \<Rightarrow> exn + tensor_table" where
  "register_tensor t T =
     (case T of (index_by_id, table) \<Rightarrow>
        let tid = make_tensor_id (buf_addr (tn_buffer t)) (tn_version t)
        in if index_by_id tid \<noteq> None then Inr T
           else (case get_element_size (tn_dtype t) of
                   Inl ex \<Rightarrow> Inl ex
                 | Inr elem_size \<Rightarrow>
                     Inr (index_by_id(tid \<mapsto> length table),
                          table @ [\<lparr>tt_tensor_id = tid, tt_buffer_addr = buf_addr (tn_buffer t),
                            tt_buffer_numel = (if elem_size = 0 then 0 else buf_size (tn_buffer t) div elem_size),
                            tt_version = tn_version t, tt_dtype = tn_dtype t\<rparr>])))"

text \<open>A value-initialised edge from \<open>pred\<close> to \<open>succ\<close>.\<close>

definition new_edge :: "u64 \<Rightarrow> u64 \<Rightarrow> int \<Rightarrow> EdgeSource \<Rightarrow> u64 \<Rightarrow> EdgeAnnot" where
  "new_edge pred succ arg_idx source tensor_id =
     \<lparr>ea_pred = pred, ea_succ = succ, ea_consumer_arg_idx = arg_idx, ea_source = source, ea_overlap = NO_OVERLAP,
      ea_tensor_id = tensor_id, ea_consumer_dtype = 0, ea_consumer_shape = [], ea_consumer_start_offset = 0,
      ea_consumer_strides = [], ea_producer_shape = [], ea_producer_start_offset = 0, ea_producer_strides = []\<rparr>"

definition fill_consumer :: "Tensor \<Rightarrow> EdgeAnnot \<Rightarrow> EdgeAnnot" where
  "fill_consumer t e = e\<lparr>ea_consumer_dtype := tn_dtype t, ea_consumer_start_offset := tn_start_offset t,
     ea_consumer_shape := take RUNTIME_MAX_TENSOR_DIMS (tn_shapes t),
     ea_consumer_strides := take RUNTIME_MAX_TENSOR_DIMS (tn_strides t)\<rparr>"

definition fill_producer :: "PTO2TensorMapEntry \<Rightarrow> EdgeAnnot \<Rightarrow> EdgeAnnot" where
  "fill_producer entry e = e\<lparr>ea_producer_start_offset := te_start_offset entry,
     ea_producer_shape := take RUNTIME_MAX_TENSOR_DIMS (te_shapes entry),
     ea_producer_strides := take RUNTIME_MAX_TENSOR_DIMS (te_strides entry)\<rparr>"

subsection \<open>The JSON file\<close>

text \<open>\<open><<\<close> of an unsigned word, and a list of pieces separated by commas.\<close>

definition show_word :: "'a::len word \<Rightarrow> string" where
  "show_word w = nat_to_string (unat w)"

definition quoted :: "string \<Rightarrow> string" where
  "quoted s = CHR 0x22 # s @ [CHR 0x22]"

definition field :: "string \<Rightarrow> string \<Rightarrow> string" where
  "field name val = quoted name @ '':'' @ val"

fun comma_sep :: "string list \<Rightarrow> string" where
  "comma_sep [] = []"
| "comma_sep [x] = x"
| "comma_sep (x # xs) = x @ '','' @ comma_sep xs"

definition write_uint_array :: "u32 list \<Rightarrow> string" where
  "write_uint_array ds = ''['' @ comma_sep (map show_word ds) @ '']''"

definition write_task_arg :: "TaskArgEntry \<Rightarrow> string" where
  "write_task_arg arg =
     ''{'' @ comma_sep ([field ''idx'' (nat_to_string (tg_idx arg)), field ''type'' (quoted (arg_type_str (tg_arg_type arg)))]
       @ (if tg_has_tensor_info arg
          then [field ''tensor_id'' (quoted (show_word (tg_tensor_id arg))), field ''dtype'' (quoted (get_dtype_name (tg_dtype arg))),
                field ''shape'' (write_uint_array (tg_shape arg)), field ''start_offset'' (quoted (show_word (tg_start_offset arg))),
                field ''strides'' (write_uint_array (tg_strides arg))]
          else [])) @ ''}''"

definition write_task :: "TaskTableEntry \<Rightarrow> string" where
  "write_task t =
     ''{'' @ comma_sep [field ''task_id'' (quoted (show_word (tk_task_id t))),
       field ''scope'' (quoted (if tk_in_manual_scope t then ''manual'' else ''auto'')),
       field ''args'' (''['' @ comma_sep (map write_task_arg (tk_args t)) @ '']'')] @ ''}''"

definition write_tensor :: "TensorTableEntry \<Rightarrow> string" where
  "write_tensor t =
     ''{'' @ comma_sep [field ''tensor_id'' (quoted (show_word (tt_tensor_id t))),
       field ''buffer_addr'' (quoted (show_word (tt_buffer_addr t))), field ''version'' (int_to_string (tt_version t)),
       field ''dtype'' (quoted (get_dtype_name (tt_dtype t))),
       field ''buffer_numel'' (quoted (show_word (tt_buffer_numel t)))] @ ''}''"

definition write_edge :: "EdgeAnnot \<Rightarrow> string" where
  "write_edge e =
     ''{'' @ comma_sep ([field ''pred'' (quoted (show_word (ea_pred e))), field ''succ'' (quoted (show_word (ea_succ e))),
         field ''arg'' (int_to_string (ea_consumer_arg_idx e)), field ''source'' (quoted (edge_source_str (ea_source e)))]
       @ (if ea_source e = TENSORMAP then [field ''overlap'' (quoted (overlap_status_str (ea_overlap e)))] else [])
       @ (if ea_source e \<noteq> EXPLICIT
          then [field ''tensor_id'' (quoted (show_word (ea_tensor_id e))),
                field ''consumer_dtype'' (quoted (get_dtype_name (ea_consumer_dtype e))),
                field ''consumer_shape'' (write_uint_array (ea_consumer_shape e)),
                field ''consumer_start_offset'' (quoted (show_word (ea_consumer_start_offset e))),
                field ''consumer_strides'' (write_uint_array (ea_consumer_strides e))]
          else [])
       @ (if ea_source e = TENSORMAP
          then [field ''producer_shape'' (write_uint_array (ea_producer_shape e)),
                field ''producer_start_offset'' (quoted (show_word (ea_producer_start_offset e))),
                field ''producer_strides'' (write_uint_array (ea_producer_strides e))]
          else [])) @ ''}''"

definition write_deps_json_v2 :: "TaskTableEntry list \<Rightarrow> TensorTableEntry list \<Rightarrow> EdgeAnnot list \<Rightarrow> string" where
  "write_deps_json_v2 tasks tensors edges =
     ''{'' @ comma_sep [field ''version'' ''3'',
       field ''tasks'' (''['' @ comma_sep (map write_task tasks) @ '']''),
       field ''tensors'' (''['' @ comma_sep (map write_tensor tensors) @ '']''),
       field ''edges'' (''['' @ comma_sep (map write_edge edges) @ '']'')] @ ''}'' @ [CHR 0x0A]"

subsection \<open>The annotated pass\<close>

text \<open>What the callbacks of the annotated pass capture: the producers seen for this record and the edges so far.\<close>

type_synonym annot = "u64 set \<times> EdgeAnnot list"

definition emit_creator :: "u64 \<Rightarrow> PTO2TaskId \<Rightarrow> nat \<Rightarrow> Tensor \<Rightarrow> annot \<Rightarrow> annot" where
  "emit_creator succ producer arg_idx consumer A =
     (case A of (preds, edges) \<Rightarrow>
        if raw producer \<in> preds then A
        else (insert (raw producer) preds,
              edges @ [fill_consumer consumer (new_edge (raw producer) succ (int arg_idx) CREATOR
                (make_tensor_id (buf_addr (tn_buffer consumer)) (tn_version consumer)))]))"

definition emit_tensormap :: "u64 \<Rightarrow> PTO2TaskId \<Rightarrow> nat \<Rightarrow> Tensor \<Rightarrow> PTO2TensorMapEntry \<Rightarrow> OverlapStatus \<Rightarrow> annot \<Rightarrow> annot" where
  "emit_tensormap succ producer arg_idx consumer entry status A =
     (case A of (preds, edges) \<Rightarrow>
        (insert (raw producer) preds,
         edges @ [fill_producer entry (fill_consumer consumer ((new_edge (raw producer) succ (int arg_idx) TENSORMAP
           (make_tensor_id (te_buffer_addr entry) (te_version entry)))\<lparr>ea_overlap := status\<rparr>))]))"

definition annot_match ::
  "u64 \<Rightarrow> TensorArgType \<Rightarrow> nat \<Rightarrow> Tensor \<Rightarrow> nat \<Rightarrow> OverlapStatus \<Rightarrow> PTO2TensorMap \<times> annot \<Rightarrow> (PTO2TensorMap \<times> annot, bool) outcome" where
  "annot_match succ ptype arg_idx t i st MA =
     (case MA of (M, A) \<Rightarrow>
        let entry = tm_pool M ! i; A' = emit_tensormap succ (te_producer entry) arg_idx t entry st A
        in if ptype = INOUT \<and> st = COVERED
           then (case remove_entry i M of
                   (Inl ex, M') \<Rightarrow> (Inl ex, (M', A'))
                 | (Inr _, M') \<Rightarrow> (Inr True, (M', A')))
           else (Inr True, (M, A')))"

definition annot_arg :: "bool \<Rightarrow> u64 \<Rightarrow> nat \<times> dep_arg \<Rightarrow> PTO2TensorMap \<times> annot \<Rightarrow> (PTO2TensorMap \<times> annot, unit) outcome option" where
  "annot_arg dbg succ arg MA =
     (case (arg, MA) of ((i, (ptype, tensor)), (M, A)) \<Rightarrow>
        if ptype = OUTPUT then Some (Inr (), MA)
        else case tensor of
            None \<Rightarrow> Some (Inl UndefinedBehaviour, MA)
          | Some t \<Rightarrow>
              let A1 = (if tid_is_valid (tn_owner t) then emit_creator succ (tn_owner t) i t A else A)
              in if ptype \<noteq> INPUT \<and> ptype \<noteq> INOUT then Some (Inr (), (M, A1))
                 else if tn_manual_dep t then Some (Inr (), (M, A1))
                 else tensormap_lookup dbg t (annot_match succ ptype i t) (M, A1))"

fun annot_args :: "bool \<Rightarrow> u64 \<Rightarrow> (nat \<times> dep_arg) list \<Rightarrow> PTO2TensorMap \<times> annot \<Rightarrow> (PTO2TensorMap \<times> annot, unit) outcome option" where
  "annot_args dbg succ [] MA = Some (Inr (), MA)"
| "annot_args dbg succ (a # as) MA =
     (case annot_arg dbg succ a MA of
        Some (Inr _, MA') \<Rightarrow> annot_args dbg succ as MA'
      | r \<Rightarrow> r)"

definition annot_pass :: "bool \<Rightarrow> u64 \<Rightarrow> dep_arg list \<Rightarrow> bool \<Rightarrow> PTO2TensorMap \<times> annot \<Rightarrow> (PTO2TensorMap \<times> annot, unit) outcome option" where
  "annot_pass dbg succ inputs in_manual_scope MA =
     (if in_manual_scope then Some (Inr (), MA) else annot_args dbg succ (enumerate 0 inputs) MA)"

subsection \<open>One record\<close>

definition oracle_emit :: "u64 set emit" where
  "oracle_emit producer preds = (insert (raw producer) preds, True)"

definition record_inputs :: "DepGenRecord \<Rightarrow> exn + dep_arg list" where
  "record_inputs rec =
     (let tc = min (dg_tensor_count rec) CORE_MAX_TENSOR_ARGS
      in if tc > length (dg_arg_types rec) \<or> tc > length (dg_tensors rec) then Inl UndefinedBehaviour
         else Inr (zip (take tc (dg_arg_types rec)) (map Some (take tc (dg_tensors rec)))))"

fun task_args_entries :: "(nat \<times> dep_arg) list \<Rightarrow> tensor_table \<Rightarrow> exn + TaskArgEntry list \<times> tensor_table" where
  "task_args_entries [] T = Inr ([], T)"
| "task_args_entries ((i, (ty, tensor)) # as) T =
     (let slot = \<lparr>tg_idx = i, tg_arg_type = ty, tg_has_tensor_info = False, tg_tensor_id = 0, tg_dtype = 0, tg_shape = [],
                  tg_start_offset = 0, tg_strides = []\<rparr>
      in if ty = OUTPUT then map_sum id (apfst ((#) slot)) (task_args_entries as T)
         else case tensor of
             None \<Rightarrow> Inl UndefinedBehaviour
           | Some t \<Rightarrow>
               (case register_tensor t T of
                  Inl ex \<Rightarrow> Inl ex
                | Inr T' \<Rightarrow>
                    map_sum id (apfst ((#) (slot\<lparr>tg_has_tensor_info := True,
                      tg_tensor_id := make_tensor_id (buf_addr (tn_buffer t)) (tn_version t), tg_dtype := tn_dtype t,
                      tg_start_offset := tn_start_offset t, tg_shape := take RUNTIME_MAX_TENSOR_DIMS (tn_shapes t),
                      tg_strides := take RUNTIME_MAX_TENSOR_DIMS (tn_strides t)\<rparr>))) (task_args_entries as T')))"

text \<open>Both passes see the explicit dependencies first.\<close>

fun explicit_edges :: "u64 \<Rightarrow> u64 list \<Rightarrow> u64 set \<times> annot \<Rightarrow> u64 set \<times> annot" where
  "explicit_edges succ [] S = S"
| "explicit_edges succ (p # ps) (oracle_preds, (annot_preds, edges)) =
     explicit_edges succ ps (insert p oracle_preds,
       (if p \<in> annot_preds then (annot_preds, edges)
        else (insert p annot_preds, edges @ [new_edge p succ (- 1) EXPLICIT 0])))"

record replay_state =
  rs_oracle :: PTO2TensorMap
  rs_annot :: PTO2TensorMap
  rs_tasks :: "TaskTableEntry list"
  rs_tensors :: tensor_table
  rs_edges :: "EdgeAnnot list"

text \<open>A record is replayed to the next state or ends the replay with an error code.\<close>

definition replay_record :: "bool \<Rightarrow> DepGenRecord \<Rightarrow> replay_state \<Rightarrow> (exn + (int + replay_state)) option" where
  "replay_record dbg rec rs =
     (case record_inputs rec of
        Inl ex \<Rightarrow> Some (Inl ex)
      | Inr inputs \<Rightarrow>
          let dc = min (dg_explicit_dep_count rec) DEP_GEN_MAX_EXPLICIT_DEPS; succ = dg_task_id rec
          in if dc > length (dg_explicit_deps rec) then Some (Inl UndefinedBehaviour)
             else (case task_args_entries (enumerate 0 inputs) (rs_tensors rs) of
                     Inl ex \<Rightarrow> Some (Inl ex)
                   | Inr (entries, T) \<Rightarrow>
                       (case explicit_edges succ (take dc (dg_explicit_deps rec)) ({}, ({}, rs_edges rs)) of
                          (oracle1, A1) \<Rightarrow>
                            (case compute_task_fanin dbg inputs (in_manual rec) oracle_emit (rs_oracle rs, oracle1) of
                               None \<Rightarrow> None
                             | Some (Inl ex, _) \<Rightarrow> Some (Inl ex)
                             | Some (Inr False, _) \<Rightarrow> Some (Inr (Inl (- 4)))
                             | Some (Inr True, (Mo, oracle_preds)) \<Rightarrow>
                                 (case annot_pass dbg succ inputs (in_manual rec) (rs_annot rs, A1) of
                                    None \<Rightarrow> None
                                  | Some (Inl ex, _) \<Rightarrow> Some (Inl ex)
                                  | Some (Inr _, (Ma, (annot_preds, edges))) \<Rightarrow>
                                      if oracle_preds \<noteq> annot_preds then Some (Inr (Inl (- 6)))
                                      else (case register_task_outputs dbg inputs \<lparr>raw = succ\<rparr> (in_manual rec) Mo of
                                              (Inl ex, _) \<Rightarrow> Some (Inl ex)
                                            | (Inr _, Mo') \<Rightarrow>
                                                (case register_task_outputs dbg inputs \<lparr>raw = succ\<rparr> (in_manual rec) Ma of
                                                   (Inl ex, _) \<Rightarrow> Some (Inl ex)
                                                 | (Inr _, Ma') \<Rightarrow>
                                                     Some (Inr (Inr \<lparr>rs_oracle = Mo', rs_annot = Ma',
                                                       rs_tasks = rs_tasks rs @ [\<lparr>tk_task_id = succ,
                                                         tk_in_manual_scope = in_manual rec, tk_args = entries\<rparr>],
                                                       rs_tensors = T, rs_edges = edges\<rparr>)))))))))"

fun replay_records :: "bool \<Rightarrow> DepGenRecord list \<Rightarrow> replay_state \<Rightarrow> (exn + (int + replay_state)) option" where
  "replay_records dbg [] rs = Some (Inr (Inr rs))"
| "replay_records dbg (r # rest) rs =
     (case replay_record dbg r rs of
        Some (Inr (Inr rs')) \<Rightarrow> replay_records dbg rest rs'
      | x \<Rightarrow> x)"

subsection \<open>The replay\<close>

text \<open>The windows of the rings and the size of the entry pool, sized from the records.\<close>

definition replay_sizes :: "DepGenRecord list \<Rightarrow> exn + nat list \<times> nat" where
  "replay_sizes recs =
     (case window_sizes recs [0 ..< PTO2_MAX_RING_DEPTH] of
        Inl ex \<Rightarrow> Inl ex
      | Inr ws \<Rightarrow>
          (case count_outputs recs of
             Inl ex \<Rightarrow> Inl ex
           | Inr n \<Rightarrow> map_sum id (Pair ws) (pool_size_for n)))"

text \<open>
  The path and the record array are options, null when absent. \<open>alloc_o\<close> and \<open>alloc_a\<close> say which allocations of the two tensor
  maps succeed; \<open>open_ok\<close> and \<open>write_ok\<close> whether the file opens and the final state of the stream is good. The result is the
  return code and the contents of the file when it was opened.
\<close>

definition dep_gen_replay_emit_deps_json ::
  "bool \<Rightarrow> (nat \<Rightarrow> bool) \<Rightarrow> (nat \<Rightarrow> bool) \<Rightarrow> bool \<Rightarrow> bool \<Rightarrow> DepGenRecord list option \<Rightarrow> nat \<Rightarrow> string option
    \<Rightarrow> (exn + int \<times> string option) option" where
  "dep_gen_replay_emit_deps_json dbg alloc_o alloc_a open_ok write_ok records num_records path =
     (if path = None \<or> num_records > 0 \<and> records = None then Some (Inr (- 1, None))
      else let recs = take num_records (case records of None \<Rightarrow> [] | Some rs \<Rightarrow> rs)
           in if length recs < num_records then Some (Inl UndefinedBehaviour)
              else (case replay_sizes recs of
                      Inl ex \<Rightarrow> Some (Inl ex)
                    | Inr (ws, psize) \<Rightarrow>
                        (case (tensormap_init alloc_o PTO2_TENSORMAP_NUM_BUCKETS psize ws,
                               tensormap_init alloc_a PTO2_TENSORMAP_NUM_BUCKETS psize ws) of
                           (Some Mo, Some Ma) \<Rightarrow>
                             (case replay_records dbg recs \<lparr>rs_oracle = Mo, rs_annot = Ma, rs_tasks = [],
                                     rs_tensors = (Map.empty, []), rs_edges = []\<rparr> of
                                None \<Rightarrow> None
                              | Some (Inl ex) \<Rightarrow> Some (Inl ex)
                              | Some (Inr (Inl code)) \<Rightarrow> Some (Inr (code, None))
                              | Some (Inr (Inr rs)) \<Rightarrow>
                                  if \<not> open_ok then Some (Inr (- 5, None))
                                  else let out = write_deps_json_v2 (rs_tasks rs) (snd (rs_tensors rs)) (rs_edges rs)
                                       in Some (Inr (if write_ok then 0 else - 5, Some out)))
                         | _ \<Rightarrow> Some (Inr (- 3, None)))))"

end
