(* ===== verification/L2ReplayAgree.thy ===== *)
theory L2ReplayAgree
  imports L2Replay
begin

text \<open>
  The two passes of the replay agree: the annotated pass finds the producers the oracle pass finds and leaves the same
  tensor map, whatever the records hold, so the comparison of the replay never fails.
\<close>

subsection \<open>Walks with related callbacks\<close>

text \<open>Callbacks that act alike on the map and keep their own states related make the walks act alike.\<close>

definition alike :: "('c \<Rightarrow> 'd \<Rightarrow> bool) \<Rightarrow> (PTO2TensorMap \<times> 'c, 'a) outcome \<Rightarrow> (PTO2TensorMap \<times> 'd, 'a) outcome \<Rightarrow> bool" where
  "alike R x y \<longleftrightarrow> fst x = fst y \<and> fst (snd x) = fst (snd y) \<and> R (snd (snd x)) (snd (snd y))"

definition walks_alike ::
  "('c \<Rightarrow> 'd \<Rightarrow> bool) \<Rightarrow> (nat \<Rightarrow> OverlapStatus \<Rightarrow> PTO2TensorMap \<times> 'd \<Rightarrow> (PTO2TensorMap \<times> 'd, bool) outcome)
    \<Rightarrow> bool \<Rightarrow> Tensor \<Rightarrow> nat option \<Rightarrow> PTO2TensorMap \<times> 'c \<Rightarrow> (PTO2TensorMap \<times> 'c, unit) outcome \<Rightarrow> bool" where
  "walks_alike R g dbg t cur Mc x \<longleftrightarrow>
     (\<forall>d. R (snd Mc) d \<longrightarrow> (\<exists>y. lookup_walk dbg t g cur (fst Mc, d) = Some y \<and> alike R x y))"

lemma walks_alike_match:
  assumes cb: "alike R (f i st (M, c)) (g i st (M, d))"
    and x: "(case f i st (M, c) of (Inl ex, Mc') \<Rightarrow> Some (Inl ex, Mc')
          | (Inr go_on, Mc') \<Rightarrow> if go_on then lw Mc' else Some (Inr (), Mc')) = Some x"
    and IH: "\<And>Mc y. lw Mc = Some y \<Longrightarrow> walks_alike R g dbg t nxt Mc y"
  shows "\<exists>y. (case g i st (M, d) of (Inl ex, Mc') \<Rightarrow> Some (Inl ex, Mc')
          | (Inr go_on, Mc') \<Rightarrow> if go_on then lookup_walk dbg t g nxt Mc' else Some (Inr (), Mc')) = Some y \<and> alike R x y"
proof -
  obtain r M' c' where f: "f i st (M, c) = (r, (M', c'))"
    by (cases "f i st (M, c)") auto
  then obtain d' where g: "g i st (M, d) = (r, (M', d'))" and R: "R c' d'"
    using cb by (cases "g i st (M, d)") (auto simp: alike_def)
  show ?thesis
  proof (cases r)
    case (Inl ex)
    then show ?thesis
      using x R by (auto simp: f g alike_def)
  next
    case (Inr go_on)
    then show ?thesis
      using x R IH [of "(M', c')" x] by (cases go_on) (auto simp: f g alike_def walks_alike_def)
  qed
qed

lemma lookup_walk_alike:
  assumes cb: "\<And>i st M c d. R c d \<Longrightarrow> alike R (f i st (M, c)) (g i st (M, d))"
    and x: "lookup_walk dbg t f cur Mc = Some x"
  shows "walks_alike R g dbg t cur Mc x"
proof -
  have "f' = f \<longrightarrow> walks_alike R g dbg t cur Mc x" if "lookup_walk dbg t f' cur Mc = Some x" for f'
    using that
  proof (rule lookup_walk.raw_induct [where P = "\<lambda>dbg t f' cur Mc x. f' = f \<longrightarrow> walks_alike R g dbg t cur Mc x", rotated])
    fix lw dbg t f' cur Mc x
    assume IH: "\<And>dbg t f' cur Mc x. lw dbg t f' cur Mc = Some x \<Longrightarrow> f' = f \<longrightarrow> walks_alike R g dbg t cur Mc x"
      and body: "(case cur of None \<Rightarrow> Some (Inr (), Mc)
        | Some i \<Rightarrow> let e = tm_pool (fst Mc) ! i; next_entry = te_next_in_bucket e
          in if \<not> entry_valid e (fst Mc) then lw dbg t f' next_entry Mc
             else if buf_addr (tn_buffer t) \<noteq> te_buffer_addr e then lw dbg t f' next_entry Mc
             else (case check_overlap dbg t e of
                     Inl ex \<Rightarrow> Some (Inl ex, Mc)
                   | Inr NO_OVERLAP \<Rightarrow> lw dbg t f' next_entry Mc
                   | Inr st \<Rightarrow>
                       (case f' i st Mc of
                          (Inl ex, Mc') \<Rightarrow> Some (Inl ex, Mc')
                        | (Inr go_on, Mc') \<Rightarrow> if go_on then lw dbg t f' next_entry Mc' else Some (Inr (), Mc')))) = Some x"
    show "f' = f \<longrightarrow> walks_alike R g dbg t cur Mc x"
    proof (intro impI, unfold walks_alike_def, intro allI impI)
      fix d
      assume f': "f' = f" and "R (snd Mc) d"
      then obtain M c where Mc: "Mc = (M, c)" and R: "R c d"
        by (cases Mc) auto
      have [simp]: "fst Mc = M"
        by (simp add: Mc)
      note body = body [unfolded f' Mc] and step = lookup_walk.simps [of dbg t g cur "(M, d)"] and cb' = cb [OF R]
      show "\<exists>y. lookup_walk dbg t g cur (fst Mc, d) = Some y \<and> alike R x y"
      proof (cases cur)
        case None
        then show ?thesis
          using body R step by (auto simp: alike_def)
      next
        case (Some i)
        let ?e = "tm_pool M ! i"
        have IH': "lw dbg t f (te_next_in_bucket ?e) Mc = Some y \<Longrightarrow> walks_alike R g dbg t (te_next_in_bucket ?e) Mc y" for Mc y
          using IH by blast
        show ?thesis
        proof (cases "entry_valid ?e M \<and> buf_addr (tn_buffer t) = te_buffer_addr ?e \<and> check_overlap dbg t ?e \<noteq> Inr NO_OVERLAP")
          case False
          then have "lw dbg t f (te_next_in_bucket ?e) (M, c) = Some x"
            using body Some by (auto simp: Let_def split: if_splits)
          then show ?thesis
            using False Some step IH' [of "(M, c)" x] R by (auto simp: Let_def walks_alike_def)
        next
          case True
          show ?thesis
          proof (cases "check_overlap dbg t ?e")
            case (Inl ex)
            then show ?thesis
              using True Some step body R by (auto simp: Let_def alike_def)
          next
            case (Inr st)
            then have "st \<noteq> NO_OVERLAP"
              using True by simp
            then show ?thesis
              using walks_alike_match [where f = f and g = g and lw = "lw dbg t f (te_next_in_bucket ?e)", OF cb' _ IH', of i st M x]
                body Some True Inr step by (cases st) (simp_all add: Let_def)
          qed
        qed
      qed
    qed
  qed
  then show ?thesis
    using x by blast
qed

subsection \<open>The two passes\<close>

text \<open>The annotated state has the producers \<open>c\<close>, an edge to \<open>succ\<close> for each of them, and the edges \<open>E\<close> of the past.\<close>

definition annotates :: "u64 \<Rightarrow> EdgeAnnot set \<Rightarrow> u64 set \<Rightarrow> annot \<Rightarrow> bool" where
  "annotates succ E c A \<longleftrightarrow> fst A = c \<and> E \<subseteq> set (snd A) \<and> (\<forall>p \<in> c. \<exists>e \<in> set (snd A). ea_pred e = p \<and> ea_succ e = succ)"

definition same_preds :: "u64 \<Rightarrow> EdgeAnnot set \<Rightarrow> u64 set \<times> bool \<Rightarrow> annot \<Rightarrow> bool" where
  "same_preds succ E c A \<longleftrightarrow> annotates succ E (fst c) A \<and> \<not> snd c"

lemma edge_ends [simp]:
  "ea_pred (new_edge p s i src x) = p" "ea_succ (new_edge p s i src x) = s"
  "ea_pred (fill_consumer t e) = ea_pred e" "ea_succ (fill_consumer t e) = ea_succ e"
  "ea_pred (fill_producer d e) = ea_pred e" "ea_succ (fill_producer d e) = ea_succ e"
  by (simp_all add: new_edge_def fill_consumer_def fill_producer_def)

lemma emit_annotates:
  assumes "annotates succ E c A"
  shows "annotates succ E (insert (raw p) c) (emit_creator succ p idx t A)"
    "annotates succ E (insert (raw p) c) (emit_tensormap succ p idx t d st A)"
  using assms by (cases A, auto simp: annotates_def emit_creator_def emit_tensormap_def)+

lemma match_alike:
  assumes "same_preds succ E c A"
  shows "alike (same_preds succ E) (on_match oracle_emit ty i st (M, c)) (annot_match succ ty idx t i st (M, A))"
proof -
  obtain preds where c: "c = (preds, False)" and A: "annotates succ E preds A"
    using assms by (cases c) (auto simp: same_preds_def)
  note e = emit_annotates(2) [OF A, of "te_producer (tm_pool M ! i)" idx t "tm_pool M ! i" st]
  show ?thesis
    using e by (cases "remove_entry i M"; cases "fst (remove_entry i M)")
      (auto simp: c alike_def same_preds_def on_match_def oracle_emit_def annot_match_def Let_def)
qed

lemma lookup_alike:
  assumes lk: "tensormap_lookup dbg t (on_match oracle_emit ty) (M, (c, False)) = Some (x, (M', (c', fatal)))" and A: "annotates succ E c A"
  shows "\<not> fatal \<and> (\<exists>A'. tensormap_lookup dbg t (annot_match succ ty idx t) (M, A) = Some (x, (M', A')) \<and> annotates succ E c' A')"
proof (cases "hash_index (buf_addr (tn_buffer t)) M")
  case (Inl ex)
  then show ?thesis
    using assms by (auto simp: tensormap_lookup_def)
next
  case (Inr b)
  then have "walks_alike (same_preds succ E) (annot_match succ ty idx t) dbg t (tm_buckets M ! b) (M, (c, False)) (x, (M', (c', fatal)))"
    using lk by (intro lookup_walk_alike [where f = "on_match oracle_emit ty"] match_alike) (simp_all add: tensormap_lookup_def)
  moreover have "same_preds succ E (c, False) A"
    using A by (simp add: same_preds_def)
  ultimately obtain y where "lookup_walk dbg t (annot_match succ ty idx t) (tm_buckets M ! b) (M, A) = Some y"
    "alike (same_preds succ E) (x, (M', (c', fatal))) y"
    unfolding walks_alike_def fst_conv snd_conv by blast
  then show ?thesis
    using Inr by (cases y) (auto simp: tensormap_lookup_def alike_def same_preds_def)
qed

lemma fanin_arg_alike:
  assumes f: "fanin_arg dbg oracle_emit a (M, c) = Some (x, (M', c'))" and A: "annotates succ E c A"
  shows "x \<noteq> Inr False \<and> (\<exists>A'. annot_arg dbg succ (idx, a) (M, A) = Some (map_sum id (\<lambda>_. ()) x, (M', A')) \<and> annotates succ E c' A')"
proof -
  obtain ty u where a: "a = (ty, u)"
    by (cases a)
  show ?thesis
  proof (cases "ty \<noteq> OUTPUT \<and> u \<noteq> None")
    case False
    then show ?thesis
      using assms by (cases A) (auto simp: a fanin_arg_def annot_arg_def)
  next
    case True
    then obtain t where u: "u = Some t"
      by blast
    define c1 A1 where "c1 = (if tid_is_valid (tn_owner t) then insert (raw (tn_owner t)) c else c)"
      and "A1 = (if tid_is_valid (tn_owner t) then emit_creator succ (tn_owner t) idx t A else A)"
    have A1: "annotates succ E c1 A1"
      using A emit_annotates(1) [OF A] by (simp add: c1_def A1_def)
    have o1: "(if tid_is_valid (tn_owner t) then oracle_emit (tn_owner t) c else (c, True)) = (c1, True)"
      by (simp add: oracle_emit_def c1_def)
    show ?thesis
    proof (cases "(ty = INPUT \<or> ty = INOUT) \<and> \<not> tn_manual_dep t")
      case False
      then have "fanin_arg dbg oracle_emit a (M, c) = Some (Inr True, (M, c1))"
        "annot_arg dbg succ (idx, a) (M, A) = Some (Inr (), (M, A1))"
        using True o1 by (auto simp: a u fanin_arg_def annot_arg_def Let_def A1_def)
      then show ?thesis
        using f A1 by auto
    next
      case look: True
      obtain y M2 c2 fatal where lk: "tensormap_lookup dbg t (on_match oracle_emit ty) (M, (c1, False)) = Some (y, (M2, (c2, fatal)))"
        using f look True o1 by (cases "tensormap_lookup dbg t (on_match oracle_emit ty) (M, (c1, False))") (auto simp: a u fanin_arg_def)
      note L = lookup_alike [OF lk A1]
      have "x = map_sum id (\<lambda>_. True) y" "M' = M2" "c' = c2"
        using f look True o1 lk conjunct1 [OF L] by (auto simp: a u fanin_arg_def split: sum.splits)
      moreover have "annot_arg dbg succ (idx, a) (M, A) = tensormap_lookup dbg t (annot_match succ ty idx t) (M, A1)"
        using look True by (auto simp: a u annot_arg_def Let_def A1_def)
      ultimately show ?thesis
        using conjunct2 [OF L, of idx] by (cases y) auto
    qed
  qed
qed

lemma fanin_args_alike:
  "fanin_args dbg oracle_emit as (M, c) = Some (x, (M', c')) \<Longrightarrow> annotates succ E c A \<Longrightarrow>
    x \<noteq> Inr False \<and> (\<exists>A'. annot_args dbg succ (enumerate n as) (M, A) = Some (map_sum id (\<lambda>_. ()) x, (M', A')) \<and> annotates succ E c' A')"
proof (induction as arbitrary: n M c A)
  case (Cons a as)
  obtain y M1 c1 where one: "fanin_arg dbg oracle_emit a (M, c) = Some (y, (M1, c1))"
    using Cons.prems(1) by (cases "fanin_arg dbg oracle_emit a (M, c)") auto
  obtain A1 where an: "y \<noteq> Inr False" "annot_arg dbg succ (n, a) (M, A) = Some (map_sum id (\<lambda>_. ()) y, (M1, A1))" "annotates succ E c1 A1"
    using fanin_arg_alike [OF one Cons.prems(2), of n] by blast
  show ?case
  proof (cases y)
    case (Inl ex)
    then show ?thesis
      using Cons.prems one an by (cases A1) auto
  next
    case (Inr b)
    then have "fanin_args dbg oracle_emit as (M1, c1) = Some (x, (M', c'))"
      using Cons.prems(1) one an(1) by (cases b) auto
    then show ?thesis
      using Cons.IH [of M1 c1 A1 "Suc n"] an Inr by auto
  qed
qed auto

lemma passes_alike:
  assumes "compute_task_fanin dbg as manual oracle_emit (M, c) = Some (x, (M', c'))" and "annotates succ E c A"
  shows "x \<noteq> Inr False \<and> (\<exists>A'. annot_pass dbg succ as manual (M, A) = Some (map_sum id (\<lambda>_. ()) x, (M', A')) \<and> annotates succ E c' A')"
  using assms fanin_args_alike [of dbg as M c x M' c' succ E A 0]
  by (cases A) (auto simp: compute_task_fanin_def annot_pass_def split: if_splits)

lemma explicit_annotates: "annotates succ E c A \<Longrightarrow> explicit_edges succ ps (c, A) = (c', A') \<Longrightarrow> annotates succ E c' A'"
proof (induction ps arbitrary: c A)
  case (Cons p ps)
  obtain preds edges where A: "A = (preds, edges)"
    by (cases A)
  have "annotates succ E (insert p c) (if p \<in> preds then (preds, edges) else (insert p preds, edges @ [new_edge p succ (- 1) EXPLICIT 0]))"
    using Cons.prems(1) by (auto simp: A annotates_def)
  then show ?case
    using Cons.IH Cons.prems(2) by (simp add: A)
qed simp

subsection \<open>The replay\<close>

lemma replay_record_agrees:
  assumes same: "rs_oracle rs = rs_annot rs"
  shows "replay_record dbg rec rs \<noteq> Some (Inr (Inl code)) \<and> (replay_record dbg rec rs = Some (Inr (Inr rs')) \<longrightarrow> rs_oracle rs' = rs_annot rs')"
proof (cases "record_inputs rec")
  case (Inr inputs)
  let ?dc = "min (dg_explicit_dep_count rec) DEP_GEN_MAX_EXPLICIT_DEPS"
  obtain c A where ex: "explicit_edges (dg_task_id rec) (take ?dc (dg_explicit_deps rec)) ({}, ({}, rs_edges rs)) = (c, A)"
    by (metis prod.exhaust)
  have A: "annotates (dg_task_id rec) {} c A"
    by (rule explicit_annotates [OF _ ex]) (simp add: annotates_def)
  show ?thesis
  proof (cases "compute_task_fanin dbg inputs (in_manual rec) oracle_emit (rs_annot rs, c)")
    case None
    then show ?thesis
      using same by (auto simp: replay_record_def Inr ex Let_def split: sum.splits prod.splits)
  next
    case (Some z)
    obtain x M' c' where z: "z = (x, (M', c'))"
      by (cases z) auto
    obtain A' where x: "x \<noteq> Inr False" and an: "annot_pass dbg (dg_task_id rec) inputs (in_manual rec) (rs_annot rs, A)
        = Some (map_sum id (\<lambda>_. ()) x, (M', A'))" and "fst A' = c'"
      using passes_alike [OF Some [unfolded z] A] by (auto simp: annotates_def)
    then obtain edges' where A': "A' = (c', edges')"
      by (cases A') auto
    show ?thesis
      using same x by (auto simp: replay_record_def Inr ex an A' Some z Let_def split: sum.splits prod.splits bool.splits if_splits)
  qed
qed (simp add: replay_record_def)

lemma replay_records_agree: "rs_oracle rs = rs_annot rs \<Longrightarrow> replay_records dbg recs rs \<noteq> Some (Inr (Inl code))"
proof (induction recs arbitrary: rs)
  case (Cons r recs)
  note A = replay_record_agrees [OF Cons.prems, of dbg r]
  show ?case
  proof (cases "\<exists>rs'. replay_record dbg r rs = Some (Inr (Inr rs'))")
    case True
    then obtain rs' where rs': "replay_record dbg r rs = Some (Inr (Inr rs'))"
      by blast
    then have "rs_oracle rs' = rs_annot rs'"
      using A [of code rs'] by blast
    then show ?thesis
      using Cons.IH rs' by simp
  next
    case False
    then show ?thesis
      using conjunct1 [OF A, of code] by (auto split: option.splits sum.splits)
  qed
qed simp

lemma init_same: "tensormap_init alloc nb n ws = Some M \<Longrightarrow> tensormap_init alloc' nb n ws = Some M' \<Longrightarrow> M' = M"
  by (auto simp: tensormap_init_def split: if_splits)

lemma buckets_pow2: "pow2_or_zero PTO2_TENSORMAP_NUM_BUCKETS"
  by (simp add: pow2_or_zero_def PTO2_TENSORMAP_NUM_BUCKETS_def)

text \<open>
  C32: the replay never reports a divergence. For all records, build modes and failures of its allocations and of the file,
  a replay that returns gives success, the code of a null argument, of a failed initialisation or of a failed file; the
  codes of a fatal oracle pass (\<open>-4\<close>) and of passes that differ (\<open>-6\<close>) are never returned. A null argument is the only
  cause of \<open>-1\<close>, a failed allocation of \<open>-3\<close> and the file of \<open>-5\<close>.
\<close>

theorem replay_passes_agree:
  "case dep_gen_replay_emit_deps_json dbg alloc_o alloc_a open_ok write_ok records n path of
     Some (Inr (code, out)) \<Rightarrow>
       code = 0 \<and> open_ok \<and> write_ok \<or> code = - 1 \<and> (path = None \<or> records = None)
       \<or> code = - 3 \<and> (\<exists>i. \<not> (alloc_o i \<and> alloc_a i)) \<or> code = - 5 \<and> \<not> (open_ok \<and> write_ok)
   | _ \<Rightarrow> True"
proof (cases "path = None \<or> 0 < n \<and> records = None")
  case True
  then show ?thesis
    by (auto simp: dep_gen_replay_emit_deps_json_def)
next
  case False
  have fail: "\<exists>i. \<not> alloc i" if "tensormap_init alloc PTO2_TENSORMAP_NUM_BUCKETS m ws = None" for alloc m ws
    using that by (rule contrapos_pp) (simp add: tensormap_init_def buckets_pow2 list_all_iff)
  have never: "replay_records dbg recs \<lparr>rs_oracle = Mo, rs_annot = Ma, rs_tasks = [], rs_tensors = (Map.empty, []), rs_edges = []\<rparr> \<noteq> Some (Inr (Inl code))"
    if "tensormap_init alloc_o nb m ws = Some Mo" "tensormap_init alloc_a nb m ws = Some Ma" for recs nb m ws Mo Ma code
    using init_same [OF that] by (simp add: replay_records_agree)
  define recs where "recs = take n (case records of None \<Rightarrow> [] | Some rs \<Rightarrow> rs)"
  note D = dep_gen_replay_emit_deps_json_def [of dbg alloc_o alloc_a open_ok write_ok records n path, folded recs_def, unfolded Let_def]
  show ?thesis
  proof (cases "\<not> length recs < n \<and> (\<exists>ws k. replay_sizes recs = Inr (ws, k))")
    case True
    then obtain ws k where len: "\<not> length recs < n" and sizes: "replay_sizes recs = Inr (ws, k)"
      by blast
    let ?I = "\<lambda>alloc. tensormap_init alloc PTO2_TENSORMAP_NUM_BUCKETS k ws"
    show ?thesis
    proof (cases "?I alloc_o = None \<or> ?I alloc_a = None")
      case none: True
      then have "dep_gen_replay_emit_deps_json dbg alloc_o alloc_a open_ok write_ok records n path = Some (Inr (- 3, None))"
        using False by (auto simp: D len sizes split: option.splits)
      moreover have "\<exists>i. \<not> (alloc_o i \<and> alloc_a i)"
        using none fail by blast
      ultimately show ?thesis
        by simp
    next
      case init: False
      then obtain Mo Ma where M: "?I alloc_o = Some Mo" "?I alloc_a = Some Ma"
        by auto
      let ?rs = "\<lparr>rs_oracle = Mo, rs_annot = Ma, rs_tasks = [], rs_tensors = (Map.empty, []), rs_edges = []\<rparr>"
      show ?thesis
      proof (cases "replay_records dbg recs ?rs")
        case None
        then show ?thesis
          using False by (simp add: D len sizes M)
      next
        case (Some z)
        show ?thesis
        proof (cases z)
          case (Inl ex)
          then show ?thesis
            using False Some by (simp add: D len sizes M)
        next
          case (Inr y)
          then show ?thesis
            using False Some never [OF M] by (cases y) (simp_all add: D len sizes M)
        qed
      qed
    qed
  next
    case bad: False
    then show ?thesis
      using False by (cases "replay_sizes recs") (auto simp: D)
  qed
qed

end
