(* ===== verification/L2ReplayRuns.thy ===== *)
theory L2ReplayRuns
  imports L2ReplayAgree L2DepsRuns
begin

text \<open>
  What the replay computes on well-formed records: it sizes the tensor maps so that no registration fails, and the edges
  it prints order every reader after the earlier writers of what it reads.
\<close>

subsection \<open>Sizing\<close>

lemma bit_smear: "bit (smear k v) i \<longleftrightarrow> bit v i \<or> bit v (i + k)"
  by (simp add: smear_def bit_simps add.commute)

lemma smear_doubles:
  assumes "\<And>i. bit w i \<longleftrightarrow> (\<exists>d < n. bit v (i + d))"
  shows "bit (smear n w) i \<longleftrightarrow> (\<exists>d < 2 * n. bit v (i + d))"
proof
  assume "bit (smear n w) i"
  then obtain d where "d < n" "bit v (i + d) \<or> bit v (i + n + d)"
    using assms by (auto simp: bit_smear)
  then show "\<exists>d < 2 * n. bit v (i + d)"
    by (auto simp: add.assoc intro: exI [of _ d] exI [of _ "n + d"])
next
  assume "\<exists>d < 2 * n. bit v (i + d)"
  then obtain d where d: "d < 2 * n" "bit v (i + d)"
    by blast
  show "bit (smear n w) i"
  proof (cases "d < n")
    case False
    then have "\<exists>e < n. bit v (i + n + e)"
      using d by (intro exI [of _ "d - n"]) auto
    then show ?thesis
      using assms by (auto simp: bit_smear)
  qed (use d assms in \<open>auto simp: bit_smear\<close>)
qed

lemma bit_smear_all: "bit (smear 16 (smear 8 (smear 4 (smear 2 (smear 1 v))))) i \<longleftrightarrow> (\<exists>d < 32. bit v (i + d))"
proof -
  have "bit v i \<longleftrightarrow> (\<exists>d < 1. bit v (i + d))" for i
    by simp
  from smear_doubles [OF smear_doubles [OF smear_doubles [OF smear_doubles [OF smear_doubles [OF this]]]], of i]
  show ?thesis
    by simp
qed

lemma nat_bits_below:
  fixes v :: nat
  assumes "2 ^ k \<le> v" and "v < 2 ^ Suc k"
  shows "bit v k" "bit v i \<Longrightarrow> i \<le> k"
proof -
  have "v div 2 ^ k = 1"
    using assms by (intro div_nat_eqI) auto
  then show "bit v k"
    by (simp add: bit_iff_odd)
  show "i \<le> k" if "bit v i"
  proof (rule ccontr)
    assume "\<not> i \<le> k"
    then have "v < 2 ^ i"
      using assms(2) power_increasing [of "Suc k" i "2 :: nat"] by simp
    then show False
      using that by (simp add: bit_iff_odd)
  qed
qed

lemma ceil_pow2_ok:
  assumes "1 < v" and "v \<le> 2 ^ 30"
  shows "\<exists>j < 31. ceil_pow2 v = Inr (2 ^ j) \<and> v \<le> 2 ^ j"
proof -
  define u where "u = nat (v - 1)"
  define w where "w = smear 16 (smear 8 (smear 4 (smear 2 (smear 1 u))))"
  have u: "1 \<le> u" "u < 2 ^ 30"
    using assms by (auto simp: u_def nat_less_iff)
  then obtain k where k: "2 ^ k \<le> u" "u < 2 ^ Suc k"
    using ex_power_ivl1 [of 2 u] by auto
  then have "(2 :: nat) ^ k < 2 ^ 30"
    using u(2) by linarith
  then have k30: "k < 30"
    by (simp only: power_strict_increasing_iff [of 2])
  have "w = mask (Suc k)"
  proof (rule bit_eqI)
    fix i
    have "(\<exists>d < 32. bit u (i + d)) \<longleftrightarrow> i \<le> k"
    proof
      assume "i \<le> k"
      then show "\<exists>d < 32. bit u (i + d)"
        using nat_bits_below(1) [OF k] k30 by (intro exI [of _ "k - i"]) auto
    qed (use nat_bits_below(2) [OF k] in fastforce)
    then show "bit w i = bit (mask (Suc k) :: nat) i"
      unfolding w_def bit_smear_all by (auto simp: bit_mask_iff)
  qed
  then have "w + 1 = 2 ^ Suc k"
    by (simp only: mask_nat_def) simp
  moreover have "(2 :: nat) ^ Suc k < 2 ^ 31"
    using k30 by (simp only: power_strict_increasing_iff)
  moreover have "v \<le> 2 ^ Suc k"
    using k(2) assms(1) by (simp add: u_def nat_less_iff)
  moreover have "ceil_pow2 v = (if w + 1 < 2 ^ 31 then Inr (w + 1) else Inl UndefinedBehaviour)"
    using assms(1) by (simp only: ceil_pow2_def Let_def u_def w_def) simp
  ultimately have "ceil_pow2 v = Inr (2 ^ Suc k)" "v \<le> 2 ^ Suc k"
    by simp_all
  then show ?thesis
    using k30 by (intro exI [of _ "Suc k"]) auto
qed

text \<open>
  A record as the device writes it: full arrays, at most as many arguments as they hold, and the id of a task of one of
  the rings whose window can still be sized.
\<close>

definition rec_task :: "DepGenRecord \<Rightarrow> PTO2TaskId" where
  "rec_task r = \<lparr>raw = dg_task_id r\<rparr>"

definition record_ok :: "DepGenRecord \<Rightarrow> bool" where
  "record_ok r \<longleftrightarrow> length (dg_arg_types r) = CORE_MAX_TENSOR_ARGS \<and> length (dg_tensors r) = CORE_MAX_TENSOR_ARGS
     \<and> length (dg_explicit_deps r) = DEP_GEN_MAX_EXPLICIT_DEPS \<and> dg_tensor_count r \<le> CORE_MAX_TENSOR_ARGS
     \<and> unat (tid_ring (rec_task r)) < PTO2_MAX_RING_DEPTH \<and> unat (tid_local (rec_task r)) < 2 ^ 30"

definition rec_inputs :: "DepGenRecord \<Rightarrow> dep_arg list" where
  "rec_inputs r = zip (take (dg_tensor_count r) (dg_arg_types r)) (map Some (take (dg_tensor_count r) (dg_tensors r)))"

definition rec_auto :: "DepGenRecord \<Rightarrow> dep_arg list" where
  "rec_auto r = (if in_manual r then [] else rec_inputs r)"

definition rec_outputs :: "DepGenRecord \<Rightarrow> nat" where
  "rec_outputs r = length (filter is_output (take (dg_tensor_count r) (dg_arg_types r)))"

lemma record_inputs_ok: "record_ok r \<Longrightarrow> record_inputs r = Inr (rec_inputs r)"
  by (simp add: record_ok_def record_inputs_def rec_inputs_def Let_def)

lemma unat_uint_less: "unat (w :: u32) < 2 ^ k \<Longrightarrow> uint w < 2 ^ k"
  by (metis of_nat_less_iff of_nat_numeral of_nat_power uint_nat)

lemma sint_small: "unat (w :: u32) < 2 ^ 31 \<Longrightarrow> sint w = uint w"
  using sint_i32 [of "uint w"] unat_uint_less [of w 31] by (simp add: i32_def)

lemma max_local_bound:
  "\<forall>r \<in> set rs. unat (tid_local (rec_task r)) < 2 ^ 30 \<Longrightarrow> unat m < 2 ^ 30 \<Longrightarrow> unat (max_local ring rs m) < 2 ^ 30"
  by (induction rs arbitrary: m) (simp_all add: rec_task_def Let_def)

lemma window_of_ok:
  assumes "\<forall>r \<in> set recs. record_ok r"
  shows "\<exists>j < 31. window_of recs ring = Inr (2 ^ j)"
proof -
  let ?m = "max_local ring recs 0"
  have m: "unat ?m < 2 ^ 30"
    using max_local_bound [of recs 0 ring] assms by (simp add: record_ok_def)
  then have "unat (?m + 1) = unat ?m + 1"
    by (subst unat_add_lem [THEN iffD1]) simp_all
  then have "uint (?m + 1) = uint ?m + 1" "sint (?m + 1) = uint (?m + 1)"
    by (simp only: uint_nat of_nat_add of_nat_1, intro sint_small) (use m in simp)
  then have "1 < (if sint (?m + 1) < 16 then 16 else sint (?m + 1))" "(if sint (?m + 1) < 16 then 16 else sint (?m + 1)) \<le> 2 ^ 30"
    using unat_uint_less [OF m] by simp_all
  from ceil_pow2_ok [OF this] show ?thesis
    unfolding window_of_def Let_def by auto
qed

lemma window_sizes_ok:
  assumes "\<forall>r \<in> set recs. record_ok r"
  shows "\<exists>ws. window_sizes recs rs = Inr ws \<and> length ws = length rs \<and> (\<forall>w \<in> set ws. \<exists>j < 31. w = 2 ^ j)"
proof (induction rs)
  case (Cons r rs)
  then show ?case
    using window_of_ok [OF assms, of r] by auto
qed simp

lemma count_outputs_ok: "\<forall>r \<in> set recs. record_ok r \<Longrightarrow> count_outputs recs = Inr (sum_list (map rec_outputs recs))"
  by (induction recs) (simp_all add: record_ok_def rec_outputs_def)

lemma arg_writes_zip: "length (arg_writes (zip tys (map Some ts))) \<le> length (filter is_output tys)"
  by (induction tys arbitrary: ts) (simp, case_tac ts, auto simp: is_output_def le_SucI)

lemma rec_writes_le: "length (arg_writes (rec_auto r)) \<le> rec_outputs r"
  by (simp add: rec_auto_def rec_inputs_def rec_outputs_def arg_writes_zip)

lemma replay_sizes_ok:
  assumes "\<forall>r \<in> set recs. record_ok r" and "sum_list (map rec_outputs recs) \<le> 10 ^ 9"
  shows "\<exists>ws k. replay_sizes recs = Inr (ws, k) \<and> length ws = PTO2_MAX_RING_DEPTH \<and> (\<forall>w \<in> set ws. \<exists>j < 31. w = 2 ^ j)
    \<and> sum_list (map rec_outputs recs) \<le> k"
proof -
  let ?n = "sum_list (map rec_outputs recs)"
  have "pool_size_for ?n = Inr (max (?n + ?n div 10 + 64) PTO2_TENSORMAP_POOL_SIZE)"
    using assms(2) by (simp add: pool_size_for_def Let_def)
  then show ?thesis
    using window_sizes_ok [OF assms(1), of "[0 ..< PTO2_MAX_RING_DEPTH]"] count_outputs_ok [OF assms(1)]
    by (auto simp: replay_sizes_def)
qed

subsection \<open>One record\<close>

definition rec_tensors :: "DepGenRecord \<Rightarrow> Tensor set" where
  "rec_tensors r = {t. \<exists>ty. (ty, Some t) \<in> set (rec_inputs r) \<and> ty \<noteq> OUTPUT}"

lemma rec_accesses: "set (arg_reads (rec_auto r)) \<union> set (arg_writes (rec_auto r)) \<subseteq> rec_tensors r"
  by (auto simp: arg_reads_def arg_writes_def rec_auto_def rec_tensors_def split: if_splits)

lemma args_given_zip: "args_given (zip tys (map Some ts))"
  by (induction tys arbitrary: ts) (simp, case_tac ts, auto)

lemma rec_given: "args_given (rec_inputs r)" "args_given (rec_auto r)"
  by (simp_all add: rec_auto_def rec_inputs_def args_given_zip)

lemma task_args_entries_ok:
  "\<forall>(i, ty, x) \<in> set as. ty \<noteq> OUTPUT \<longrightarrow> (\<exists>t. x = Some t \<and> valid_tensor t) \<Longrightarrow> \<exists>es T'. task_args_entries as T = Inr (es, T')"
proof (induction as arbitrary: T)
  case (Cons a as)
  obtain i ty x where a: "a = (i, (ty, x))"
    by (metis prod.exhaust)
  show ?case
  proof (cases "ty = OUTPUT")
    case False
    then obtain t where t: "x = Some t" "valid_tensor t"
      using Cons.prems by (auto simp: a)
    then obtain es where "get_element_size (tn_dtype t) = Inr es"
      by (cases "get_element_size (tn_dtype t)") (auto simp: valid_tensor_def in_buffer_def)
    then have "\<exists>T'. register_tensor t T = Inr T'"
      by (cases T) (simp add: register_tensor_def Let_def)
    then obtain T' where "register_tensor t T = Inr T'"
      by blast
    moreover obtain es' T'' where "task_args_entries as T' = Inr (es', T'')"
      using Cons.IH [of T'] Cons.prems by auto
    ultimately show ?thesis
      using False t by (simp add: a Let_def)
  next
    case True
    moreover obtain es' T'' where "task_args_entries as T = Inr (es', T'')"
      using Cons.IH [of T] Cons.prems by auto
    ultimately show ?thesis
      by (simp add: a Let_def)
  qed
qed simp

lemma fold_oracle: "fold (\<lambda>p c. fst (oracle_emit p c)) ps c = c \<union> raw ` set ps"
  by (induction ps arbitrary: c) (simp_all add: oracle_emit_def)

definition has_edges :: "PTO2TaskId list \<Rightarrow> PTO2TaskId \<Rightarrow> EdgeAnnot list \<Rightarrow> bool" where
  "has_edges ps y edges \<longleftrightarrow> (\<forall>p \<in> set ps. \<exists>e \<in> set edges. ea_pred e = raw p \<and> ea_succ e = raw y)"

lemma record_step:
  assumes ok: "record_ok r" and valid: "\<forall>t \<in> rec_tensors r. valid_tensor t" and rs: "rs_oracle rs = M" "rs_annot rs = M"
    and inv: "tm_inv M" and cmp: "\<forall>t \<in> set (arg_reads (rec_auto r)). comparable dbg t M" and room: "rec_outputs r \<le> tm_room M"
  shows "\<exists>rs' ps M1. replay_record dbg r rs = Some (Inr (Inr rs')) \<and> rs_annot rs' = rs_oracle rs' \<and> fanin_found dbg (rec_auto r) M ps M1
    \<and> registers (rec_task r) (arg_writes (rec_auto r)) M1 (rs_oracle rs') \<and> tm_inv (rs_oracle rs')
    \<and> set (rs_edges rs) \<subseteq> set (rs_edges rs') \<and> has_edges ps (rec_task r) (rs_edges rs')"
proof -
  let ?dc = "min (dg_explicit_dep_count r) DEP_GEN_MAX_EXPLICIT_DEPS"
  obtain c A where ex: "explicit_edges (dg_task_id r) (take ?dc (dg_explicit_deps r)) ({}, ({}, rs_edges rs)) = (c, A)"
    by (metis prod.exhaust)
  have A: "annotates (dg_task_id r) (set (rs_edges rs)) c A"
    by (rule explicit_annotates [OF _ ex]) (simp add: annotates_def)
  have "\<forall>(i, ty, x) \<in> set (enumerate 0 (rec_inputs r)). ty \<noteq> OUTPUT \<longrightarrow> (\<exists>t. x = Some t \<and> valid_tensor t)"
    using valid rec_given(1) [of r] by (fastforce simp: rec_tensors_def args_given_def list_all_iff in_set_enumerate_eq dest: nth_mem)
  then obtain es T' where en: "task_args_entries (enumerate 0 (rec_inputs r)) (rs_tensors rs) = Inr (es, T')"
    using task_args_entries_ok by blast
  obtain M1 ps where f: "fanin_args dbg oracle_emit (rec_auto r) (M, c) = Some (Inr True, (M1, c \<union> raw ` set ps))" and found: "fanin_found dbg (rec_auto r) M ps M1"
    using fanin_args_ok [where emit = oracle_emit and c = c, OF _ inv rec_given(2) cmp] by (auto simp: oracle_emit_def fold_oracle [unfolded oracle_emit_def fst_conv])
  have comp: "compute_task_fanin dbg (rec_inputs r) (in_manual r) oracle_emit (M, c) = Some (Inr True, (M1, c \<union> raw ` set ps))"
    using f by (simp add: compute_task_fanin_def rec_auto_def split: if_splits)
  obtain A' where an: "annot_pass dbg (dg_task_id r) (rec_inputs r) (in_manual r) (M, A) = Some (Inr (), (M1, A'))"
    and A': "annotates (dg_task_id r) (set (rs_edges rs)) (c \<union> raw ` set ps) A'"
    using passes_alike [OF comp A] by auto
  have inv1: "tm_inv M1" and "registered M1 \<subseteq> registered M" "length (tm_pool M1) = length (tm_pool M)"
    using found by (auto simp: fanin_found_def taken_out_def tm_frame_def)
  then have "tm_room M \<le> tm_room M1"
    using card_mono [of "registered M" "registered M1"] by (simp add: tm_room_def)
  then have "length (arg_writes (rec_auto r)) \<le> tm_room M1"
    using room rec_writes_le [of r] by linarith
  then obtain M2 where reg: "for_each (register_arg dbg (rec_task r)) (rec_auto r) M1 = (Inr (), M2)"
    using register_args_ok(1) [OF inv1 rec_given(2), of "rec_task r" r dbg] ok by (auto simp: record_ok_def)
  then have reg': "tm_inv M2 \<and> registers (rec_task r) (arg_writes (rec_auto r)) M1 M2"
    using register_args_ok(2) [OF inv1 rec_given(2) _ reg] ok by (simp add: record_ok_def)
  have out: "register_task_outputs dbg (rec_inputs r) \<lparr>raw = dg_task_id r\<rparr> (in_manual r) M1 = (Inr (), M2)"
    using reg by (simp add: register_task_outputs_def rec_auto_def rec_task_def split: if_splits)
  obtain edges' where edges': "A' = (c \<union> raw ` set ps, edges')"
    using A' by (cases A') (auto simp: annotates_def)
  define rs' where "rs' = \<lparr>rs_oracle = M2, rs_annot = M2, rs_tasks = rs_tasks rs @ [\<lparr>tk_task_id = dg_task_id r,
    tk_in_manual_scope = in_manual r, tk_args = es\<rparr>], rs_tensors = T', rs_edges = edges'\<rparr>"
  have "\<not> length (dg_explicit_deps r) < ?dc"
    using ok by (simp add: record_ok_def)
  then have "replay_record dbg r rs = Some (Inr (Inr rs'))"
    by (simp add: replay_record_def record_inputs_ok [OF ok] Let_def en ex rs comp an edges' out rs'_def del: min_less_iff_conj)
  moreover have "set (rs_edges rs) \<subseteq> set (rs_edges rs') \<and> has_edges ps (rec_task r) (rs_edges rs')"
    using A' by (auto simp: annotates_def edges' rs'_def has_edges_def rec_task_def)
  ultimately show ?thesis
    using found reg' by (intro exI [of _ rs'] exI [of _ ps] exI [of _ M1]) (simp add: rs'_def)
qed

subsection \<open>A replay\<close>

definition edge_rel :: "EdgeAnnot list \<Rightarrow> (PTO2TaskId \<times> PTO2TaskId) set" where
  "edge_rel edges = {(\<lparr>raw = ea_pred e\<rparr>, \<lparr>raw = ea_succ e\<rparr>) |e. e \<in> set edges}"

definition rec_writes :: "DepGenRecord list \<Rightarrow> (PTO2TaskId \<times> Tensor) set" where
  "rec_writes recs = (\<Union>r \<in> set recs. {rec_task r} \<times> set (arg_writes (rec_auto r)))"

text \<open>The state after the records \<open>recs\<close>: every write is held by a registration of a task ordered after it.\<close>

definition replayed :: "DepGenRecord list \<Rightarrow> replay_state \<Rightarrow> bool" where
  "replayed recs rs \<longleftrightarrow> (let M = rs_oracle rs in rs_annot rs = M \<and> tm_inv M \<and> tm_last_alives M = replicate PTO2_MAX_RING_DEPTH 0
     \<and> known (rec_writes recs) M \<and> card (registered M) \<le> sum_list (map rec_outputs recs)
     \<and> (\<forall>(p, u) \<in> rec_writes recs. \<exists>q. (p, q) \<in> (edge_rel (rs_edges rs))\<^sup>* \<and> held (rec_writes recs) M u q))"

lemma has_edges_rel: "has_edges ps y edges \<longleftrightarrow> set ps \<times> {y} \<subseteq> edge_rel edges"
proof -
  have eq: "\<lparr>raw = raw x\<rparr> = x" for x
    by simp
  have "(p, y) \<in> edge_rel edges \<longleftrightarrow> (\<exists>e \<in> set edges. ea_pred e = raw p \<and> ea_succ e = raw y)" for p
    unfolding edge_rel_def by (auto simp: eq) (metis eq)
  then show ?thesis
    by (auto simp: has_edges_def)
qed

lemma rec_task_live:
  assumes "\<forall>r \<in> set recs. record_ok r" and "(q, v) \<in> rec_writes recs" and "tm_last_alives M = replicate PTO2_MAX_RING_DEPTH 0"
  shows "\<not> gone M q"
proof -
  obtain r where "record_ok r" "q = rec_task r"
    using assms(1,2) by (auto simp: rec_writes_def)
  moreover from this have "sint (tid_local q) = uint (tid_local q)"
    by (intro sint_small) (simp add: record_ok_def)
  ultimately show ?thesis
    using assms(3) by (simp add: gone_def record_ok_def)
qed

lemma replay_step:
  assumes rep: "replayed h rs" and ok: "\<forall>x \<in> set (h @ [r]). record_ok x" and coh: "coherent (\<Union>x \<in> set (h @ [r]). rec_tensors x)"
    and room: "sum_list (map rec_outputs (h @ [r])) \<le> length (tm_pool (rs_oracle rs))"
  obtains rs' where "replay_record dbg r rs = Some (Inr (Inr rs'))" "replayed (h @ [r]) rs'" "set (rs_edges rs) \<subseteq> set (rs_edges rs')"
    "length (tm_pool (rs_oracle rs')) = length (tm_pool (rs_oracle rs))"
    "\<forall>(p, u) \<in> rec_writes h. \<forall>t \<in> set (arg_reads (rec_auto r)). shares t u \<longrightarrow> (p, rec_task r) \<in> (edge_rel (rs_edges rs'))\<^sup>+"
proof -
  let ?M = "rs_oracle rs" and ?S = "\<Union>x \<in> set (h @ [r]). rec_tensors x" and ?y = "rec_task r" and ?ws = "arg_writes (rec_auto r)"
  note R = rep [unfolded replayed_def Let_def]
  have kn: "known (rec_writes h) ?M" and cardM: "card (registered ?M) \<le> sum_list (map rec_outputs h)"
    using R by blast+
  have past: "\<exists>q. (p, q) \<in> (edge_rel (rs_edges rs))\<^sup>* \<and> held (rec_writes h) ?M u q" if "(p, u) \<in> rec_writes h" for p u
    using R that by blast
  have S: "snd ` rec_writes h \<subseteq> ?S" "set (arg_reads (rec_auto r)) \<subseteq> ?S"
    using rec_accesses by (fastforce simp: rec_writes_def)+
  have "\<forall>t \<in> rec_tensors r. valid_tensor t"
    using coh by (simp add: coherent_def)
  moreover have "\<forall>t \<in> set (arg_reads (rec_auto r)). comparable dbg t ?M"
    using known_comparable [OF kn coh S(1)] S(2) by blast
  moreover have "rec_outputs r \<le> tm_room ?M"
    using cardM room unfolding tm_room_def by simp
  ultimately obtain rs' ps M1 where st: "replay_record dbg r rs = Some (Inr (Inr rs'))" "rs_annot rs' = rs_oracle rs'"
    "fanin_found dbg (rec_auto r) ?M ps M1" "registers ?y ?ws M1 (rs_oracle rs')" "tm_inv (rs_oracle rs')"
    "set (rs_edges rs) \<subseteq> set (rs_edges rs')" "has_edges ps ?y (rs_edges rs')"
    using record_step [of r rs ?M dbg] R ok by auto
  obtain X where out: "taken_out X ?M M1"
    using st(3) by (auto simp: fanin_found_def)
  have fr: "tm_frame ?M (rs_oracle rs')"
    using out st(4) tm_frame_trans by (auto simp: taken_out_def registers_def)
  have E: "edge_rel (rs_edges rs) \<subseteq> edge_rel (rs_edges rs')"
    using st(6) by (auto simp: edge_rel_def)
  note H = submit_holder [OF coh S st(3,4), where E' = "edge_rel (rs_edges rs')", OF _ _ st(7) [unfolded has_edges_rel] E]
  have W: "rec_writes (h @ [r]) = rec_writes h \<union> {?y} \<times> set ?ws"
    by (auto simp: rec_writes_def)
  have held: "\<exists>q. (p, q) \<in> (edge_rel (rs_edges rs'))\<^sup>* \<and> held (rec_writes (h @ [r])) (rs_oracle rs') u q"
    if "(p, u) \<in> rec_writes (h @ [r])" for p u
  proof (cases "(p, u) \<in> rec_writes h")
    case True
    then obtain q where "(p, q) \<in> (edge_rel (rs_edges rs))\<^sup>*" "held (rec_writes h) ?M u q"
      using past by blast
    then show ?thesis
      unfolding W by (rule H(1))
  next
    case False
    then have "p = ?y" "u \<in> set ?ws"
      using that by (auto simp: W)
    then show ?thesis
      using registers_held [OF st(4), of u "rec_writes h"] unfolding W by blast
  qed
  have "card (registered (rs_oracle rs')) \<le> card (registered M1) + length ?ws" "card (registered M1) \<le> card (registered ?M)"
    using st(4) out by (auto simp: registers_def taken_out_def intro: card_mono)
  then have "card (registered (rs_oracle rs')) \<le> sum_list (map rec_outputs (h @ [r]))"
    using R rec_writes_le [of r] by simp
  moreover have "known (rec_writes (h @ [r])) (rs_oracle rs')"
    using submit_known [OF _ out st(4)] R unfolding W by blast
  ultimately have "replayed (h @ [r]) rs'"
    using st(2,5) fr R held unfolding replayed_def Let_def by (auto simp: tm_frame_def)
  moreover have "(p, ?y) \<in> (edge_rel (rs_edges rs'))\<^sup>+" if pu: "(p, u) \<in> rec_writes h" and t: "t \<in> set (arg_reads (rec_auto r))" and sh: "shares t u" for p u t
  proof -
    obtain q where q: "(p, q) \<in> (edge_rel (rs_edges rs))\<^sup>*" "held (rec_writes h) ?M u q"
      using past [OF pu] by blast
    then obtain v where "(q, v) \<in> rec_writes h"
      by (auto simp: held_def)
    then have "\<not> gone ?M q"
      using rec_task_live [of h q v ?M] ok R by simp
    then show ?thesis
      using H(2) [OF q t sh] by blast
  qed
  ultimately show thesis
    using that st(1,6) fr by (auto simp: tm_frame_def)
qed

text \<open>Every reader is ordered after the earlier writers of what it reads.\<close>

definition ordered :: "DepGenRecord list \<Rightarrow> EdgeAnnot list \<Rightarrow> bool" where
  "ordered recs edges \<longleftrightarrow> (\<forall>j < length recs. \<forall>i < j. \<forall>u \<in> set (arg_writes (rec_auto (recs ! i))). \<forall>t \<in> set (arg_reads (rec_auto (recs ! j))).
     shares t u \<longrightarrow> (rec_task (recs ! i), rec_task (recs ! j)) \<in> (edge_rel edges)\<^sup>+)"

lemma edge_rel_mono: "set es \<subseteq> set es' \<Longrightarrow> (edge_rel es)\<^sup>+ \<subseteq> (edge_rel es')\<^sup>+"
  by (intro trancl_mono_subset) (auto simp: edge_rel_def)

lemma ordered_snoc:
  assumes "ordered h es" and "set es \<subseteq> set es'"
    and "\<forall>(p, u) \<in> rec_writes h. \<forall>t \<in> set (arg_reads (rec_auto r)). shares t u \<longrightarrow> (p, rec_task r) \<in> (edge_rel es')\<^sup>+"
  shows "ordered (h @ [r]) es'"
proof -
  have past: "(rec_task (h ! i), u) \<in> rec_writes h" if "i < length h" "u \<in> set (arg_writes (rec_auto (h ! i)))" for i u
    using that by (auto simp: rec_writes_def intro: bexI [of _ "h ! i"])
  show ?thesis
    unfolding ordered_def
  proof (intro allI impI ballI)
    fix j i u t
    assume j: "j < length (h @ [r])" "i < j" and u: "u \<in> set (arg_writes (rec_auto ((h @ [r]) ! i)))"
      and t: "t \<in> set (arg_reads (rec_auto ((h @ [r]) ! j)))" "shares t u"
    then have i: "i < length h" "(h @ [r]) ! i = h ! i"
      by (simp_all add: nth_append)
    show "(rec_task ((h @ [r]) ! i), rec_task ((h @ [r]) ! j)) \<in> (edge_rel es')\<^sup>+"
    proof (cases "j < length h")
      case True
      then have "(rec_task (h ! i), rec_task (h ! j)) \<in> (edge_rel es)\<^sup>+"
        using assms(1) j(2) u t i(2) unfolding ordered_def by (simp add: nth_append) blast
      then show ?thesis
        using edge_rel_mono [OF assms(2)] True i(2) by (auto simp: nth_append)
    next
      case False
      then have "(h @ [r]) ! j = r"
        using j(1) by (simp add: nth_append)
      then show ?thesis
        using assms(3) past [OF i(1), of u] u t i(2) by auto
    qed
  qed
qed

lemma replay_run:
  "replayed h rs \<Longrightarrow> ordered h (rs_edges rs) \<Longrightarrow> \<forall>x \<in> set (h @ recs). record_ok x \<Longrightarrow> coherent (\<Union>x \<in> set (h @ recs). rec_tensors x) \<Longrightarrow>
    sum_list (map rec_outputs (h @ recs)) \<le> length (tm_pool (rs_oracle rs)) \<Longrightarrow>
    \<exists>rs'. replay_records dbg recs rs = Some (Inr (Inr rs')) \<and> ordered (h @ recs) (rs_edges rs')"
proof (induction recs arbitrary: h rs)
  case (Cons r recs)
  have c: "\<forall>x \<in> set (h @ [r]). record_ok x" "coherent (\<Union>x \<in> set (h @ [r]). rec_tensors x)"
    "sum_list (map rec_outputs (h @ [r])) \<le> length (tm_pool (rs_oracle rs))"
    using Cons.prems(3-5) by (auto simp: coherent_def)
  obtain rs' where st: "replay_record dbg r rs = Some (Inr (Inr rs'))" "replayed (h @ [r]) rs'" "set (rs_edges rs) \<subseteq> set (rs_edges rs')"
    "length (tm_pool (rs_oracle rs')) = length (tm_pool (rs_oracle rs))"
    "\<forall>(p, u) \<in> rec_writes h. \<forall>t \<in> set (arg_reads (rec_auto r)). shares t u \<longrightarrow> (p, rec_task r) \<in> (edge_rel (rs_edges rs'))\<^sup>+"
    by (rule replay_step [where dbg = dbg, OF Cons.prems(1) c])
  have "ordered (h @ [r]) (rs_edges rs')"
    by (rule ordered_snoc [OF Cons.prems(2) st(3,5)])
  then show ?case
    using Cons.IH [OF st(2)] Cons.prems(3-5) st(1,4) by simp
qed simp

text \<open>
  C33: the replay prints a complete dependency graph. On well-formed records of coherent tensors, with its allocations and the
  file available, the replay succeeds, and the edges of the file order every record that reads a tensor (automatic
  dependencies) after every earlier record that wrote a shared element.
\<close>

theorem replay_orders_conflicts:
  assumes ok: "\<forall>r \<in> set recs. record_ok r" and coh: "coherent (\<Union>r \<in> set recs. rec_tensors r)"
    and n: "sum_list (map rec_outputs recs) \<le> 10 ^ 9"
  shows "\<exists>tasks tensors edges.
    dep_gen_replay_emit_deps_json dbg (\<lambda>_. True) (\<lambda>_. True) True True (Some recs) (length recs) (Some path)
      = Some (Inr (0, Some (write_deps_json_v2 tasks tensors edges)))
    \<and> (\<forall>j < length recs. \<forall>i < j. \<forall>u \<in> set (arg_writes (rec_auto (recs ! i))). \<forall>t \<in> set (arg_reads (rec_auto (recs ! j))).
         shares t u \<longrightarrow> (rec_task (recs ! i), rec_task (recs ! j)) \<in> (edge_rel edges)\<^sup>+)"
proof -
  obtain ws k where sizes: "replay_sizes recs = Inr (ws, k)" "length ws = PTO2_MAX_RING_DEPTH" "\<forall>w \<in> set ws. \<exists>j < 31. w = 2 ^ j"
    "sum_list (map rec_outputs recs) \<le> k"
    using replay_sizes_ok [OF ok n] by blast
  have nb: "PTO2_TENSORMAP_NUM_BUCKETS = 2 ^ 12"
    by (simp add: PTO2_TENSORMAP_NUM_BUCKETS_def)
  obtain M where M: "tensormap_init (\<lambda>_. True) PTO2_TENSORMAP_NUM_BUCKETS k ws = Some M" and pool: "length (tm_pool M) = k"
    by (simp add: tensormap_init_def buckets_pow2 list_all_iff)
  note init = tensormap_init_ok [OF M nb _ _ sizes(2,3)]
  let ?rs = "\<lparr>rs_oracle = M, rs_annot = M, rs_tasks = [], rs_tensors = (Map.empty, []), rs_edges = []\<rparr>"
  have "replayed [] ?rs"
    using init by (simp add: replayed_def rec_writes_def known_def)
  then obtain rs' where "replay_records dbg recs ?rs = Some (Inr (Inr rs'))" "ordered recs (rs_edges rs')"
    using replay_run [of "[]" ?rs recs dbg] ok coh sizes(4) pool by (auto simp: ordered_def)
  then show ?thesis
    using sizes(1) M by (auto simp: dep_gen_replay_emit_deps_json_def ordered_def)
qed

text \<open>Two records: one updates a matrix, the next reads its left half.\<close>

definition demo_record :: "u64 \<Rightarrow> TensorArgType \<Rightarrow> Tensor \<Rightarrow> DepGenRecord" where
  "demo_record i ty t = \<lparr>dg_task_id = i, dg_flags = 0, dg_tensor_count = 1, dg_explicit_dep_count = 0,
     dg_explicit_deps = replicate 16 0, dg_arg_types = ty # replicate 15 OUTPUT, dg_tensors = t # replicate 15 t\<rparr>"

lemma demo_record_ok: "record_ok (demo_record 0 ty t)" "record_ok (demo_record 1 ty t)"
  by (simp_all add: record_ok_def demo_record_def CORE_MAX_TENSOR_ARGS_def DEP_GEN_MAX_EXPLICIT_DEPS_def PTO2_MAX_RING_DEPTH_def
      rec_task_def tid_ring_def tid_local_def)

lemma demo_record_inputs: "rec_inputs (demo_record i ty t) = [(ty, Some t)]" "rec_auto (demo_record i ty t) = [(ty, Some t)]"
  by (simp_all add: rec_inputs_def rec_auto_def in_manual_def demo_record_def)

theorem replay_orders_conflicts_witness:
  "\<exists>tasks tensors edges.
    dep_gen_replay_emit_deps_json True (\<lambda>_. True) (\<lambda>_. True) True True
      (Some [demo_record 0 INOUT demo_tensor, demo_record 1 INPUT demo_left]) 2 (Some ''deps.json'')
      = Some (Inr (0, Some (write_deps_json_v2 tasks tensors edges)))
    \<and> (\<lparr>raw = 0\<rparr>, \<lparr>raw = 1\<rparr>) \<in> (edge_rel edges)\<^sup>+"
proof -
  let ?recs = "[demo_record 0 INOUT demo_tensor, demo_record 1 INPUT demo_left]"
  have coh: "coherent (\<Union>r \<in> set ?recs. rec_tensors r)"
    using demo_coherent by (rule back_subst [of coherent]) (auto simp: rec_tensors_def demo_record_inputs)
  have n: "sum_list (map rec_outputs ?recs) \<le> 10 ^ 9"
    by (simp add: rec_outputs_def demo_record_def is_output_def)
  have acc: "arg_writes (rec_auto (?recs ! 0)) = [demo_tensor]" "arg_reads (rec_auto (?recs ! 1)) = [demo_left]"
    by (simp_all add: demo_record_inputs demo_tensor_def demo_left_def)
  have ids: "rec_task (?recs ! 0) = \<lparr>raw = 0\<rparr>" "rec_task (?recs ! 1) = \<lparr>raw = 1\<rparr>"
    by (simp_all add: rec_task_def demo_record_def)
  have "\<forall>r \<in> set ?recs. record_ok r"
    by (simp add: demo_record_ok)
  from replay_orders_conflicts [OF this coh n, of True "''deps.json''"] obtain tasks tensors edges
    where "dep_gen_replay_emit_deps_json True (\<lambda>_. True) (\<lambda>_. True) True True (Some ?recs) (length ?recs) (Some ''deps.json'')
      = Some (Inr (0, Some (write_deps_json_v2 tasks tensors edges)))"
    and "\<forall>j < length ?recs. \<forall>i < j. \<forall>u \<in> set (arg_writes (rec_auto (?recs ! i))). \<forall>t \<in> set (arg_reads (rec_auto (?recs ! j))).
         shares t u \<longrightarrow> (rec_task (?recs ! i), rec_task (?recs ! j)) \<in> (edge_rel edges)\<^sup>+"
    by blast
  moreover from this(2) have "(rec_task (?recs ! 0), rec_task (?recs ! 1)) \<in> (edge_rel edges)\<^sup>+"
    using acc demo_shares by (metis One_nat_def lessI list.set_intros(1) length_Cons list.size(3) zero_less_one)
  ultimately show ?thesis
    unfolding ids by (intro exI [of _ tasks] exI [of _ tensors] exI [of _ edges]) (simp add: numeral_2_eq_2)
qed

end
