(* ===== verification/Spec2Isabelle.thy ===== *)
theory Spec2Isabelle
  imports HierRingRuns HierRaces L2Memory L2SyncSkip L2ReplayRuns
begin

text \<open>
  A verification of the task runtime of pto-cu.

  \<^bold>\<open>The program.\<close> Two runtimes execute graphs of tasks. The \<^emph>\<open>host runtime\<close> (\<^verbatim>\<open>src/common/hierarchical\<close>) takes submissions on
  an orchestrator thread, infers dependencies from tensor arguments, allocates output memory from ring allocators, and
  dispatches ready tasks from a scheduler thread to worker threads that talk to child processes through shared-memory
  mailboxes. The \<^emph>\<open>device runtime\<close> (\<^verbatim>\<open>src/a2a3/runtime/tensormap_and_ringbuffer\<close>) does the same on the accelerator: tensor
  descriptors with views, a hash table of writers, rings of task slots in shared memory, and queues between an orchestrator
  and several scheduler threads. Both use the argument and blob formats of \<^verbatim>\<open>src/common/task_interface\<close>. On the host,
  \<^verbatim>\<open>host/dep_gen_replay.cpp\<close> replays captured device submissions to print their dependencies.

  \<^bold>\<open>Shared theories.\<close> \<open>Prelude\<close>: machine words, outcomes (\<open>(exn + 'a) \<times> 's\<close>, with thrown exceptions, failed assertions and
  undefined behaviour as values of \<open>exn\<close>), byte encodings, alignment. \<open>SlabRing\<close>: the locale of bump-allocated rings of
  slabs, interpreted on the host ring. \<open>TaskInterface\<close>: \<^verbatim>\<open>data_type.h\<close>, \<^verbatim>\<open>tensor_arg.h\<close>, \<^verbatim>\<open>task_args.h\<close>, \<^verbatim>\<open>call_config.h\<close>;
  blobs read back what was written and never read past their capacity.

  \<^bold>\<open>Host runtime.\<close> \<open>HierTypes\<close> (\<^verbatim>\<open>types\<close>, \<^verbatim>\<open>scope\<close>, \<^verbatim>\<open>tensormap\<close>), \<open>HierRing\<close> (\<^verbatim>\<open>ring\<close>), \<open>HierWorkers\<close> (\<^verbatim>\<open>worker_manager\<close>), \<open>HierEngine\<close>
  (\<^verbatim>\<open>orchestrator\<close>) and \<open>HierSched\<close> (\<^verbatim>\<open>scheduler\<close>) hold one definition per method. \<open>HierSteps\<close> makes the calls of all threads
  the steps of one relation; a step is one call, and \<open>HierRaces\<close> splits a submission to interleave a completion.
  \<open>HierRingProps\<close> and \<open>HierRingRuns\<close> show that live slabs are disjoint and inside the heap, that exactly the released prefix is
  reclaimed, and when an allocation is refused. \<open>HierAccount\<close>, \<open>HierInv\<close>, \<open>HierInvOps\<close>, \<open>HierInvAlloc\<close>, \<open>HierInvWire\<close> and
  \<open>HierInvSubmit\<close> build the engine invariant. \<open>HierSafety\<close>, \<open>HierEffects\<close>, \<open>HierOutcomes\<close> and \<open>HierProgress\<close> derive: a task runs only
  after its producers, memory outlives its readers, dependency inference equals its specification, what a submission
  stores, when draining ends, no deadlock among dependencies, termination of the work in flight; and the failures of the
  code: a lost wakeup, a drain blocked by a failed submission, a retired producer that erases a newer one.
  \<open>HierWorkersProps\<close> shows what a mailbox delivers and what a reply means.

  \<^bold>\<open>Device runtime.\<close> \<open>L2Types\<close>, \<open>L2Tensor\<close>, \<open>L2TensorProps\<close> (\<^verbatim>\<open>tensor.h\<close>): views never leave the buffer. \<open>L2Overlap\<close>,
  \<open>L2OverlapProps\<close>: the overlap test misses no shared element, and is exact on row-major views; it does miss views of different
  element types. \<open>L2TensorMap\<close> (\<^verbatim>\<open>pto_tensormap\<close>) with \<open>L2Chains\<close>, \<open>L2TensorMapInv\<close>, \<open>L2TensorMapCut\<close>, \<open>L2TensorMapProps\<close>,
  \<open>L2TensorMapOps\<close>: the doubly linked chains stay consistent under every operation, a synchronisation drops only retired
  registrations, a lookup ends and visits exactly the live overlapping ones. \<open>L2Deps\<close> (\<^verbatim>\<open>pto_dep_compute.h\<close>),
  \<open>L2DepsProps\<close>, \<open>L2DepsRuns\<close>: dependencies over runs of submissions are complete and precise; \<open>L2SyncSkip\<close>: they are not when a
  hidden allocation task skips the synchronisation. \<open>L2Shared\<close>, \<open>L2Memory\<close>, \<open>L2Pools\<close>, \<open>L2Queues\<close>, \<open>L2Sched\<close>, \<open>L2Orch\<close>: shared
  memory, allocator and pools, queues, scheduler and orchestrator operations. \<open>L2Replay\<close>: the replay. \<open>L2ReplayAgree\<close>: its two
  passes always agree. \<open>L2ReplayRuns\<close>: on well-formed records it sizes its maps large enough, succeeds, and prints a complete graph.

  \<^bold>\<open>Conventions.\<close> 64-bit and 32-bit unsigned values are words, so arithmetic wraps as in the code; signed counters that the code
  keeps in 32 bits are integers, with the conversion written where a value crosses a width. Debug assertions depend on a
  parameter \<open>dbg\<close>. Pointers are indices or pairs of ring and slot. Loops that wait for another thread read their values from a
  parameter \<open>load\<close>, are \<open>partial_function (option)\<close>, and have the value \<open>None\<close> when they do not end; loops that end are
  proved to (the walks of a consistent tensor map return). No fuel is used.

  \<^bold>\<open>Not modelled.\<close> The platform layers (\<^verbatim>\<open>platform/onboard\<close>, \<^verbatim>\<open>platform/sim\<close>, \<^verbatim>\<open>src/cuda\<close>): they call vendor drivers and register
  files that are not part of the sources. The dispatch loops \<^verbatim>\<open>aicpu_executor.cpp\<close> and \<^verbatim>\<open>scheduler_dispatch\<close>: handshakes with cores
  through memory-mapped registers. The profiling, dump and trace collectors and the logging: they do not influence the
  execution. The \<^verbatim>\<open>host_build_graph\<close> runtime and the \<^verbatim>\<open>a5\<close> directory: separate variants of the device
  runtime. Python bindings and examples. Weak-memory effects of relaxed atomics: a step of the model is sequentially
  consistent. In the modelled files: destructors, printers and the profiling variants.
\<close>

end
